(* ===== verification/Prelude.thy ===== *)
theory Prelude
  imports Main "HOL-Library.Word"
begin

text \<open>
  Shared vocabulary of the development: names for the machine types of the Rust
  sources, the outcome type of code that can panic, the generic loop of the sources
  (\<open>loop\<close>, \<open>while\<close> and \<open>while let\<close>) with its rules for invariants, termination and
  divergence, and the bit-level facts about event words.
\<close>

unbundle bit_operations_syntax

named_theorems event_simps \<open>decoding of event words into worker id and event type\<close>
named_theorems loop_simps \<open>one-iteration equations of the generic loop\<close>

subsection \<open>Machine types and outcomes\<close>

type_synonym u64 = "64 word"
type_synonym usize = "64 word"
type_synonym i64 = "64 word"
type_synonym i32 = "32 word"
type_synonym pid_t = i32

text \<open>
  \<open>Returns v\<close>: the function returned \<open>v\<close>; \<open>Panics\<close>: a failed \<open>assert_eq!\<close>,
  \<open>unwrap\<close>, \<open>expect\<close>, index or overflow check unwound the calling thread.
\<close>

datatype 'a outcome = Returns 'a | Panics

text \<open>Addition of \<open>u64\<close> values with the overflow check of the debug profile.\<close>

definition checked_add :: "u64 \<Rightarrow> u64 \<Rightarrow> u64 option" where
  "checked_add a b = (if unat a + unat b < 2 ^ 64 then Some (a + b) else None)"

lemma checked_add_Some: "checked_add a b = Some c \<Longrightarrow> unat c = unat a + unat b"
  by (auto simp: checked_add_def unat_word_ariths split: if_splits)

lemma checked_add_None_iff: "checked_add a b = None \<longleftrightarrow> 2 ^ 64 \<le> unat a + unat b"
  by (auto simp: checked_add_def)

subsection \<open>The generic loop\<close>

text \<open>
  One iteration of a Rust loop either goes on with a new state (\<open>Inl\<close>) or leaves the
  loop with a result (\<open>Inr\<close>: \<open>break\<close> or \<open>return\<close>). \<open>None\<close> as the value of the body
  or of the loop means that it never returns.
\<close>

partial_function (option) rust_loop :: "('s \<Rightarrow> ('s + 'r) option) \<Rightarrow> 's \<Rightarrow> 'r option" where
  "rust_loop body s =
     (case body s of
        None \<Rightarrow> None
      | Some (Inl s') \<Rightarrow> rust_loop body s'
      | Some (Inr r) \<Rightarrow> Some r)"

lemma rust_loop_continue [loop_simps]:
  "body s = Some (Inl s') \<Longrightarrow> rust_loop body s = rust_loop body s'"
  by (simp add: rust_loop.simps [of body s])

lemma rust_loop_break [loop_simps]:
  "body s = Some (Inr r) \<Longrightarrow> rust_loop body s = Some r"
  by (simp add: rust_loop.simps [of body s])

lemma rust_loop_stuck [loop_simps]:
  "body s = None \<Longrightarrow> rust_loop body s = None"
  by (simp add: rust_loop.simps [of body s])

text \<open>The loop returns exactly when some number of iterations ends in a \<open>break\<close>.\<close>

primrec loop_iter :: "('s \<Rightarrow> ('s + 'r) option) \<Rightarrow> nat \<Rightarrow> 's \<Rightarrow> 's option" where
  "loop_iter body 0 s = Some s"
| "loop_iter body (Suc n) s =
     (case body s of Some (Inl s') \<Rightarrow> loop_iter body n s' | _ \<Rightarrow> None)"

lemma loop_iter_snoc:
  "loop_iter body (Suc n) s =
     (case loop_iter body n s of
        None \<Rightarrow> None
      | Some t \<Rightarrow> (case body t of Some (Inl s') \<Rightarrow> Some s' | _ \<Rightarrow> None))"
proof (induction n arbitrary: s)
  case 0
  then show ?case by (simp split: option.splits sum.splits)
next
  case (Suc n)
  show ?case
  proof (cases "body s")
    case None
    then show ?thesis by simp
  next
    case (Some t)
    then show ?thesis using Suc by (cases t) simp_all
  qed
qed

lemma rust_loop_iter:
  "loop_iter body n s = Some s' \<Longrightarrow> rust_loop body s = rust_loop body s'"
  by (induction n arbitrary: s) (auto simp: loop_simps split: option.splits sum.splits)

lemma rust_loop_Some_iff:
  "rust_loop body s = Some r \<longleftrightarrow> (\<exists>n s'. loop_iter body n s = Some s' \<and> body s' = Some (Inr r))"
proof
  assume "rust_loop body s = Some r"
  then show "\<exists>n s'. loop_iter body n s = Some s' \<and> body s' = Some (Inr r)"
  proof (rule rust_loop.raw_induct [rotated])
    fix f b s r
    assume IH: "\<And>b s r. f b s = Some r \<Longrightarrow> \<exists>n s'. loop_iter b n s = Some s' \<and> b s' = Some (Inr r)"
      and eq: "(case b s of None \<Rightarrow> None | Some (Inl s') \<Rightarrow> f b s' | Some (Inr r) \<Rightarrow> Some r) = Some r"
    show "\<exists>n s'. loop_iter b n s = Some s' \<and> b s' = Some (Inr r)"
    proof (cases "b s")
      case None
      with eq show ?thesis by simp
    next
      case (Some t)
      show ?thesis
      proof (cases t)
        case (Inl u)
        with eq Some have "f b u = Some r" by simp
        with IH obtain n s' where "loop_iter b n u = Some s'" "b s' = Some (Inr r)" by blast
        with Some Inl have "loop_iter b (Suc n) s = Some s'" "b s' = Some (Inr r)" by simp_all
        then show ?thesis by blast
      next
        case (Inr q)
        with eq Some have "loop_iter b 0 s = Some s" "b s = Some (Inr r)" by simp_all
        then show ?thesis by blast
      qed
    qed
  qed
next
  assume "\<exists>n s'. loop_iter body n s = Some s' \<and> body s' = Some (Inr r)"
  then show "rust_loop body s = Some r"
    by (auto simp: rust_loop_iter loop_simps)
qed

text \<open>Partial correctness: what every iteration keeps holds when the loop is left.\<close>

lemma rust_loop_invariant:
  assumes ret: "rust_loop body s = Some r" and start: "P s"
    and cont: "\<And>s s'. P s \<Longrightarrow> body s = Some (Inl s') \<Longrightarrow> P s'"
    and brk: "\<And>s r. P s \<Longrightarrow> body s = Some (Inr r) \<Longrightarrow> Q r"
  shows "Q r"
proof -
  have "body = body \<longrightarrow> P s \<longrightarrow> Q r"
  proof (rule rust_loop.raw_induct [where P = "\<lambda>b s r. b = body \<longrightarrow> P s \<longrightarrow> Q r", OF _ ret])
    fix f b s r
    assume IH: "\<And>b s r. f b s = Some r \<Longrightarrow> b = body \<longrightarrow> P s \<longrightarrow> Q r"
      and eq: "(case b s of None \<Rightarrow> None | Some (Inl s') \<Rightarrow> f b s' | Some (Inr r) \<Rightarrow> Some r) = Some r"
    show "b = body \<longrightarrow> P s \<longrightarrow> Q r"
      using eq IH cont brk by (auto split: option.splits sum.splits)
  qed
  with start show ?thesis by simp
qed

text \<open>Two loops whose bodies agree on the states that occur.\<close>

lemma pure_loop_invariant:
  assumes "rust_loop (\<lambda>s. Some (body s)) s = Some r" and "P s"
    and "\<And>s. P s \<Longrightarrow> case body s of Inl s' \<Rightarrow> P s' | Inr q \<Rightarrow> Q q"
  shows "Q r"
  using assms(1)
proof (rule rust_loop_invariant [where P = P and Q = Q])
  show "P s'" if "P s" "Some (body s) = Some (Inl s')" for s s' using assms(3) [OF that(1)] that(2) by simp
  show "Q q" if "P s" "Some (body s) = Some (Inr q)" for s q using assms(3) [OF that(1)] that(2) by simp
qed (rule assms(2))

lemma rust_loop_agree:
  assumes start: "P s" and same: "\<And>s. P s \<Longrightarrow> body' s = body s" and keep: "\<And>s s'. P s \<Longrightarrow> body s = Some (Inl s') \<Longrightarrow> P s'"
  shows "rust_loop body' s = rust_loop body s"
proof -
  have "loop_iter body' n s = loop_iter body n s \<and> (\<forall>s'. loop_iter body n s = Some s' \<longrightarrow> P s')" for n
    using start
  proof (induction n arbitrary: s)
    case (Suc n)
    then show ?case using same [OF Suc.prems] keep [OF Suc.prems] by (auto split: option.splits sum.splits)
  qed simp
  then have "rust_loop body' s = Some r \<longleftrightarrow> rust_loop body s = Some r" for r
    unfolding rust_loop_Some_iff using same by metis
  then show ?thesis by (metis option.exhaust)
qed

text \<open>Divergence: a set of states that no iteration leaves.\<close>

lemma rust_loop_diverges:
  assumes keep: "\<And>s. P s \<Longrightarrow> \<exists>s'. body s = Some (Inl s') \<and> P s'" and start: "P s"
  shows "rust_loop body s = None"
proof (rule ccontr)
  assume "rust_loop body s \<noteq> None"
  then obtain r where "rust_loop body s = Some r" by auto
  then show False
    by (rule rust_loop_invariant [where P = P and Q = "\<lambda>_. False"]) (use start keep in fastforce)+
qed

text \<open>Total correctness: a measure that every further iteration decreases.\<close>

lemma rust_loop_terminates:
  fixes m :: "'s \<Rightarrow> nat"
  assumes start: "P s"
    and step: "\<And>s. P s \<Longrightarrow> (\<exists>r. body s = Some (Inr r) \<and> Q r) \<or>
                 (\<exists>s'. body s = Some (Inl s') \<and> P s' \<and> m s' < m s)"
  shows "\<exists>r. rust_loop body s = Some r \<and> Q r"
  using start
proof (induction "m s" arbitrary: s rule: less_induct)
  case less
  from step [OF less.prems] show ?case
    using less.hyps by (auto simp: loop_simps)
qed

subsection \<open>Event words\<close>

lemma mask_31: "(31 :: u64) = mask 5"
  by (simp add: mask_eq_exp_minus_1)

lemma low_bits_of_shifted [event_simps]: "push_bit 5 (x :: u64) AND 31 = 0"
  unfolding mask_31 by (rule bit_word_eqI) (auto simp: bit_simps)

lemma shifted_or_low [event_simps]:
  "(e :: u64) AND 31 = e \<Longrightarrow> (push_bit 5 x OR e) AND 31 = e"
  by (simp add: bit.conj_disj_distrib2 low_bits_of_shifted)

lemma drop_low [event_simps]:
  assumes "(e :: u64) AND 31 = e"
  shows "drop_bit 5 e = 0"
proof -
  have e: "bit e n \<Longrightarrow> n < 5" for n
    using assms unfolding mask_31 by (metis bit_and_iff bit_mask_iff)
  show ?thesis
    by (rule bit_word_eqI) (auto simp: bit_simps dest: e)
qed

lemma drop_push_is_clear: "push_bit 5 (drop_bit 5 (x :: u64)) = x AND NOT 31"
  unfolding mask_31 by (rule bit_word_eqI) (auto simp: bit_simps)

lemma clear_or_low [event_simps]: "push_bit 5 (drop_bit 5 (x :: u64)) OR (x AND 31) = x"
  unfolding mask_31 by (rule bit_word_eqI) (auto simp: bit_simps)

lemma tid_of_shifted [event_simps]:
  "(ucast (drop_bit 5 (push_bit 5 (scast (t :: i32) :: u64))) :: i32) = t"
  by (rule bit_word_eqI) (auto simp: bit_simps)

lemma ucast_scast [simp]: "(ucast (scast (t :: i32) :: u64) :: i32) = t"
  by (rule bit_word_eqI) (auto simp: bit_simps)

lemma ucast_minus_one [simp]: "(ucast (- 1 :: u64) :: i32) = - 1"
  by (rule bit_word_eqI) (simp add: bit_simps)

lemma clear_shifted [simp]:
  "push_bit 5 (drop_bit 5 (push_bit 5 (x :: u64))) = push_bit 5 x"
  by (rule bit_word_eqI) (auto simp: bit_simps)

subsection \<open>Maps and lists\<close>

lemma dom_update_known: "m k = Some v \<Longrightarrow> dom (m(k \<mapsto> v')) = dom m"
  by auto

lemma takeWhile_hd_Cons: "takeWhile P xs = y # ys \<Longrightarrow> P y \<and> xs \<noteq> [] \<and> hd xs = y"
  by (cases xs) (auto split: if_splits)

lemma takeWhile_ConsD:
  assumes "takeWhile P xs = y # ys"
  obtains zs where "xs = y # zs" and "ys = takeWhile P zs" and "P y"
  using assms by (cases xs) (auto split: if_splits)

text \<open>
  A buffer after the kernel has written \<open>ws\<close> to its start: the kernel never changes the
  length of a buffer it is given.
\<close>

definition overwrite :: "'a list \<Rightarrow> 'a list \<Rightarrow> 'a list" where
  "overwrite ws buf = take (length buf) (ws @ drop (length ws) buf)"

lemma length_overwrite [simp]: "length (overwrite ws buf) = length buf"
  by (auto simp: overwrite_def)

lemma overwrite_Nil [simp]: "overwrite [] buf = buf"
  by (simp add: overwrite_def)

subsection \<open>Decimal output\<close>

text \<open>What \<open>{}\<close> of \<open>format!\<close> prints for an unsigned and for a signed integer.\<close>

fun dec_nat :: "nat \<Rightarrow> string" where
  "dec_nat n = (if n < 10 then [char_of (n + 48)] else dec_nat (n div 10) @ [char_of (n mod 10 + 48)])"

declare dec_nat.simps [simp del]

definition dec_int :: "int \<Rightarrow> string" where
  "dec_int i = (if i < 0 then CHR ''-'' # dec_nat (nat (- i)) else dec_nat (nat i))"

fun undec :: "string \<Rightarrow> nat" where
  "undec s = foldl (\<lambda>n c. 10 * n + (of_char c - 48)) 0 s"

lemma undec_dec_nat: "undec (dec_nat n) = n"
proof (induction n rule: dec_nat.induct)
  case (1 n)
  show ?case
  proof (cases "n < 10")
    case True
    then show ?thesis by (simp add: dec_nat.simps [of n])
  next
    case False
    with 1 show ?thesis by (simp add: dec_nat.simps [of n])
  qed
qed

lemma dec_nat_inject [simp]: "dec_nat m = dec_nat n \<longleftrightarrow> m = n"
  by (metis undec_dec_nat)

end
