(* ===== verification/Umcg_Base.thy ===== *)
theory Umcg_Base
  imports Prelude
begin

text \<open>
  \<open>src/umcg_base.rs\<close>: the constants of the UMCG interface, its commands and event
  types, the wrapper of the system call and the three ways of waiting for events.

  The kernel is not part of the Rust sources. It is a parameter \<open>K\<close> of every definition
  that enters it: a function of the system call's arguments, of the event buffer and of
  the world \<open>'w\<close> outside the calling thread. It gives the raw return value, the value of
  \<open>errno\<close> after the call, the words it wrote to the start of the event buffer and the
  new world. The world holds everything other threads can change while the caller is in
  the kernel.
\<close>

subsection \<open>Constants\<close>

definition SYS_UMCG_CTL :: i64 where "SYS_UMCG_CTL = 449"

definition UMCG_WORKER_ID_SHIFT :: nat where "UMCG_WORKER_ID_SHIFT = 5"

definition UMCG_WORKER_EVENT_MASK :: u64 where
  "UMCG_WORKER_EVENT_MASK = push_bit UMCG_WORKER_ID_SHIFT 1 - 1"

definition UMCG_WAIT_FLAG_INTERRUPTED :: u64 where "UMCG_WAIT_FLAG_INTERRUPTED = 1"

definition WORKER_REGISTRATION_TIMEOUT_MS :: u64 where "WORKER_REGISTRATION_TIMEOUT_MS = 5000"

definition EVENT_BUFFER_SIZE :: nat where "EVENT_BUFFER_SIZE = 2"

text \<open>Error numbers of the x86-64 Linux ABI the sources compare with.\<close>

definition EINTR :: i32 where "EINTR = 4"
definition EAGAIN :: i32 where "EAGAIN = 11"
definition EINVAL :: i32 where "EINVAL = 22"
definition ETIMEDOUT :: i32 where "ETIMEDOUT = 110"

lemmas umcg_consts = SYS_UMCG_CTL_def UMCG_WORKER_ID_SHIFT_def UMCG_WORKER_EVENT_MASK_def
  UMCG_WAIT_FLAG_INTERRUPTED_def WORKER_REGISTRATION_TIMEOUT_MS_def EVENT_BUFFER_SIZE_def

lemmas errno_consts = EINTR_def EAGAIN_def EINVAL_def ETIMEDOUT_def

subsection \<open>Commands and events\<close>

datatype UmcgCmd = Cmd_RegisterWorker | Cmd_RegisterServer | Cmd_Unregister | Cmd_Wake
  | Cmd_Wait | Cmd_CtxSwitch

fun cmd_u64 :: "UmcgCmd \<Rightarrow> u64" where
  "cmd_u64 Cmd_RegisterWorker = 1"
| "cmd_u64 Cmd_RegisterServer = 2"
| "cmd_u64 Cmd_Unregister = 3"
| "cmd_u64 Cmd_Wake = 4"
| "cmd_u64 Cmd_Wait = 5"
| "cmd_u64 Cmd_CtxSwitch = 6"

datatype UmcgEventType = Ev_Block | Ev_Wake | Ev_Wait | Ev_Exit | Ev_Timeout | Ev_Preempt

fun event_u64 :: "UmcgEventType \<Rightarrow> u64" where
  "event_u64 Ev_Block = 1"
| "event_u64 Ev_Wake = 2"
| "event_u64 Ev_Wait = 3"
| "event_u64 Ev_Exit = 4"
| "event_u64 Ev_Timeout = 5"
| "event_u64 Ev_Preempt = 6"

definition from_u64 :: "u64 \<Rightarrow> UmcgEventType option" where
  "from_u64 value =
     (if value = 1 then Some Ev_Block
      else if value = 2 then Some Ev_Wake
      else if value = 3 then Some Ev_Wait
      else if value = 4 then Some Ev_Exit
      else if value = 5 then Some Ev_Timeout
      else if value = 6 then Some Ev_Preempt
      else None)"

text \<open>
  The three expressions the sources use on event words: \<open>event & MASK\<close>,
  \<open>(event >> SHIFT) << SHIFT\<close> and \<open>(worker_id >> SHIFT) as i32\<close>; and the worker id a
  thread registers, \<open>(tid as u64) << SHIFT\<close>.
\<close>

definition event_type :: "u64 \<Rightarrow> u64" where
  "event_type event = event AND UMCG_WORKER_EVENT_MASK"

definition event_worker :: "u64 \<Rightarrow> u64" where
  "event_worker event = push_bit UMCG_WORKER_ID_SHIFT (drop_bit UMCG_WORKER_ID_SHIFT event)"

definition worker_tid :: "u64 \<Rightarrow> pid_t" where
  "worker_tid worker_id = ucast (drop_bit UMCG_WORKER_ID_SHIFT worker_id)"

definition worker_id_of :: "pid_t \<Rightarrow> u64" where
  "worker_id_of tid = push_bit UMCG_WORKER_ID_SHIFT (scast tid)"

definition debug_worker_id :: "u64 \<Rightarrow> string" where
  "debug_worker_id worker_id =
     (let server_id = (ucast (drop_bit 32 worker_id) :: 32 word);
          tid = (ucast (worker_id AND 0xFFFFFFFF) :: 32 word)
      in ''server:'' @ dec_nat (unat server_id) @ '' tid:'' @ dec_nat (unat tid)
         @ '' (raw:'' @ dec_nat (unat worker_id) @ '')'')"

subsection \<open>The system call\<close>

record sysargs =
  a_nr :: i64
  a_flags :: i64
  a_cmd :: i64
  a_next_tid :: i64
  a_timeout :: i64
  a_event_sz :: i64

record 'w sysres =
  sr_ret :: i64
  sr_errno :: i32
  sr_written :: "u64 list"
  sr_world :: 'w

type_synonym 'w kernel = "sysargs \<Rightarrow> u64 list option \<Rightarrow> 'w \<Rightarrow> 'w sysres"

type_synonym 'w ctl_result = "i32 \<times> i32 \<times> u64 list option \<times> 'w"

text \<open>The call that a context switch of the sources makes, with a buffer of two events.\<close>

definition switch_args :: "pid_t \<Rightarrow> sysargs" where
  "switch_args tid = \<lparr>a_nr = SYS_UMCG_CTL, a_flags = 0, a_cmd = cmd_u64 Cmd_CtxSwitch, a_next_tid = scast tid, a_timeout = 0,
     a_event_sz = scast (2 :: i32)\<rparr>"

text \<open>The bare \<open>libc::syscall(SYS_UMCG_CTL, ...)\<close> that \<open>attempt2.rs\<close> also uses directly.\<close>

definition umcg_syscall ::
  "'w kernel \<Rightarrow> u64 \<Rightarrow> UmcgCmd \<Rightarrow> pid_t \<Rightarrow> u64 \<Rightarrow> u64 list option \<Rightarrow> i32 \<Rightarrow> 'w \<Rightarrow>
   i64 \<times> i32 \<times> u64 list option \<times> 'w" where
  "umcg_syscall K flags cmd next_tid abs_timeout events event_sz w =
     (let r = K \<lparr>a_nr = SYS_UMCG_CTL, a_flags = flags, a_cmd = cmd_u64 cmd,
                 a_next_tid = scast next_tid, a_timeout = abs_timeout,
                 a_event_sz = scast event_sz\<rparr> events w
      in (sr_ret r, sr_errno r, map_option (overwrite (sr_written r)) events, sr_world r))"

definition sys_umcg_ctl ::
  "'w kernel \<Rightarrow> u64 \<Rightarrow> UmcgCmd \<Rightarrow> pid_t \<Rightarrow> u64 \<Rightarrow> u64 list option \<Rightarrow> i32 \<Rightarrow> 'w \<Rightarrow> 'w ctl_result" where
  "sys_umcg_ctl K flags cmd next_tid abs_timeout events event_sz w =
     (case umcg_syscall K flags cmd next_tid abs_timeout events event_sz w of
        (result, errno, events', w') \<Rightarrow> (ucast result, errno, events', w'))"

subsection \<open>Waiting for events\<close>

text \<open>The state of the retry loop: the flags of the next call, the buffer and the world.\<close>

definition umcg_wait_retry_body ::
  "'w kernel \<Rightarrow> u64 \<Rightarrow> i32 \<Rightarrow> u64 \<times> u64 list option \<times> 'w \<Rightarrow>
   ((u64 \<times> u64 list option \<times> 'w) + 'w ctl_result) option" where
  "umcg_wait_retry_body K worker_id event_sz = (\<lambda>(flags, events, w).
     case sys_umcg_ctl K flags Cmd_Wait (worker_tid worker_id) 0 events event_sz w of
       (ret, errno, events', w') \<Rightarrow>
         if ret \<noteq> -1 \<or> errno \<noteq> EINTR then Some (Inr (ret, errno, events', w'))
         else Some (Inl (UMCG_WAIT_FLAG_INTERRUPTED, events', w')))"

definition umcg_wait_retry ::
  "'w kernel \<Rightarrow> u64 \<Rightarrow> u64 list option \<Rightarrow> i32 \<Rightarrow> 'w \<Rightarrow> 'w ctl_result option" where
  "umcg_wait_retry K worker_id events_buf event_sz w =
     rust_loop (umcg_wait_retry_body K worker_id event_sz) (0, events_buf, w)"

datatype WaitNoTimeoutResult = NT_Events i32 | NT_ProcessForwarded | NT_ResourceBusy

definition umcg_wait_retry_simple ::
  "'w kernel \<Rightarrow> u64 \<Rightarrow> u64 list option \<Rightarrow> i32 \<Rightarrow> 'w \<Rightarrow> WaitNoTimeoutResult \<times> u64 list option \<times> 'w" where
  "umcg_wait_retry_simple K worker_id events_buf event_sz w =
     (case sys_umcg_ctl K 0 Cmd_Wait (worker_tid worker_id) 0 events_buf event_sz w of
        (ret, errno, events, w') \<Rightarrow>
          (if ret = 0 then NT_Events ret
           else if errno = EAGAIN then NT_ResourceBusy
           else if errno = EINTR then NT_ProcessForwarded
           else NT_Events ret, events, w'))"

datatype WaitResult = WR_Events i32 | WR_ProcessForwarded | WR_Timeout | WR_ResourceBusy

text \<open>
  \<open>now_nanos\<close> is the reading of the system clock, in nanoseconds since the epoch; the
  addition of the timeout is checked, as in the debug profile the program is built with.
\<close>

definition umcg_wait_retry_timeout ::
  "'w kernel \<Rightarrow> nat \<Rightarrow> u64 \<Rightarrow> u64 list option \<Rightarrow> i32 \<Rightarrow> u64 \<Rightarrow> 'w \<Rightarrow>
   (WaitResult \<times> u64 list option \<times> 'w) outcome" where
  "umcg_wait_retry_timeout K now_nanos worker_id events_buf event_sz timeout_ns w =
     (case checked_add (of_nat now_nanos) timeout_ns of
        None \<Rightarrow> Panics
      | Some abs_timeout \<Rightarrow>
          (case sys_umcg_ctl K 0 Cmd_Wait (worker_tid worker_id) abs_timeout events_buf event_sz w of
             (ret, errno, events, w') \<Rightarrow>
               Returns (if ret = 0 then WR_Events ret
                        else if errno = ETIMEDOUT then WR_Timeout
                        else if errno = EAGAIN then WR_ResourceBusy
                        else if errno = EINTR
                             then (if errno \<noteq> ETIMEDOUT then WR_ProcessForwarded else WR_Timeout)
                        else WR_Events ret, events, w')))"

text \<open>
  \<open>set_cpu_affinity\<close>: \<open>sched_setaffinity\<close> is the libc call, a parameter; its result is
  only logged.
\<close>

definition set_cpu_affinity :: "(usize \<Rightarrow> 'w \<Rightarrow> i32 \<times> 'w) \<Rightarrow> usize \<Rightarrow> 'w \<Rightarrow> (unit + unit) \<times> 'w" where
  "set_cpu_affinity sched_setaffinity cpu_id w =
     (case sched_setaffinity cpu_id w of (result, w') \<Rightarrow> (Inr (), w'))"

subsection \<open>Decoding events\<close>

lemma event_mask_31 [simp]: "UMCG_WORKER_EVENT_MASK = 31"
  by (simp add: UMCG_WORKER_EVENT_MASK_def UMCG_WORKER_ID_SHIFT_def)

lemmas event_word_defs = event_type_def event_worker_def worker_tid_def worker_id_of_def
  UMCG_WORKER_ID_SHIFT_def

lemma event_u64_low [simp]: "event_u64 e AND 31 = event_u64 e"
  by (cases e) simp_all

lemma event_u64_nonzero [simp]: "event_u64 e \<noteq> 0"
  by (cases e) simp_all

lemma event_u64_inject [simp]: "event_u64 d = event_u64 e \<longleftrightarrow> d = e"
  by (cases d; cases e) simp_all

lemma event_type_of_word [simp]: "event_type (worker_id_of t OR event_u64 e) = event_u64 e"
  by (simp add: event_word_defs event_simps)

lemma event_worker_of_word [simp]: "event_worker (worker_id_of t OR event_u64 e) = worker_id_of t"
  by (simp add: event_word_defs event_simps)

lemma event_worker_split: "event_worker event OR event_type event = event"
  by (simp add: event_word_defs event_simps)

lemma worker_tid_of_id [simp]: "worker_tid (worker_id_of t) = t"
  by (simp add: event_word_defs event_simps)

lemma event_worker_of_id [simp]: "event_worker (worker_id_of t) = worker_id_of t"
  by (simp add: event_word_defs)

lemma event_word_nonzero [simp]: "worker_id_of t OR event_u64 e \<noteq> 0"
  by (metis event_type_of_word event_u64_nonzero event_type_def and_zero_eq bit.conj_zero_left)

lemma from_u64_Some_iff: "from_u64 v = Some e \<longleftrightarrow> v = event_u64 e"
  by (cases e) (auto simp: from_u64_def)

subsection \<open>The retry loop as a sequence of calls\<close>

text \<open>
  The \<open>n\<close>-th call of the chain: the first has no flags, each later one is made on the
  buffer and the world the call before left and carries the \<open>INTERRUPTED\<close> flag.
\<close>

primrec wait_call ::
  "'w kernel \<Rightarrow> u64 \<Rightarrow> i32 \<Rightarrow> nat \<Rightarrow> u64 list option \<Rightarrow> 'w \<Rightarrow> 'w ctl_result" where
  "wait_call K worker_id event_sz 0 events w =
     sys_umcg_ctl K 0 Cmd_Wait (worker_tid worker_id) 0 events event_sz w"
| "wait_call K worker_id event_sz (Suc n) events w =
     (case wait_call K worker_id event_sz n events w of
        (ret, errno, events', w') \<Rightarrow>
          sys_umcg_ctl K UMCG_WAIT_FLAG_INTERRUPTED Cmd_Wait (worker_tid worker_id) 0 events' event_sz w')"

definition was_interrupted :: "'w ctl_result \<Rightarrow> bool" where
  "was_interrupted r = (case r of (ret, errno, _, _) \<Rightarrow> ret = -1 \<and> errno = EINTR)"

definition retry_flags :: "nat \<Rightarrow> u64" where
  "retry_flags n = (if n = 0 then 0 else UMCG_WAIT_FLAG_INTERRUPTED)"

lemma wait_retry_body_call:
  "umcg_wait_retry_body K wid sz (fl, ev, w) =
     (let r = sys_umcg_ctl K fl Cmd_Wait (worker_tid wid) 0 ev sz w
      in if was_interrupted r
         then Some (Inl (UMCG_WAIT_FLAG_INTERRUPTED, fst (snd (snd r)), snd (snd (snd r))))
         else Some (Inr r))"
  by (auto simp: umcg_wait_retry_body_def was_interrupted_def Let_def split: prod.splits)

text \<open>A first call that succeeds ends the loop.\<close>

lemma wait_retry_success:
  assumes "\<And>args buf. a_cmd args = cmd_u64 Cmd_Wait \<Longrightarrow> sr_ret (K args buf w) = 0"
  obtains args errno where "a_cmd args = cmd_u64 Cmd_Wait"
    and "umcg_wait_retry K wid (Some evs) sz w =
      Some (0, errno, Some (overwrite (sr_written (K args (Some evs) w)) evs), sr_world (K args (Some evs) w))"
proof -
  let ?args = "\<lparr>a_nr = SYS_UMCG_CTL, a_flags = 0, a_cmd = cmd_u64 Cmd_Wait, a_next_tid = scast (worker_tid wid),
    a_timeout = 0, a_event_sz = scast sz\<rparr>"
  have "sr_ret (K ?args (Some evs) w) = 0" by (rule assms) simp
  then have "umcg_wait_retry K wid (Some evs) sz w = Some (0, sr_errno (K ?args (Some evs) w),
      Some (overwrite (sr_written (K ?args (Some evs) w)) evs), sr_world (K ?args (Some evs) w))"
    by (simp add: umcg_wait_retry_def umcg_wait_retry_body_def sys_umcg_ctl_def umcg_syscall_def Let_def loop_simps)
  then show thesis by (intro that [of ?args]) simp_all
qed

lemma retry_iter_call:
  "loop_iter (umcg_wait_retry_body K wid sz) n (0, ev, w) = Some (fl, ev', w') \<Longrightarrow>
     wait_call K wid sz n ev w = sys_umcg_ctl K fl Cmd_Wait (worker_tid wid) 0 ev' sz w' \<and>
     (\<forall>m<n. was_interrupted (wait_call K wid sz m ev w))"
proof (induction n arbitrary: fl ev' w')
  case 0
  then show ?case by simp
next
  case (Suc n)
  from Suc.prems obtain t where t: "loop_iter (umcg_wait_retry_body K wid sz) n (0, ev, w) = Some t"
    and step: "umcg_wait_retry_body K wid sz t = Some (Inl (fl, ev', w'))"
    by (auto simp: loop_iter_snoc simp del: loop_iter.simps split: option.splits sum.splits)
  obtain fl1 ev1 w1 where teq: "t = (fl1, ev1, w1)" by (cases t)
  let ?r = "sys_umcg_ctl K fl1 Cmd_Wait (worker_tid wid) 0 ev1 sz w1"
  from Suc.IH [OF t [unfolded teq]] have IH: "wait_call K wid sz n ev w = ?r"
    "\<forall>m<n. was_interrupted (wait_call K wid sz m ev w)" by simp_all
  from step have "was_interrupted ?r" "fl = UMCG_WAIT_FLAG_INTERRUPTED"
    "ev' = fst (snd (snd ?r))" "w' = snd (snd (snd ?r))"
    by (auto simp: teq wait_retry_body_call Let_def split: if_splits)
  with IH show ?case by (auto simp: less_Suc_eq split: prod.splits)
qed

lemma retry_iter_exists:
  "\<forall>m<n. was_interrupted (wait_call K wid sz m ev w) \<Longrightarrow>
     \<exists>fl ev' w'. loop_iter (umcg_wait_retry_body K wid sz) n (0, ev, w) = Some (fl, ev', w')"
proof (induction n)
  case 0
  then show ?case by simp
next
  case (Suc n)
  then obtain fl ev' w' where it: "loop_iter (umcg_wait_retry_body K wid sz) n (0, ev, w) = Some (fl, ev', w')"
    by auto
  with retry_iter_call [OF it] Suc.prems
  have "was_interrupted (sys_umcg_ctl K fl Cmd_Wait (worker_tid wid) 0 ev' sz w')" by fastforce
  with it show ?case
    by (simp add: loop_iter_snoc wait_retry_body_call Let_def del: loop_iter.simps)
qed

subsection \<open>Properties\<close>

text \<open>
  C40: An event word made of a registered worker id and an event type is decoded without
  loss: the mask gives the event type, the shifts give the worker id, and the worker id
  gives back the 32-bit thread id the worker registered with, for every thread id.
  Conversely the two decoded parts determine the event word.
\<close>
theorem event_word_roundtrip:
  "event_type (worker_id_of t OR event_u64 e) = event_u64 e \<and>
   event_worker (worker_id_of t OR event_u64 e) = worker_id_of t \<and>
   worker_tid (event_worker (worker_id_of t OR event_u64 e)) = t \<and>
   event_worker event OR event_type event = event"
  by (simp add: event_worker_split)

text \<open>
  C39: \<open>umcg_wait_retry\<close> returns \<open>r\<close> exactly if, for some \<open>n\<close>, the first \<open>n\<close> waits were
  interrupted (result -1 with \<open>EINTR\<close>) and the next one was not and gave \<open>r\<close>. The first
  wait carries no flags and each repetition the \<open>INTERRUPTED\<close> flag, on the buffer the
  interrupted call left behind; so an interruption is never reported to the caller.
\<close>
theorem umcg_wait_retry_spec:
  "umcg_wait_retry K wid events sz w = Some r \<longleftrightarrow>
     (\<exists>n. r = wait_call K wid sz n events w \<and> \<not> was_interrupted r \<and>
          (\<forall>m<n. was_interrupted (wait_call K wid sz m events w)))"
  (is "?lhs \<longleftrightarrow> ?rhs")
proof
  assume ?lhs
  then obtain n fl ev w' where it: "loop_iter (umcg_wait_retry_body K wid sz) n (0, events, w) = Some (fl, ev, w')"
    and brk: "umcg_wait_retry_body K wid sz (fl, ev, w') = Some (Inr r)"
    by (auto simp: umcg_wait_retry_def rust_loop_Some_iff)
  from brk have "r = sys_umcg_ctl K fl Cmd_Wait (worker_tid wid) 0 ev sz w'" "\<not> was_interrupted r"
    by (auto simp: wait_retry_body_call Let_def split: if_splits)
  with retry_iter_call [OF it] show ?rhs by (intro exI [of _ n]) simp
next
  assume ?rhs
  then obtain n where r: "r = wait_call K wid sz n events w" "\<not> was_interrupted r"
    and int: "\<forall>m<n. was_interrupted (wait_call K wid sz m events w)" by blast
  from retry_iter_exists [OF int] obtain fl ev w'
    where it: "loop_iter (umcg_wait_retry_body K wid sz) n (0, events, w) = Some (fl, ev, w')" by blast
  with retry_iter_call [OF it] r
  have "umcg_wait_retry_body K wid sz (fl, ev, w') = Some (Inr r)"
    by (simp add: wait_retry_body_call)
  with it show ?lhs by (auto simp: umcg_wait_retry_def rust_loop_Some_iff)
qed

text \<open>A kernel that interrupts the first wait and then reports that thread 4 woke up.\<close>

definition eintr_once_kernel :: "nat kernel" where
  "eintr_once_kernel = (\<lambda>args buf n.
     if n = 0 then \<lparr>sr_ret = -1, sr_errno = EINTR, sr_written = [], sr_world = 1\<rparr>
     else \<lparr>sr_ret = 0, sr_errno = EINTR, sr_written = [130, 0], sr_world = n + 1\<rparr>)"

theorem umcg_wait_retry_spec_witness:
  "umcg_wait_retry eintr_once_kernel 0 (Some [0, 0]) 2 0 = Some (0, EINTR, Some [130, 0], 2)"
proof -
  have c: "wait_call eintr_once_kernel 0 2 0 (Some [0, 0]) 0 = (-1, EINTR, Some [0, 0], 1)"
    by (simp add: sys_umcg_ctl_def umcg_syscall_def eintr_once_kernel_def)
  then have d: "wait_call eintr_once_kernel 0 2 1 (Some [0, 0]) 0 = (0, EINTR, Some [130, 0], 2)"
    by (simp add: sys_umcg_ctl_def umcg_syscall_def eintr_once_kernel_def overwrite_def)
  show ?thesis
    unfolding umcg_wait_retry_spec using c d
    by (intro exI [of _ 1]) (simp add: was_interrupted_def)
qed

text \<open>
  \<open>umcg_wait_retry_timeout\<close> makes one wait, without flags, whose deadline is the clock
  reading (cut to 64 bits) plus the timeout. It classifies the answer by return value
  first and \<open>errno\<close> second: success is \<open>Events(0)\<close>, and a failure is a timeout, a busy
  resource or a forwarded interruption exactly for \<open>ETIMEDOUT\<close>, \<open>EAGAIN\<close> and \<open>EINTR\<close>;
  any other failure is passed on as \<open>Events\<close> of the nonzero return value. It panics
  exactly if the deadline does not fit 64 bits.
\<close>
lemma umcg_wait_retry_timeout_spec:
  assumes "sys_umcg_ctl K 0 Cmd_Wait (worker_tid wid) (of_nat now + t) buf sz w = (ret, errno, buf', w')"
  shows "umcg_wait_retry_timeout K now wid buf sz t w =
    (if 2 ^ 64 \<le> now mod 2 ^ 64 + unat t then Panics
     else Returns
       (if ret \<noteq> 0 \<and> errno = ETIMEDOUT then WR_Timeout
        else if ret \<noteq> 0 \<and> errno = EAGAIN then WR_ResourceBusy
        else if ret \<noteq> 0 \<and> errno = EINTR then WR_ProcessForwarded
        else WR_Events ret, buf', w'))"
  using assms
  by (simp add: umcg_wait_retry_timeout_def checked_add_def unat_of_nat not_le errno_consts)

end
