(* ===== verification/Containers.thy ===== *)
theory Containers
  imports Prelude
begin

text \<open>
  The containers the schedulers are built from. The crates crossbeam and dashmap are not
  part of the sources, so their operations are parameters: a record of functions per
  container, and a locale with what the crates document about them, stated over an
  abstraction to lists or maps. The channels of \<open>std::sync::mpsc\<close> belong to the language's
  standard library and are modelled directly.
\<close>

subsection \<open>\<open>crossbeam::queue::ArrayQueue\<close>\<close>

text \<open>
  A bounded FIFO queue. \<open>q_push\<close> gives \<open>None\<close> where the crate gives \<open>Err(value)\<close>:
  the queue was full and is unchanged.
\<close>

record ('q, 'a) queue_ops =
  q_new :: "nat \<Rightarrow> 'q"
  q_push :: "'a \<Rightarrow> 'q \<Rightarrow> 'q option"
  q_pop :: "'q \<Rightarrow> ('a \<times> 'q) option"
  q_len :: "'q \<Rightarrow> nat"

text \<open>A push whose failure is only logged, as most pushes of the sources are.\<close>

definition push_or_drop :: "('q, 'a) queue_ops \<Rightarrow> 'a \<Rightarrow> 'q \<Rightarrow> 'q" where
  "push_or_drop Q x q = (case q_push Q x q of None \<Rightarrow> q | Some q' \<Rightarrow> q')"

text \<open>A pop whose value is thrown away (\<open>let _ = queue.pop()\<close>).\<close>

definition pop_discard :: "('q, 'a) queue_ops \<Rightarrow> 'q \<Rightarrow> 'q" where
  "pop_discard Q q = (case q_pop Q q of None \<Rightarrow> q | Some (x, q') \<Rightarrow> q')"

locale array_queue =
  fixes Q :: "('q, 'a) queue_ops"
    and items :: "'q \<Rightarrow> 'a list"
    and cap :: "'q \<Rightarrow> nat"
  assumes items_new: "0 < c \<Longrightarrow> items (q_new Q c) = []"
    and cap_new: "0 < c \<Longrightarrow> cap (q_new Q c) = c"
    and push_full: "cap q \<le> length (items q) \<Longrightarrow> q_push Q x q = None"
    and push_room: "length (items q) < cap q \<Longrightarrow>
          \<exists>q'. q_push Q x q = Some q' \<and> items q' = items q @ [x] \<and> cap q' = cap q"
    and pop_empty: "items q = [] \<Longrightarrow> q_pop Q q = None"
    and pop_front: "items q = x # xs \<Longrightarrow>
          \<exists>q'. q_pop Q q = Some (x, q') \<and> items q' = xs \<and> cap q' = cap q"
    and len_items: "q_len Q q = length (items q)"
begin

lemma push_SomeD:
  "q_push Q x q = Some q' \<Longrightarrow> items q' = items q @ [x] \<and> cap q' = cap q \<and> length (items q) < cap q"
  using push_full [of q x] push_room [of q x] by (cases "length (items q) < cap q") auto

lemma push_NoneD: "q_push Q x q = None \<Longrightarrow> cap q \<le> length (items q)"
  using push_room [of q x] by (cases "length (items q) < cap q") auto

lemma pop_SomeD: "q_pop Q q = Some (x, q') \<Longrightarrow> items q = x # items q' \<and> cap q' = cap q"
proof (cases "items q")
  case Nil
  then show "q_pop Q q = Some (x, q') \<Longrightarrow> ?thesis" by (simp add: pop_empty)
next
  case (Cons y ys)
  from pop_front [OF this] Cons show "q_pop Q q = Some (x, q') \<Longrightarrow> ?thesis" by auto
qed

lemma pop_None_iff: "q_pop Q q = None \<longleftrightarrow> items q = []"
  using pop_empty pop_front by (cases "items q") force+

lemma items_push_or_drop:
  "items (push_or_drop Q x q) = (if length (items q) < cap q then items q @ [x] else items q)"
  by (auto simp: push_or_drop_def not_less dest: push_SomeD push_NoneD split: option.splits)

lemma cap_push_or_drop: "cap (push_or_drop Q x q) = cap q"
  by (auto simp: push_or_drop_def dest: push_SomeD split: option.splits)

lemma items_pop_discard: "items (pop_discard Q q) = tl (items q)"
  by (auto simp: pop_discard_def pop_None_iff dest: pop_SomeD split: option.splits)

lemma cap_pop_discard: "cap (pop_discard Q q) = cap q"
  by (auto simp: pop_discard_def dest: pop_SomeD split: option.splits)

lemmas queue_simps = items_push_or_drop cap_push_or_drop items_pop_discard cap_pop_discard len_items

end

text \<open>A bounded queue as a capacity with a list: it satisfies the documented laws.\<close>

definition list_queue :: "(nat \<times> 'a list, 'a) queue_ops" where
  "list_queue = \<lparr>q_new = (\<lambda>c. (c, [])),
     q_push = (\<lambda>x (c, xs). if length xs < c then Some (c, xs @ [x]) else None),
     q_pop = (\<lambda>(c, xs). case xs of [] \<Rightarrow> None | y # ys \<Rightarrow> Some (y, c, ys)),
     q_len = (\<lambda>(c, xs). length xs)\<rparr>"

interpretation list_queue: array_queue list_queue snd fst
  by unfold_locales (auto simp: list_queue_def)

lemma list_queue_simps [simp]:
  "q_new list_queue c = (c, [])"
  "q_push list_queue x (c, xs) = (if length xs < c then Some (c, xs @ [x]) else None)"
  "q_pop list_queue (c, []) = None"
  "q_pop list_queue (c, y # ys) = Some (y, c, ys)"
  "q_len list_queue (c, xs) = length xs"
  by (simp_all add: list_queue_def)

subsection \<open>\<open>dashmap::DashMap\<close>\<close>

text \<open>
  A concurrent map. \<open>dm_write\<close> is the assignment through the guard that \<open>get_mut\<close> gives
  for a key that is present.
\<close>

record ('d, 'k, 'v) dash_ops =
  dm_new :: 'd
  dm_insert :: "'k \<Rightarrow> 'v \<Rightarrow> 'd \<Rightarrow> 'd"
  dm_get :: "'d \<Rightarrow> 'k \<Rightarrow> 'v option"
  dm_write :: "'k \<Rightarrow> 'v \<Rightarrow> 'd \<Rightarrow> 'd"

locale dash_map =
  fixes D :: "('d, 'k, 'v) dash_ops"
    and lookup :: "'d \<Rightarrow> 'k \<Rightarrow> 'v option"
  assumes lookup_new: "lookup (dm_new D) = Map.empty"
    and lookup_insert: "lookup (dm_insert D k v d) = (lookup d)(k \<mapsto> v)"
    and get_lookup: "dm_get D d k = lookup d k"
    and lookup_write: "lookup d k \<noteq> None \<Longrightarrow> lookup (dm_write D k v d) = (lookup d)(k \<mapsto> v)"
begin

lemmas map_simps = lookup_new lookup_insert get_lookup lookup_write

end

definition fun_map :: "('k \<Rightarrow> 'v option, 'k, 'v) dash_ops" where
  "fun_map = \<lparr>dm_new = Map.empty, dm_insert = (\<lambda>k v d. d(k \<mapsto> v)), dm_get = (\<lambda>d k. d k),
     dm_write = (\<lambda>k v d. d(k \<mapsto> v))\<rparr>"

interpretation fun_map: dash_map fun_map "\<lambda>d. d"
  by unfold_locales (auto simp: fun_map_def)

lemma fun_map_simps [simp]:
  "dm_new fun_map = Map.empty" "dm_insert fun_map k v d = d(k \<mapsto> v)"
  "dm_get fun_map d k = d k" "dm_write fun_map k v d = d(k \<mapsto> v)"
  by (simp_all add: fun_map_def)

subsection \<open>\<open>crossbeam_channel::bounded\<close>\<close>

text \<open>
  A bounded FIFO channel: \<open>send\<close> blocks the caller while the channel is full and fails
  once the receiver is gone; \<open>try_recv\<close> never blocks, and the receiving loop of the
  sources ends on each of its errors.
\<close>

datatype 'c send_result = Sent 'c | SendFailed | SendBlocks

record ('c, 'a) chan_ops =
  ch_bounded :: "nat \<Rightarrow> 'c"
  ch_send :: "'a \<Rightarrow> 'c \<Rightarrow> 'c send_result"
  ch_try_recv :: "'c \<Rightarrow> ('a \<times> 'c) option"

locale bounded_channel =
  fixes C :: "('c, 'a) chan_ops"
    and msgs :: "'c \<Rightarrow> 'a list"
    and room :: "'c \<Rightarrow> nat"
    and receiver :: "'c \<Rightarrow> bool"
  assumes msgs_new: "msgs (ch_bounded C n) = []"
    and room_new: "room (ch_bounded C n) = n"
    and receiver_new: "receiver (ch_bounded C n)"
    and send_gone: "\<not> receiver c \<Longrightarrow> ch_send C x c = SendFailed"
    and send_full: "receiver c \<Longrightarrow> room c = 0 \<Longrightarrow> ch_send C x c = SendBlocks"
    and send_room: "receiver c \<Longrightarrow> 0 < room c \<Longrightarrow>
          \<exists>c'. ch_send C x c = Sent c' \<and> msgs c' = msgs c @ [x] \<and> room c' = room c - 1 \<and> receiver c'"
    and recv_empty: "msgs c = [] \<Longrightarrow> ch_try_recv C c = None"
    and recv_front: "msgs c = x # xs \<Longrightarrow>
          \<exists>c'. ch_try_recv C c = Some (x, c') \<and> msgs c' = xs \<and> room c' = room c + 1 \<and> receiver c' = receiver c"
begin

lemma send_SentD:
  "ch_send C x c = Sent c' \<Longrightarrow> msgs c' = msgs c @ [x] \<and> room c' = room c - 1 \<and> receiver c \<and> receiver c'"
  using send_gone [of c x] send_full [of c x] send_room [of c x]
  by (cases "receiver c"; cases "room c = 0") auto

lemma recv_SomeD:
  "ch_try_recv C c = Some (x, c') \<Longrightarrow> msgs c = x # msgs c' \<and> room c' = room c + 1 \<and> receiver c' = receiver c"
  using recv_empty [of c] recv_front [of c] by (cases "msgs c") auto

lemma recv_None_iff: "ch_try_recv C c = None \<longleftrightarrow> msgs c = []"
  using recv_empty recv_front by (cases "msgs c") force+

end

definition list_chan :: "(nat \<times> bool \<times> 'a list, 'a) chan_ops" where
  "list_chan = \<lparr>ch_bounded = (\<lambda>n. (n, True, [])),
     ch_send = (\<lambda>x (n, alive, xs). if \<not> alive then SendFailed
                 else if n = 0 then SendBlocks else Sent (n - 1, True, xs @ [x])),
     ch_try_recv = (\<lambda>(n, alive, xs). case xs of [] \<Rightarrow> None | y # ys \<Rightarrow> Some (y, n + 1, alive, ys))\<rparr>"

interpretation list_chan: bounded_channel list_chan "\<lambda>(n, alive, xs). xs" "\<lambda>(n, alive, xs). n" "\<lambda>(n, alive, xs). alive"
  by unfold_locales (auto simp: list_chan_def split: prod.splits)

lemma list_chan_simps [simp]:
  "ch_bounded list_chan n = (n, True, [])"
  "ch_send list_chan x (n, alive, xs) = (if \<not> alive then SendFailed
     else if n = 0 then SendBlocks else Sent (n - 1, True, xs @ [x]))"
  "ch_try_recv list_chan (n, alive, []) = None"
  "ch_try_recv list_chan (n, alive, y # ys) = Some (y, n + 1, alive, ys)"
  by (simp_all add: list_chan_def)

subsection \<open>\<open>std::sync::mpsc\<close>\<close>

text \<open>
  An unbounded FIFO channel. \<open>send\<close> fails exactly if the receiver was dropped;
  \<open>try_recv\<close> reports \<open>Empty\<close> while a sender is left and \<open>Disconnected\<close> afterwards.
\<close>

record 'a mpsc =
  mpsc_buf :: "'a list"
  mpsc_rx :: bool
  mpsc_tx :: bool

datatype 'a recv_result = RecvOk 'a | RecvEmpty | RecvDisconnected

definition mpsc_channel :: "'a mpsc" where
  "mpsc_channel = \<lparr>mpsc_buf = [], mpsc_rx = True, mpsc_tx = True\<rparr>"

definition mpsc_send :: "'a \<Rightarrow> 'a mpsc \<Rightarrow> 'a mpsc option" where
  "mpsc_send x c = (if mpsc_rx c then Some (c\<lparr>mpsc_buf := mpsc_buf c @ [x]\<rparr>) else None)"

definition mpsc_try_recv :: "'a mpsc \<Rightarrow> 'a recv_result \<times> 'a mpsc" where
  "mpsc_try_recv c =
     (case mpsc_buf c of
        x # xs \<Rightarrow> (RecvOk x, c\<lparr>mpsc_buf := xs\<rparr>)
      | [] \<Rightarrow> (if mpsc_tx c then RecvEmpty else RecvDisconnected, c))"

lemma mpsc_send_None_iff: "mpsc_send x c = None \<longleftrightarrow> \<not> mpsc_rx c"
  by (simp add: mpsc_send_def)

lemma mpsc_send_SomeD:
  "mpsc_send x c = Some c' \<Longrightarrow> mpsc_buf c' = mpsc_buf c @ [x] \<and> mpsc_rx c \<and> mpsc_rx c' \<and> mpsc_tx c' = mpsc_tx c"
  by (auto simp: mpsc_send_def split: if_splits)

end
