(* ===== verification/A2_Tasks.thy ===== *)
theory A2_Tasks
  imports Containers
begin

text \<open>
  The task side of \<open>src/attempt2.rs\<close>: \<open>TrackedTask\<close>, \<open>TaskQueue\<close> with its traits
  \<open>AddTask\<close>, \<open>RemoveTask\<close> and \<open>ManageTask\<close>, \<open>TaskStats\<close> and \<open>TaskHandle::submit\<close>.
  The trait is an interface between the queue and its users, so it is a record of
  operations with a locale of laws; \<open>TaskQueue\<close> is proved to implement it. Closures are
  values of a type \<open>'t\<close>; a fresh \<open>Uuid\<close> and a clock reading are arguments of the
  operations that draw them.
\<close>

subsection \<open>Tasks and the task queue\<close>

type_synonym uuid = "128 word"

record 't tracked_task =
  tt_id :: uuid
  tt_task :: 't
  tt_created_at :: nat
  tt_description :: string

definition TrackedTask_new :: "uuid \<Rightarrow> nat \<Rightarrow> 't \<Rightarrow> string \<Rightarrow> 't tracked_task" where
  "TrackedTask_new new_v4 now task task_type =
     \<lparr>tt_id = new_v4, tt_task = task, tt_created_at = now, tt_description = task_type\<rparr>"

text \<open>\<open>TaskQueue::new\<close>: \<open>ArrayQueue::new\<close> panics for capacity 0.\<close>

definition TaskQueue_new :: "('q, 't tracked_task) queue_ops \<Rightarrow> nat \<Rightarrow> 'q outcome" where
  "TaskQueue_new Q capacity = (if capacity = 0 then Panics else Returns (q_new Q capacity))"

definition add_task ::
  "('q, 't tracked_task) queue_ops \<Rightarrow> uuid \<Rightarrow> nat \<Rightarrow> string \<Rightarrow> 't \<Rightarrow> 'q \<Rightarrow> ('t + unit) \<times> 'q" where
  "add_task Q new_v4 now task_type task q =
     (let tracked = TrackedTask_new new_v4 now task task_type
      in case q_push Q tracked q of
           Some q' \<Rightarrow> (Inr (), q')
         | None \<Rightarrow> (Inl (tt_task tracked), q))"

definition remove_task :: "('q, 't tracked_task) queue_ops \<Rightarrow> 'q \<Rightarrow> 't tracked_task option \<times> 'q" where
  "remove_task Q q = (case q_pop Q q of Some (x, q') \<Rightarrow> (Some x, q') | None \<Rightarrow> (None, q))"

definition has_pending_tasks :: "('q, 't tracked_task) queue_ops \<Rightarrow> 'q \<Rightarrow> bool" where
  "has_pending_tasks Q q = (q_len Q q > 0)"

definition num_pending_tasks :: "('q, 't tracked_task) queue_ops \<Rightarrow> 'q \<Rightarrow> nat" where
  "num_pending_tasks Q q = q_len Q q"

subsection \<open>The trait \<open>ManageTask\<close>\<close>

record ('m, 't) manage_task_ops =
  mt_add :: "uuid \<Rightarrow> nat \<Rightarrow> string \<Rightarrow> 't \<Rightarrow> 'm \<Rightarrow> ('t + unit) \<times> 'm"
  mt_remove :: "'m \<Rightarrow> 't tracked_task option \<times> 'm"
  mt_has_pending :: "'m \<Rightarrow> bool"
  mt_num_pending :: "'m \<Rightarrow> nat"

definition task_queue_ops :: "('q, 't tracked_task) queue_ops \<Rightarrow> ('q, 't) manage_task_ops" where
  "task_queue_ops Q = \<lparr>mt_add = add_task Q, mt_remove = remove_task Q,
     mt_has_pending = has_pending_tasks Q, mt_num_pending = num_pending_tasks Q\<rparr>"

text \<open>
  What a user of the trait relies on: a bounded FIFO of tracked tasks, where a rejected
  task is handed back.
\<close>

locale manage_task =
  fixes M :: "('m, 't) manage_task_ops"
    and waiting :: "'m \<Rightarrow> 't tracked_task list"
    and limit :: "'m \<Rightarrow> nat"
  assumes add_room: "length (waiting m) < limit m \<Longrightarrow>
        \<exists>m'. mt_add M u now d t m = (Inr (), m') \<and>
             waiting m' = waiting m @ [TrackedTask_new u now t d] \<and> limit m' = limit m"
    and add_full: "limit m \<le> length (waiting m) \<Longrightarrow> mt_add M u now d t m = (Inl t, m)"
    and remove_empty: "waiting m = [] \<Longrightarrow> mt_remove M m = (None, m)"
    and remove_front: "waiting m = x # xs \<Longrightarrow>
        \<exists>m'. mt_remove M m = (Some x, m') \<and> waiting m' = xs \<and> limit m' = limit m"
    and num_waiting: "mt_num_pending M m = length (waiting m)"
    and has_waiting: "mt_has_pending M m \<longleftrightarrow> waiting m \<noteq> []"
begin

lemma add_OkD:
  "mt_add M u now d t m = (Inr x, m') \<Longrightarrow>
     waiting m' = waiting m @ [TrackedTask_new u now t d] \<and> limit m' = limit m"
  using add_room [of m u now d t] add_full [of m u now d t]
  by (cases "length (waiting m) < limit m") auto

lemma add_ErrD:
  "mt_add M u now d t m = (Inl t', m') \<Longrightarrow> t' = t \<and> m' = m \<and> limit m \<le> length (waiting m)"
  using add_room [of m u now d t] add_full [of m u now d t]
  by (cases "length (waiting m) < limit m") auto

lemma remove_SomeD: "mt_remove M m = (Some x, m') \<Longrightarrow> waiting m = x # waiting m' \<and> limit m' = limit m"
  using remove_empty [of m] remove_front [of m] by (cases "waiting m") auto

lemma remove_NoneD: "mt_remove M m = (None, m') \<Longrightarrow> waiting m = [] \<and> m' = m"
  using remove_empty [of m] remove_front [of m] by (cases "waiting m") auto

end

subsection \<open>Statistics and submission\<close>

record a2_stats =
  total_tasks :: usize
  completed_tasks :: usize

definition TaskStats_new :: a2_stats where
  "TaskStats_new = \<lparr>total_tasks = 0, completed_tasks = 0\<rparr>"

definition register_task :: "a2_stats \<Rightarrow> a2_stats" where
  "register_task s = s\<lparr>total_tasks := total_tasks s + 1\<rparr>"

definition mark_completed :: "a2_stats \<Rightarrow> a2_stats" where
  "mark_completed s = s\<lparr>completed_tasks := completed_tasks s + 1\<rparr>"

definition all_tasks_completed :: "a2_stats \<Rightarrow> bool" where
  "all_tasks_completed s \<longleftrightarrow> completed_tasks s > 0 \<and> completed_tasks s = total_tasks s"

definition get_completion_stats :: "a2_stats \<Rightarrow> usize \<times> usize" where
  "get_completion_stats s = (completed_tasks s, total_tasks s)"

text \<open>
  \<open>submit\<close> wraps the closure so that running it also counts it as completed; a task that
  the queue rejects is only logged.
\<close>

datatype 'f wrapped_task = Wrapped (wrapped_fn: 'f)

definition submit ::
  "('m, 'f wrapped_task) manage_task_ops \<Rightarrow> uuid \<Rightarrow> nat \<Rightarrow> string \<Rightarrow> 'f \<Rightarrow> 'm \<times> a2_stats \<Rightarrow> 'm \<times> a2_stats" where
  "submit M new_v4 now description f = (\<lambda>(m, stats).
     let stats' = register_task stats
     in case mt_add M new_v4 now description (Wrapped f) m of
          (Inl _, m') \<Rightarrow> (m', stats')
        | (Inr _, m') \<Rightarrow> (m', stats'))"

text \<open>Running a wrapped task: the closure (with its effect on queue and counters), then the count.\<close>

definition run_wrapped ::
  "('f \<Rightarrow> 'm \<times> a2_stats \<Rightarrow> 'm \<times> a2_stats) \<Rightarrow> 'f wrapped_task \<Rightarrow> 'm \<times> a2_stats \<Rightarrow> 'm \<times> a2_stats" where
  "run_wrapped exec t s = (case exec (wrapped_fn t) s of (m, stats) \<Rightarrow> (m, mark_completed stats))"

subsection \<open>\<open>TaskQueue\<close> implements \<open>ManageTask\<close>\<close>

locale tracked_queue = array_queue Q items cap
  for Q :: "('q, 't tracked_task) queue_ops" and items :: "'q \<Rightarrow> 't tracked_task list" and cap :: "'q \<Rightarrow> nat"

sublocale tracked_queue \<subseteq> tq: manage_task "task_queue_ops Q" items cap
proof unfold_locales
  fix m u now d and t :: 't
  assume "length (items m) < cap m"
  from push_room [OF this, of "TrackedTask_new u now t d"]
  show "\<exists>m'. mt_add (task_queue_ops Q) u now d t m = (Inr (), m') \<and>
          items m' = items m @ [TrackedTask_new u now t d] \<and> cap m' = cap m"
    by (auto simp: task_queue_ops_def add_task_def Let_def)
next
  fix m and x :: "'t tracked_task" and xs
  assume "items m = x # xs"
  from pop_front [OF this]
  show "\<exists>m'. mt_remove (task_queue_ops Q) m = (Some x, m') \<and> items m' = xs \<and> cap m' = cap m"
    by (auto simp: task_queue_ops_def remove_task_def)
qed (auto simp: task_queue_ops_def add_task_def remove_task_def has_pending_tasks_def
       num_pending_tasks_def TrackedTask_new_def push_full pop_empty len_items)

context tracked_queue
begin

lemma task_queue_contract: "manage_task (task_queue_ops Q) items cap"
  by (rule tq.manage_task_axioms)

end

interpretation list_tasks: tracked_queue list_queue snd fst
  by unfold_locales

subsection \<open>Interleavings of submitting, starting and finishing tasks\<close>

text \<open>
  The task queue and the counters are shared by every server and worker thread. A step is
  one atomic action of some thread: a submission, a scheduler taking a task, a worker
  finishing one. \<open>hs_inflight\<close> counts tasks taken and not finished, \<open>hs_dropped\<close> the
  submissions the queue rejected; no code reads them.
\<close>

record 'm handle_state =
  hs_queue :: 'm
  hs_stats :: a2_stats
  hs_inflight :: nat
  hs_dropped :: nat

definition handle_init :: "'m \<Rightarrow> 'm handle_state" where
  "handle_init m = \<lparr>hs_queue = m, hs_stats = TaskStats_new, hs_inflight = 0, hs_dropped = 0\<rparr>"

inductive handle_step ::
  "('m, 'f wrapped_task) manage_task_ops \<Rightarrow> 'm handle_state \<Rightarrow> 'm handle_state \<Rightarrow> bool"
  for M where
  submit_task: "submit M u now d f (hs_queue s, hs_stats s) = (m', st') \<Longrightarrow>
     handle_step M s (s\<lparr>hs_queue := m', hs_stats := st',
       hs_dropped := hs_dropped s + (case mt_add M u now d (Wrapped f) (hs_queue s) of
                                       (Inl _, _) \<Rightarrow> 1 | (Inr _, _) \<Rightarrow> 0)\<rparr>)"
| start_task: "mt_remove M (hs_queue s) = (Some t, m') \<Longrightarrow>
     handle_step M s (s\<lparr>hs_queue := m', hs_inflight := Suc (hs_inflight s)\<rparr>)"
| finish_task: "hs_inflight s = Suc n \<Longrightarrow>
     handle_step M s (s\<lparr>hs_stats := mark_completed (hs_stats s), hs_inflight := n\<rparr>)"

inductive handle_reach ::
  "('m, 'f wrapped_task) manage_task_ops \<Rightarrow> 'm \<Rightarrow> 'm handle_state \<Rightarrow> bool" for M m where
  init: "handle_reach M m (handle_init m)"
| step: "handle_reach M m s \<Longrightarrow> handle_step M s t \<Longrightarrow> handle_reach M m t"

locale handle_client = manage_task M waiting limit
  for M :: "('m, 'f wrapped_task) manage_task_ops"
    and waiting :: "'m \<Rightarrow> 'f wrapped_task tracked_task list" and limit :: "'m \<Rightarrow> nat"
begin

text \<open>Every registered task is completed, waiting, in flight or dropped, as machine words.\<close>

definition tasks_accounted :: "'m handle_state \<Rightarrow> bool" where
  "tasks_accounted s \<longleftrightarrow> total_tasks (hs_stats s) = completed_tasks (hs_stats s)
     + of_nat (length (waiting (hs_queue s)) + hs_inflight s + hs_dropped s)"

lemma accounted_init: "waiting m = [] \<Longrightarrow> tasks_accounted (handle_init m)"
  by (simp add: tasks_accounted_def handle_init_def TaskStats_new_def)

lemma accounted_step: "handle_step M s t \<Longrightarrow> tasks_accounted s \<Longrightarrow> tasks_accounted t"
proof (induction rule: handle_step.induct)
  case (submit_task u now d f s m' st')
  then show ?case
    by (auto simp: submit_def tasks_accounted_def register_task_def Let_def algebra_simps
        dest!: add_OkD add_ErrD split: prod.splits sum.splits)
next
  case (start_task s t m')
  then show ?case by (auto simp: tasks_accounted_def dest!: remove_SomeD)
next
  case (finish_task s n)
  then show ?case by (simp add: tasks_accounted_def mark_completed_def algebra_simps)
qed

lemma accounted_reach:
  assumes "handle_reach M m s" and "waiting m = []"
  shows "tasks_accounted s"
  using assms by (induction rule: handle_reach.induct) (auto simp: accounted_init intro: accounted_step)

lemma completion_iff:
  assumes reach: "handle_reach M m s" and new: "waiting m = []"
    and bound: "length (waiting (hs_queue s)) + hs_inflight s + hs_dropped s < 2 ^ 64"
  shows "all_tasks_completed (hs_stats s) \<longleftrightarrow>
    0 < completed_tasks (hs_stats s) \<and> waiting (hs_queue s) = [] \<and> hs_inflight s = 0 \<and> hs_dropped s = 0"
proof -
  let ?n = "length (waiting (hs_queue s)) + hs_inflight s + hs_dropped s"
  have "(of_nat ?n :: usize) = 0 \<longleftrightarrow> ?n = 0"
    using bound by (auto simp: word_unat_eq_iff unat_of_nat simp del: of_nat_add)
  with accounted_reach [OF reach new] show ?thesis
    by (auto simp: tasks_accounted_def all_tasks_completed_def simp del: of_nat_add)
qed

end

interpretation list_handles: handle_client "task_queue_ops list_queue" snd fst
  by (intro handle_client.intro list_tasks.task_queue_contract)

subsection \<open>Properties\<close>

text \<open>
  C38: \<open>TaskQueue\<close> implements the contract of \<open>ManageTask\<close>: over any queue with the
  documented laws of \<open>ArrayQueue\<close>, its operations are those of a bounded FIFO of tracked
  tasks, with the closure handed back when the queue is full.
\<close>
theorem task_queue_implements_manage_task:
  assumes "array_queue Q items cap"
  shows "manage_task (task_queue_ops Q) items cap"
  using assms by (intro tracked_queue.task_queue_contract tracked_queue.intro)

theorem task_queue_implements_manage_task_witness:
  "manage_task (task_queue_ops list_queue) snd (fst :: nat \<times> nat tracked_task list \<Rightarrow> nat)"
  by (rule task_queue_implements_manage_task [OF list_queue.array_queue_axioms])


text \<open>One task is submitted to a queue of capacity 1, a second one is rejected, the first runs.\<close>

definition dropped_run :: "(nat \<times> nat wrapped_task tracked_task list) handle_state" where
  "dropped_run = \<lparr>hs_queue = (1, []), hs_stats = \<lparr>total_tasks = 2, completed_tasks = 1\<rparr>,
     hs_inflight = 0, hs_dropped = 1\<rparr>"

lemma dropped_run_reach: "handle_reach (task_queue_ops list_queue) (1, []) dropped_run"
proof -
  let ?M = "task_queue_ops list_queue :: (nat \<times> nat wrapped_task tracked_task list, nat wrapped_task) manage_task_ops"
  let ?t = "TrackedTask_new 7 0 (Wrapped (0::nat)) ''a''"
  let ?s1 = "\<lparr>hs_queue = (1, [?t]), hs_stats = \<lparr>total_tasks = 1, completed_tasks = 0\<rparr>,
     hs_inflight = 0, hs_dropped = 0\<rparr>"
  let ?s2 = "\<lparr>hs_queue = (1, [?t]), hs_stats = \<lparr>total_tasks = 2, completed_tasks = 0\<rparr>,
     hs_inflight = 0, hs_dropped = 1\<rparr>"
  let ?s3 = "\<lparr>hs_queue = (1, []), hs_stats = \<lparr>total_tasks = 2, completed_tasks = 0\<rparr>,
     hs_inflight = 1, hs_dropped = 1\<rparr>"
  note defs = submit_def register_task_def task_queue_ops_def add_task_def remove_task_def
    handle_init_def TaskStats_new_def mark_completed_def dropped_run_def
  have 0: "handle_reach ?M (1, []) (handle_init (1, []))" by (rule handle_reach.init)
  have "handle_step ?M (handle_init (1, [])) ?s1"
    using handle_step.submit_task [of ?M 7 0 "''a''" 0 "handle_init (1, [])"] by (simp add: defs)
  with 0 have 1: "handle_reach ?M (1, []) ?s1" by (rule handle_reach.step)
  have "handle_step ?M ?s1 ?s2"
    using handle_step.submit_task [of ?M 8 0 "''b''" 1 ?s1] by (simp add: defs)
  with 1 have 2: "handle_reach ?M (1, []) ?s2" by (rule handle_reach.step)
  have "handle_step ?M ?s2 ?s3"
    using handle_step.start_task [of ?M ?s2 ?t "(1, [])"] by (simp add: defs)
  with 2 have 3: "handle_reach ?M (1, []) ?s3" by (rule handle_reach.step)
  have "handle_step ?M ?s3 dropped_run"
    using handle_step.finish_task [of ?s3 0 ?M] by (simp add: defs)
  with 3 show ?thesis by (rule handle_reach.step)
qed


end
