(* ===== verification/Server_Error.thy ===== *)
theory Server_Error
  imports Prelude
begin

text \<open>
  \<open>ServerError\<close> of \<open>src/lib.rs\<close>, shared by both schedulers, and its \<open>Display\<close>
  implementation. A \<open>std::io::Error\<close> made by \<open>last_os_error\<close> is its error number; the
  text the operating system has for it is a parameter.
\<close>

datatype ServerError =
    RegistrationFailed i32
  | WorkerRegistrationTimeout usize
  | WorkerRegistrationFailed usize i32
  | InvalidWorkerEvent usize u64
  | SystemError i32
  | ContextSwitchFailed u64 i32 i32
  | QueueFull
  | NoServerFound
  | LockError

fun fmt_error :: "(i32 \<Rightarrow> string) \<Rightarrow> ServerError \<Rightarrow> string" where
  "fmt_error os (RegistrationFailed err) = ''Server registration failed: '' @ dec_int (sint err)"
| "fmt_error os (WorkerRegistrationTimeout worker_id) =
     ''Worker '' @ dec_nat (unat worker_id) @ '' registration timed out''"
| "fmt_error os (WorkerRegistrationFailed worker_id error) =
     ''Worker '' @ dec_nat (unat worker_id) @ '' registration failed: '' @ dec_int (sint error)"
| "fmt_error os (InvalidWorkerEvent worker_id event) =
     ''Invalid event '' @ dec_nat (unat event) @ '' from worker '' @ dec_nat (unat worker_id)"
| "fmt_error os (SystemError e) = ''System error: '' @ os e"
| "fmt_error os (ContextSwitchFailed worker_id ret_code errno) =
     ''Context switch failed for worker '' @ dec_nat (unat (drop_bit 5 worker_id))
     @ '' with return code '' @ dec_int (sint ret_code) @ '' (errno: '' @ dec_int (sint errno) @ '')''"
| "fmt_error os QueueFull = ''Queue is full''"
| "fmt_error os NoServerFound = ''No server found''"
| "fmt_error os LockError = ''Lock error''"

end
