(* ===== verification/A2_Server.thy ===== *)
theory A2_Server
  imports Umcg_Base Containers A2_Tasks Server_Error
begin

text \<open>
  The server of \<open>src/attempt2.rs\<close>: its state and its event handler
  (\<open>Server::handle_event\<close>). A server thread owns the status map of its workers and its
  three worker queues. Everything other threads can change while the server is in the
  kernel is its world: the shared task queue, the buffers of its workers' channels, the
  channel on which events are routed to it, the \<open>done\<close> and \<open>wait\<close> flags,
  and the rest (\<open>wd_ext\<close>).
  The locks of the source guard single statements of one thread each and are not part of
  the state; \<open>depth\<close> and \<open>caller\<close> are only logged.
\<close>

subsection \<open>State\<close>

datatype WorkerStatus = Initializing | Registering | Running | Blocked | Waiting | Completed

datatype 't WorkerTask = Function 't | Shutdown

record ('m, 't, 'c, 'x) world =
  wd_tasks :: 'm
  wd_channels :: "u64 \<Rightarrow> 't WorkerTask mpsc option"
  wd_events :: 'c
  wd_done :: bool
  wd_wait :: bool
  wd_ext :: 'x

text \<open>\<open>WorkerQueues\<close>; \<open>ArrayQueue::new\<close> panics for capacity 0.\<close>

record 'q worker_queues =
  pending :: 'q
  running :: 'q
  preempted :: 'q

definition WorkerQueues_new :: "('q, u64) queue_ops \<Rightarrow> nat \<Rightarrow> 'q worker_queues outcome" where
  "WorkerQueues_new Q capacity =
     (if capacity = 0 then Panics
      else Returns \<lparr>pending = q_new Q capacity, running = q_new Q capacity, preempted = q_new Q capacity\<rparr>)"

record ('q, 'm, 't, 'c, 'x) server =
  srv_id :: usize
  states :: "u64 \<Rightarrow> WorkerStatus option"
  worker_queues :: "'q worker_queues"
  world :: "('m, 't, 'c, 'x) world"

text \<open>
  \<open>set_cpu_affinity\<close>: real-time priority, then the affinity; both results are only logged
  and the function always succeeds.
\<close>

record 'w sched_ops =
  sched_setscheduler :: "'w \<Rightarrow> i32 \<times> 'w"
  sched_setaffinity :: "usize \<Rightarrow> 'w \<Rightarrow> i32 \<times> 'w"

definition a2_set_cpu_affinity :: "'w sched_ops \<Rightarrow> usize \<Rightarrow> 'w \<Rightarrow> (i32 + unit) \<times> 'w" where
  "a2_set_cpu_affinity S cpu_id w =
     (case sched_setscheduler S w of (_, w1) \<Rightarrow>
       (case sched_setaffinity S cpu_id w1 of (result, w2) \<Rightarrow> (Inr (), w2)))"

text \<open>Scheduling calls that change nothing the program can see.\<close>

definition null_sched :: "'w sched_ops" where
  "null_sched = \<lparr>sched_setscheduler = (\<lambda>w. (0, w)), sched_setaffinity = (\<lambda>_ w. (0, w))\<rparr>"

lemma null_sched_affinity [simp]: "a2_set_cpu_affinity null_sched cpu_id w = (Inr (), w)"
  by (simp add: a2_set_cpu_affinity_def null_sched_def)

text \<open>
  The code the server calls that is not part of the sources. \<open>others\<close> is what the other
  threads do to the world between two steps of the server that are not system calls: while
  it sleeps, and between two iterations of its event loop.
\<close>

record ('q, 'm, 't, 'c, 'x) env =
  kernel :: "('m, 't, 'c, 'x) world kernel"
  queue :: "('q, u64) queue_ops"
  manager :: "('m, 't) manage_task_ops"
  consumer :: "('c, u64) chan_ops"
  others :: "('m, 't, 'c, 'x) world \<Rightarrow> ('m, 't, 'c, 'x) world"
  sched :: "('m, 't, 'c, 'x) world sched_ops"

subsection \<open>Auxiliary updates\<close>

definition set_status :: "u64 \<Rightarrow> WorkerStatus \<Rightarrow> ('q, 'm, 't, 'c, 'x) server \<Rightarrow> ('q, 'm, 't, 'c, 'x) server" where
  "set_status worker_id st s = s\<lparr>states := (states s)(worker_id \<mapsto> st)\<rparr>"

definition push_pending ::
  "('q, 'm, 't, 'c, 'x) env \<Rightarrow> u64 \<Rightarrow> ('q, 'm, 't, 'c, 'x) server \<Rightarrow> ('q, 'm, 't, 'c, 'x) server" where
  "push_pending E worker_id s =
     s\<lparr>worker_queues := (worker_queues s)\<lparr>pending := push_or_drop (queue E) worker_id (pending (worker_queues s))\<rparr>\<rparr>"

definition pop_running ::
  "('q, 'm, 't, 'c, 'x) env \<Rightarrow> ('q, 'm, 't, 'c, 'x) server \<Rightarrow> ('q, 'm, 't, 'c, 'x) server" where
  "pop_running E s =
     s\<lparr>worker_queues := (worker_queues s)\<lparr>running := pop_discard (queue E) (running (worker_queues s))\<rparr>\<rparr>"

text \<open>
  The context switch both \<open>handle_event\<close> and \<open>try_schedule_tasks\<close> make: a two-word buffer
  of zeros, the worker's thread id, no timeout.
\<close>

definition ctx_switch ::
  "('q, 'm, 't, 'c, 'x) env \<Rightarrow> u64 \<Rightarrow> ('q, 'm, 't, 'c, 'x) server \<Rightarrow> i64 \<times> u64 list \<times> ('q, 'm, 't, 'c, 'x) server" where
  "ctx_switch E worker_id s =
     (case umcg_syscall (kernel E) 0 Cmd_CtxSwitch (worker_tid worker_id) 0 (Some [0, 0])
             (of_nat EVENT_BUFFER_SIZE) (world s) of
        (switch_ret, errno, buf, w') \<Rightarrow>
          (switch_ret, case buf of Some evs \<Rightarrow> evs | None \<Rightarrow> [], s\<lparr>world := w'\<rparr>))"

text \<open>\<open>events.iter().take_while(|&&e| e != 0)\<close>\<close>

definition live_events :: "u64 list \<Rightarrow> u64 list" where
  "live_events evs = takeWhile (\<lambda>e. e \<noteq> 0) evs"

subsection \<open>\<open>handle_event\<close>\<close>

definition handle_block :: "u64 \<Rightarrow> ('q, 'm, 't, 'c, 'x) server \<Rightarrow> ('q, 'm, 't, 'c, 'x) server" where
  "handle_block worker_id s =
     (case states s worker_id of
        None \<Rightarrow> s
      | Some status \<Rightarrow> if status = Running then set_status worker_id Blocked s else s)"

definition handle_wait ::
  "('q, 'm, 't, 'c, 'x) env \<Rightarrow> u64 \<Rightarrow> ('q, 'm, 't, 'c, 'x) server \<Rightarrow> ('q, 'm, 't, 'c, 'x) server" where
  "handle_wait E worker_id s =
     (case states s worker_id of
        None \<Rightarrow> s
      | Some prev \<Rightarrow>
          push_pending E worker_id
            (if prev = Running then pop_running E (set_status worker_id Waiting s) else s))"

definition blocked_workers :: "(u64 \<Rightarrow> WorkerStatus option) \<Rightarrow> u64 set" where
  "blocked_workers m = {w. m w = Some Blocked}"

lemma ctx_switch_frame:
  "ctx_switch E w s = (r, evs, s') \<Longrightarrow>
     states s' = states s \<and> worker_queues s' = worker_queues s \<and> srv_id s' = srv_id s"
  by (auto simp: ctx_switch_def split: prod.splits)

lemma card_unblock:
  "m w = Some Blocked \<Longrightarrow> card (blocked_workers (m(w \<mapsto> Running))) < card (blocked_workers m)"
  by (rule psubset_card_mono) (auto simp: blocked_workers_def)

text \<open>
  The loop over the events of a context switch ends after its first event. Each recursive
  call is made after one blocked worker was set running, so the recursion ends.
\<close>

function handle_event ::
  "('q, 'm, 't, 'c, 'x) env \<Rightarrow> u64 \<Rightarrow> ('q, 'm, 't, 'c, 'x) server \<Rightarrow>
   (ServerError + unit) \<times> ('q, 'm, 't, 'c, 'x) server" where
  "handle_event E event s =
     (if event_type event = event_u64 Ev_Block then (Inr (), handle_block (event_worker event) s)
      else if event_type event = event_u64 Ev_Wake then
        (case states s (event_worker event) of
           Some Blocked \<Rightarrow>
             (case ctx_switch E (event_worker event) (set_status (event_worker event) Running s) of
                (switch_ret, switch_events, s') \<Rightarrow>
                  (case live_events switch_events of
                     [] \<Rightarrow> (Inr (), s')
                   | e # _ \<Rightarrow> handle_event E e s'))
         | _ \<Rightarrow> (Inr (), s))
      else if event_type event = event_u64 Ev_Wait then (Inr (), handle_wait E (event_worker event) s)
      else (Inl (InvalidWorkerEvent (event_worker event) event), s))"
  by pat_completeness auto
termination
  by (relation "measure (\<lambda>(E, e, s). card (blocked_workers (states s)))")
     (auto simp: set_status_def dest!: ctx_switch_frame [OF sym] card_unblock)

declare handle_event.simps [simp del]

subsection \<open>The handler's equations, one per kind of event\<close>

lemma handle_event_block:
  "event_type e = event_u64 Ev_Block \<Longrightarrow> handle_event E e s = (Inr (), handle_block (event_worker e) s)"
  by (simp add: handle_event.simps [of E e s])

lemma handle_event_wait:
  "event_type e = event_u64 Ev_Wait \<Longrightarrow> handle_event E e s = (Inr (), handle_wait E (event_worker e) s)"
  by (simp add: handle_event.simps [of E e s])

lemma handle_event_wake_idle:
  "event_type e = event_u64 Ev_Wake \<Longrightarrow> states s (event_worker e) \<noteq> Some Blocked \<Longrightarrow>
     handle_event E e s = (Inr (), s)"
  by (simp add: handle_event.simps [of E e s] split: option.splits WorkerStatus.splits)

lemma handle_event_wake_blocked:
  assumes "event_type e = event_u64 Ev_Wake" and "states s (event_worker e) = Some Blocked"
    and "ctx_switch E (event_worker e) (set_status (event_worker e) Running s) = (r, evs, s')"
  shows "handle_event E e s = (case live_events evs of [] \<Rightarrow> (Inr (), s') | e' # _ \<Rightarrow> handle_event E e' s')"
  using assms by (simp add: handle_event.simps [of E e s])

lemma handle_event_other:
  "event_type e \<notin> {event_u64 Ev_Block, event_u64 Ev_Wake, event_u64 Ev_Wait} \<Longrightarrow>
     handle_event E e s = (Inl (InvalidWorkerEvent (event_worker e) e), s)"
  by (simp add: handle_event.simps [of E e s])

lemmas handle_event_eqs = handle_event_block handle_event_wait handle_event_wake_idle handle_event_other

lemma handle_event_cases:
  obtains (block) "event_type e = event_u64 Ev_Block"
    | (wait) "event_type e = event_u64 Ev_Wait"
    | (wake_idle) "event_type e = event_u64 Ev_Wake" "states s (event_worker e) \<noteq> Some Blocked"
    | (wake_blocked) "event_type e = event_u64 Ev_Wake" "states s (event_worker e) = Some Blocked"
    | (other) "event_type e \<notin> {event_u64 Ev_Block, event_u64 Ev_Wake, event_u64 Ev_Wait}"
  by blast

text \<open>
  Reasoning over the chain of context switches: \<open>I\<close> holds of every event handled and the
  state it is handled in, \<open>J\<close> of the result.
\<close>

lemma handle_event_rule:
  assumes start: "I e s"
    and block: "\<And>e s. I e s \<Longrightarrow> event_type e = event_u64 Ev_Block \<Longrightarrow> J (Inr ()) (handle_block (event_worker e) s)"
    and wait: "\<And>e s. I e s \<Longrightarrow> event_type e = event_u64 Ev_Wait \<Longrightarrow> J (Inr ()) (handle_wait E (event_worker e) s)"
    and idle: "\<And>e s. I e s \<Longrightarrow> event_type e = event_u64 Ev_Wake \<Longrightarrow> J (Inr ()) s"
    and bad: "\<And>e s. I e s \<Longrightarrow> event_type e \<notin> {event_u64 Ev_Block, event_u64 Ev_Wake, event_u64 Ev_Wait} \<Longrightarrow>
        J (Inl (InvalidWorkerEvent (event_worker e) e)) s"
    and switch: "\<And>e s r evs s'. I e s \<Longrightarrow> event_type e = event_u64 Ev_Wake \<Longrightarrow>
        states s (event_worker e) = Some Blocked \<Longrightarrow>
        ctx_switch E (event_worker e) (set_status (event_worker e) Running s) = (r, evs, s') \<Longrightarrow>
        (case live_events evs of [] \<Rightarrow> J (Inr ()) s' | e' # _ \<Rightarrow> I e' s')"
  shows "J (fst (handle_event E e s)) (snd (handle_event E e s))"
  using start
proof (induction "card (blocked_workers (states s))" arbitrary: e s rule: less_induct)
  case less
  show ?case
  proof (cases rule: handle_event_cases [where e = e and s = s])
    case wake_blocked
    obtain r evs s' where sw: "ctx_switch E (event_worker e) (set_status (event_worker e) Running s) = (r, evs, s')"
      by (metis prod_cases3)
    have "card (blocked_workers (states s')) < card (blocked_workers (states s))"
      using sw wake_blocked(2) by (auto simp: set_status_def dest!: ctx_switch_frame card_unblock)
    with less.hyps have IH: "I e' s' \<Longrightarrow> J (fst (handle_event E e' s')) (snd (handle_event E e' s'))" for e'
      by blast
    from switch [OF less.prems wake_blocked sw] IH show ?thesis
      by (auto simp: handle_event_wake_blocked [OF wake_blocked sw] split: list.splits)
  qed (use less.prems block wait idle bad in \<open>simp_all add: handle_event_eqs\<close>)
qed

subsection \<open>Status transitions\<close>

text \<open>The only status changes the event handler makes.\<close>

inductive status_step :: "WorkerStatus \<Rightarrow> WorkerStatus \<Rightarrow> bool" where
  blocks: "status_step Running Blocked"
| wakes: "status_step Blocked Running"
| waits: "status_step Running Waiting"

inductive_cases from_waiting: "status_step Waiting st"
inductive_cases from_completed: "status_step Completed st"
inductive_cases from_initializing: "status_step Initializing st"

definition follows :: "(u64 \<Rightarrow> WorkerStatus option) \<Rightarrow> (u64 \<Rightarrow> WorkerStatus option) \<Rightarrow> bool" where
  "follows m m' \<longleftrightarrow> dom m' = dom m \<and>
     (\<forall>w a b. m w = Some a \<longrightarrow> m' w = Some b \<longrightarrow> status_step\<^sup>*\<^sup>* a b)"

lemma follows_refl [simp]: "follows m m"
  by (auto simp: follows_def)

lemma follows_trans:
  assumes "follows m m'" and "follows m' m''"
  shows "follows m m''"
  unfolding follows_def
proof (intro conjI allI impI)
  show "dom m'' = dom m" using assms by (simp add: follows_def)
next
  fix w a c
  assume m: "m w = Some a" and m'': "m'' w = Some c"
  with assms(1) obtain b where m': "m' w = Some b" by (force simp: follows_def)
  with assms m m'' show "status_step\<^sup>*\<^sup>* a c"
    unfolding follows_def by (meson rtranclp_trans)
qed

lemma follows_update: "m w = Some a \<Longrightarrow> status_step a b \<Longrightarrow> follows m (m(w \<mapsto> b))"
  by (auto simp: follows_def)

lemma handle_block_follows: "follows (states s) (states (handle_block w s))"
  by (auto simp: handle_block_def set_status_def split: option.splits
      intro!: follows_update status_step.intros)

lemma handle_wait_follows: "follows (states s) (states (handle_wait E w s))"
  by (auto simp: handle_wait_def push_pending_def pop_running_def set_status_def split: option.splits
      intro!: follows_update status_step.intros)

lemma ctx_switch_follows:
  assumes "states s w = Some Blocked" and "ctx_switch E w (set_status w Running s) = (r, evs, s')"
  shows "follows (states s) (states s')"
proof -
  from assms(1) have "follows (states s) ((states s)(w \<mapsto> Running))"
    by (rule follows_update) (rule status_step.wakes)
  with ctx_switch_frame [OF assms(2)] show ?thesis by (simp add: set_status_def)
qed

lemma handle_event_follows: "follows (states s) (states (snd (handle_event E e s)))"
proof (rule handle_event_rule [where I = "\<lambda>_ t. follows (states s) (states t)"
      and J = "\<lambda>_ t. follows (states s) (states t)"])
  fix e t r evs t'
  assume "follows (states s) (states t)" "states t (event_worker e) = Some Blocked"
    "ctx_switch E (event_worker e) (set_status (event_worker e) Running t) = (r, evs, t')"
  then show "case live_events evs of [] \<Rightarrow> follows (states s) (states t') | e' # _ \<Rightarrow> follows (states s) (states t')"
    by (auto intro: follows_trans ctx_switch_follows split: list.splits)
qed (auto intro: follows_trans [OF _ handle_block_follows] follows_trans [OF _ handle_wait_follows])

subsection \<open>The number of context switches\<close>

lemma ctx_switch_counted:
  assumes "\<And>args buf w. cnt (sr_world (kernel E args buf w)) = Suc (cnt w)"
    and "ctx_switch E w s = (r, evs, s')"
  shows "cnt (world s') = Suc (cnt (world s))"
  using assms by (auto simp: ctx_switch_def umcg_syscall_def Let_def)

lemma handle_block_world [simp]: "world (handle_block w s) = world s"
  by (simp add: handle_block_def set_status_def split: option.splits)

lemma handle_wait_world [simp]: "world (handle_wait E w s) = world s"
  by (simp add: handle_wait_def push_pending_def pop_running_def set_status_def split: option.splits)

lemma handle_event_switch_bound:
  assumes count: "\<And>args buf w. cnt (sr_world (kernel E args buf w)) = Suc (cnt w)"
  shows "cnt (world (snd (handle_event E e s))) \<le> cnt (world s) + card (blocked_workers (states s))"
    (is "_ \<le> ?n")
proof (rule handle_event_rule [where I = "\<lambda>_ t. cnt (world t) + card (blocked_workers (states t)) \<le> ?n"
      and J = "\<lambda>_ t. cnt (world t) \<le> ?n"])
  fix e t r evs t'
  assume le: "cnt (world t) + card (blocked_workers (states t)) \<le> ?n"
    and bl: "states t (event_worker e) = Some Blocked"
    and sw: "ctx_switch E (event_worker e) (set_status (event_worker e) Running t) = (r, evs, t')"
  have "cnt (world t') = Suc (cnt (world t))"
    using ctx_switch_counted [OF count sw] by (simp add: set_status_def)
  moreover have "card (blocked_workers (states t')) < card (blocked_workers (states t))"
    using sw bl by (auto simp: set_status_def dest!: ctx_switch_frame card_unblock)
  ultimately show "case live_events evs of [] \<Rightarrow> cnt (world t') \<le> ?n
      | e' # _ \<Rightarrow> cnt (world t') + card (blocked_workers (states t')) \<le> ?n"
    using le by (simp split: list.splits)
qed auto

end
