(* ===== verification/A2_Schedule.thy ===== *)
theory A2_Schedule
  imports A2_Server
begin

text \<open>
  \<open>Server::try_schedule_tasks\<close> of \<open>src/attempt2.rs\<close>: waiting workers are matched with
  tasks, the task is sent on the worker's channel and the server switches to the worker.
  The invariant of the server's queues, the contract of the kernel's context switch the
  invariant relies on, and when the scheduling loop ends and when it never does.
\<close>

subsection \<open>The scheduling loop\<close>

text \<open>Handling the events of one context switch, up to the first error.\<close>

primrec handle_events ::
  "('q, 'm, 't, 'c, 'x) env \<Rightarrow> u64 list \<Rightarrow> ('q, 'm, 't, 'c, 'x) server \<Rightarrow>
   (ServerError + unit) \<times> ('q, 'm, 't, 'c, 'x) server" where
  "handle_events E [] s = (Inr (), s)"
| "handle_events E (e # es) s =
     (case handle_event E e s of
        (Inl err, s') \<Rightarrow> (Inl err, s')
      | (Inr _, s') \<Rightarrow> handle_events E es s')"

text \<open>
  Marking the worker running and entering it into the running queue; \<open>Inl\<close> is the state
  after a full running queue, where the worker is returned to the pending queue and the
  task is gone.
\<close>

definition start_running ::
  "('q, 'm, 't, 'c, 'x) env \<Rightarrow> u64 \<Rightarrow> ('q, 'm, 't, 'c, 'x) server \<Rightarrow>
   ('q, 'm, 't, 'c, 'x) server + ('q, 'm, 't, 'c, 'x) server" where
  "start_running E worker_id s =
     (case states s worker_id of
        None \<Rightarrow> Inr s
      | Some _ \<Rightarrow>
          (case q_push (queue E) worker_id (running (worker_queues s)) of
             None \<Rightarrow> Inl (push_pending E worker_id (set_status worker_id Waiting (set_status worker_id Running s)))
           | Some running' \<Rightarrow>
               Inr (set_status worker_id Running s
                     \<lparr>worker_queues := (worker_queues s)\<lparr>running := running'\<rparr>\<rparr>)))"

definition send_task ::
  "u64 \<Rightarrow> 't WorkerTask \<Rightarrow> ('q, 'm, 't, 'c, 'x) server \<Rightarrow> ('q, 'm, 't, 'c, 'x) server option" where
  "send_task worker_id task s =
     (case wd_channels (world s) worker_id of
        None \<Rightarrow> None
      | Some tx \<Rightarrow>
          (case mpsc_send task tx of
             None \<Rightarrow> None
           | Some tx' \<Rightarrow> Some (s\<lparr>world := (world s)\<lparr>wd_channels := (wd_channels (world s))(worker_id \<mapsto> tx')\<rparr>\<rparr>)))"

text \<open>
  What is done with a task that was taken for a waiting worker. \<open>Inl\<close>: go on with the
  next pending worker; \<open>Inr\<close>: return.
\<close>

definition dispatch ::
  "('q, 'm, 't, 'c, 'x) env \<Rightarrow> u64 \<Rightarrow> 't tracked_task \<Rightarrow> ('q, 'm, 't, 'c, 'x) server \<Rightarrow>
   ('q, 'm, 't, 'c, 'x) server + (ServerError + unit) \<times> ('q, 'm, 't, 'c, 'x) server" where
  "dispatch E worker_id tracked s =
     (case wd_channels (world s) worker_id of
        None \<Rightarrow> Inl s
      | Some tx \<Rightarrow>
          (case start_running E worker_id s of
             Inl s' \<Rightarrow> Inl s'
           | Inr s1 \<Rightarrow>
               (case send_task worker_id (Function (tt_task tracked)) s1 of
                  None \<Rightarrow> Inl s1
                | Some s2 \<Rightarrow>
                    (case ctx_switch E worker_id s2 of
                       (switch_ret, switch_events, s3) \<Rightarrow>
                         (case handle_events E (live_events switch_events) s3 of
                            (Inl err, s4) \<Rightarrow> Inr (Inl err, s4)
                          | (Inr _, s4) \<Rightarrow> Inl s4)))))"

definition set_pending :: "'q \<Rightarrow> ('q, 'm, 't, 'c, 'x) server \<Rightarrow> ('q, 'm, 't, 'c, 'x) server" where
  "set_pending p s = s\<lparr>worker_queues := (worker_queues s)\<lparr>pending := p\<rparr>\<rparr>"

definition set_tasks :: "'m \<Rightarrow> ('q, 'm, 't, 'c, 'x) server \<Rightarrow> ('q, 'm, 't, 'c, 'x) server" where
  "set_tasks m s = s\<lparr>world := (world s)\<lparr>wd_tasks := m\<rparr>\<rparr>"

definition try_schedule_body ::
  "('q, 'm, 't, 'c, 'x) env \<Rightarrow> ('q, 'm, 't, 'c, 'x) server \<Rightarrow>
   ('q, 'm, 't, 'c, 'x) server + (ServerError + unit) \<times> ('q, 'm, 't, 'c, 'x) server" where
  "try_schedule_body E s0 =
     (case q_pop (queue E) (pending (worker_queues s0)) of
        None \<Rightarrow> Inr (Inr (), s0)
      | Some (worker_id, p) \<Rightarrow>
          let s = set_pending p s0 in
          (case states s worker_id of
             None \<Rightarrow> Inl s
           | Some status \<Rightarrow>
               if status \<noteq> Waiting then Inl (push_pending E worker_id s)
               else (case mt_remove (manager E) (wd_tasks (world s)) of
                       (Some tracked, m) \<Rightarrow> dispatch E worker_id tracked (set_tasks m s)
                     | (None, m) \<Rightarrow> Inr (Inr (), push_pending E worker_id (set_tasks m s)))))"

definition try_schedule_tasks ::
  "('q, 'm, 't, 'c, 'x) env \<Rightarrow> ('q, 'm, 't, 'c, 'x) server \<Rightarrow>
   ((ServerError + unit) \<times> ('q, 'm, 't, 'c, 'x) server) option" where
  "try_schedule_tasks E s = rust_loop (\<lambda>s. Some (try_schedule_body E s)) s"

subsection \<open>The invariant of the server\<close>

text \<open>Workers that hold a task: running it, or blocked in the kernel on its behalf.\<close>

definition busy :: "(u64 \<Rightarrow> WorkerStatus option) \<Rightarrow> u64 set" where
  "busy m = {w. m w = Some Running \<or> m w = Some Blocked}"

text \<open>
  The pending queue holds each of its workers once and only waiting workers; the running
  queue has one entry per busy worker; both queues can hold every worker; every worker
  has a channel, and its id is a shifted thread id.
\<close>

definition server_inv :: "('q \<Rightarrow> u64 list) \<Rightarrow> ('q \<Rightarrow> nat) \<Rightarrow> ('q, 'm, 't, 'c, 'x) server \<Rightarrow> bool" where
  "server_inv items cap s \<longleftrightarrow>
     distinct (items (pending (worker_queues s))) \<and>
     (\<forall>w \<in> set (items (pending (worker_queues s))). states s w = Some Waiting) \<and>
     length (items (running (worker_queues s))) = card (busy (states s)) \<and>
     card (dom (states s)) \<le> cap (pending (worker_queues s)) \<and>
     card (dom (states s)) \<le> cap (running (worker_queues s)) \<and>
     dom (wd_channels (world s)) = dom (states s) \<and>
     dom (states s) \<subseteq> range worker_id_of"

text \<open>A \<open>WAIT\<close> event only comes from a worker the server has as running.\<close>

definition event_ok :: "u64 \<Rightarrow> ('q, 'm, 't, 'c, 'x) server \<Rightarrow> bool" where
  "event_ok e s \<longleftrightarrow> (event_type e = event_u64 Ev_Wait \<longrightarrow> states s (event_worker e) \<in> {None, Some Running})"

lemma busy_update:
  "busy (m(w \<mapsto> st)) = (if st = Running \<or> st = Blocked then insert w (busy m) else busy m - {w})"
  by (auto simp: busy_def)

lemma busy_subset_dom: "busy m \<subseteq> dom m"
  by (auto simp: busy_def)

lemma card_busy_waiting:
  assumes "m w = Some Waiting"
  shows "card (busy m) < card (dom m)"
proof (rule psubset_card_mono)
  from assms have "w \<in> dom m" "w \<notin> busy m" by (auto simp: busy_def)
  with busy_subset_dom show "busy m \<subset> dom m" by blast
qed simp

subsection \<open>The contract of a context switch\<close>

text \<open>
  A switch to thread \<open>t\<close> with a buffer of two events answers with nothing or with one
  event of that very worker: it blocked, waits, exited or was preempted. Theory \<open>A2_Module\<close>
  proves this of the kernel module of the repository. The set of channels of a server is
  fixed when it is created.
\<close>

definition own_events :: "UmcgEventType set" where
  "own_events = {Ev_Block, Ev_Wait, Ev_Exit, Ev_Preempt}"

locale switch_kernel =
  fixes K :: "('m, 't, 'c, 'x) world kernel"
  assumes switch_own: "sr_written (K (switch_args t) (Some [0, 0]) w) = [] \<or>
        (\<exists>ev \<in> own_events. sr_written (K (switch_args t) (Some [0, 0]) w) = [worker_id_of t OR event_u64 ev, 0])"
    and switch_channels: "dom (wd_channels (sr_world (K args buf w))) = dom (wd_channels w)"

locale server_loop = array_queue "queue E" items cap + sk: switch_kernel "kernel E"
  for E :: "('q, 'm, 't, 'c, 'x) env" and items :: "'q \<Rightarrow> u64 list" and cap :: "'q \<Rightarrow> nat"
begin

abbreviation inv :: "('q, 'm, 't, 'c, 'x) server \<Rightarrow> bool" where
  "inv s \<equiv> server_inv items cap s"

lemma ctx_switch_own:
  assumes sw: "ctx_switch E w s = (r, evs, s')" and w: "w = worker_id_of t"
  shows "live_events evs = [] \<or> (\<exists>ev \<in> own_events. live_events evs = [w OR event_u64 ev])"
proof -
  have sz: "scast (of_nat EVENT_BUFFER_SIZE :: i32) = (2 :: u64)" by (simp add: EVENT_BUFFER_SIZE_def)
  from sw sz have evs: "evs = overwrite (sr_written (kernel E (switch_args t) (Some [0, 0]) (world s))) [0, 0]"
    by (simp add: ctx_switch_def umcg_syscall_def switch_args_def Let_def w)
  from sk.switch_own [of t "world s"] show ?thesis
    by (auto simp: evs overwrite_def live_events_def w)
qed

lemma ctx_switch_inv:
  assumes "ctx_switch E w s = (r, evs, s')"
  shows "inv s' \<longleftrightarrow> inv s"
proof -
  from assms have "dom (wd_channels (world s')) = dom (wd_channels (world s))"
    using sk.switch_channels by (simp add: ctx_switch_def umcg_syscall_def Let_def) fastforce
  with ctx_switch_frame [OF assms] show ?thesis by (simp add: server_inv_def)
qed

lemma room_for_pending:
  assumes "inv s" and "w \<in> dom (states s)" and "w \<notin> set (items (pending (worker_queues s)))"
  shows "length (items (pending (worker_queues s))) < cap (pending (worker_queues s))"
proof -
  let ?p = "items (pending (worker_queues s))"
  from assms have "insert w (set ?p) \<subseteq> dom (states s)" by (auto simp: server_inv_def)
  then have "card (insert w (set ?p)) \<le> card (dom (states s))" by (intro card_mono) simp_all
  with assms show ?thesis by (simp add: server_inv_def distinct_card)
qed

lemma room_for_running:
  "inv s \<Longrightarrow> states s w = Some Waiting \<Longrightarrow>
     length (items (running (worker_queues s))) < cap (running (worker_queues s))"
  using card_busy_waiting [of "states s" w] by (simp add: server_inv_def)

end

subsection \<open>Every operation keeps the invariant\<close>

context server_loop
begin

lemma inv_set_busy:
  assumes "inv s" and "w \<in> busy (states s)" and "b \<in> {Running, Blocked}"
  shows "inv (set_status w b s)"
proof -
  from assms have w: "w \<in> dom (states s)" "w \<notin> set (items (pending (worker_queues s)))"
    by (auto simp: server_inv_def busy_def)
  have "busy ((states s)(w \<mapsto> b)) = busy (states s)"
    using assms by (auto simp: busy_update)
  with assms(1) w show ?thesis
    by (auto simp: server_inv_def set_status_def insert_absorb)
qed

lemma inv_handle_block: "inv s \<Longrightarrow> inv (handle_block w s)"
  by (auto simp: handle_block_def busy_def intro!: inv_set_busy split: option.splits)

lemma inv_handle_wait:
  assumes "inv s" and "states s w \<in> {None, Some Running}"
  shows "inv (handle_wait E w s)"
proof (cases "states s w")
  case None
  with assms(1) show ?thesis by (simp add: handle_wait_def)
next
  case (Some a)
  with assms(2) have a: "states s w = Some Running" by simp
  with assms(1) have w: "w \<in> dom (states s)" "w \<notin> set (items (pending (worker_queues s)))" "w \<in> busy (states s)"
    by (auto simp: server_inv_def busy_def)
  from room_for_pending [OF assms(1) w(1,2)] assms(1) w show ?thesis
    by (auto simp: server_inv_def handle_wait_def a push_pending_def pop_running_def set_status_def
        queue_simps busy_update insert_absorb)
qed

lemma own_event_ok:
  assumes "states s w = Some Running" and "w = worker_id_of t"
  shows "event_ok (w OR event_u64 ev) s"
  unfolding event_ok_def assms(2) event_worker_of_word using assms by simp

lemma worker_ids: "inv s \<Longrightarrow> states s w = Some st \<Longrightarrow> \<exists>t. w = worker_id_of t"
  by (auto simp: server_inv_def)

lemma inv_handle_event:
  assumes "inv s" and "event_ok e s"
  shows "inv (snd (handle_event E e s))"
proof (rule handle_event_rule [where I = "\<lambda>e s. inv s \<and> event_ok e s" and J = "\<lambda>_ s. inv s"])
  fix e s r evs s'
  assume I: "inv s \<and> event_ok e s" and b: "states s (event_worker e) = Some Blocked"
    and sw: "ctx_switch E (event_worker e) (set_status (event_worker e) Running s) = (r, evs, s')"
  from I b obtain t where t: "event_worker e = worker_id_of t" using worker_ids by blast
  have "inv (set_status (event_worker e) Running s)"
    using I b by (intro inv_set_busy) (auto simp: busy_def)
  then have inv: "inv s'" using ctx_switch_inv [OF sw] by simp
  have "states s' (event_worker e) = Some Running"
    using ctx_switch_frame [OF sw] by (simp add: set_status_def)
  from own_event_ok [OF this t] inv ctx_switch_own [OF sw t]
  show "case live_events evs of [] \<Rightarrow> inv s' | e' # _ \<Rightarrow> inv s' \<and> event_ok e' s'"
    by auto
qed (use assms in \<open>auto simp: event_ok_def intro: inv_handle_block inv_handle_wait\<close>)

end

context server_loop
begin

lemma inv_handle_own_events:
  assumes "inv s" and "states s w = Some Running" and "w = worker_id_of t"
    and "evs = [] \<or> (\<exists>ev. evs = [w OR event_u64 ev])"
  shows "inv (snd (handle_events E evs s))"
proof -
  have "inv (snd (handle_event E (w OR event_u64 ev) s))" for ev
    by (rule inv_handle_event [OF assms(1) own_event_ok [OF assms(2,3)]])
  with assms show ?thesis by (auto split: prod.splits sum.splits) (metis snd_conv)+
qed

lemma start_running_inv:
  assumes "inv s" and "states s w = Some Waiting" and "w \<notin> set (items (pending (worker_queues s)))"
  obtains s' where "start_running E w s = Inr s'" and "inv s'" and "states s' = (states s)(w \<mapsto> Running)"
    and "world s' = world s" and "pending (worker_queues s') = pending (worker_queues s)"
    and "items (running (worker_queues s')) = items (running (worker_queues s)) @ [w]"
proof -
  from push_room [OF room_for_running [OF assms(1,2)], of w] obtain r where
    r: "q_push (queue E) w (running (worker_queues s)) = Some r" "items r = items (running (worker_queues s)) @ [w]"
      "cap r = cap (running (worker_queues s))" by blast
  let ?s = "set_status w Running s\<lparr>worker_queues := (worker_queues s)\<lparr>running := r\<rparr>\<rparr>"
  have "w \<in> dom (states s)" "w \<notin> busy (states s)" using assms(2) by (auto simp: busy_def)
  with assms r have "inv ?s"
    by (auto simp: server_inv_def set_status_def busy_update insert_absorb)
  moreover from assms(2) r have "start_running E w s = Inr ?s" by (simp add: start_running_def)
  ultimately show thesis using r that by (simp add: set_status_def)
qed

lemma send_task_frame:
  assumes "send_task w x s = Some s'"
  shows "(inv s' \<longleftrightarrow> inv s) \<and> states s' = states s \<and> worker_queues s' = worker_queues s
     \<and> wd_tasks (world s') = wd_tasks (world s)"
proof -
  from assms obtain tx tx' where tx: "wd_channels (world s) w = Some tx"
    and s': "s' = s\<lparr>world := (world s)\<lparr>wd_channels := (wd_channels (world s))(w \<mapsto> tx')\<rparr>\<rparr>"
    by (auto simp: send_task_def split: option.splits)
  from dom_update_known [of "wd_channels (world s)", OF tx, of tx'] show ?thesis
    by (simp add: server_inv_def s' del: dom_fun_upd)
qed

lemma dispatch_inv:
  assumes "inv s" and "states s w = Some Waiting" and "w \<notin> set (items (pending (worker_queues s)))"
  shows "case dispatch E w tracked s of Inl s' \<Rightarrow> inv s' | Inr (r, s') \<Rightarrow> inv s'"
proof -
  from assms(1,2) obtain t where t: "w = worker_id_of t" using worker_ids by blast
  from assms(1,2) obtain tx where tx: "wd_channels (world s) w = Some tx"
    unfolding server_inv_def by blast
  from start_running_inv [OF assms] obtain s1 where s1: "start_running E w s = Inr s1" "inv s1"
    "states s1 = (states s)(w \<mapsto> Running)" by blast
  show ?thesis
  proof (cases "send_task w (Function (tt_task tracked)) s1")
    case None
    with tx s1 show ?thesis by (simp add: dispatch_def)
  next
    case (Some s2)
    obtain r evs s3 where sw: "ctx_switch E w s2 = (r, evs, s3)" by (metis prod_cases3)
    from send_task_frame [OF Some] s1 ctx_switch_inv [OF sw] ctx_switch_frame [OF sw]
    have "inv s3" "states s3 w = Some Running" by simp_all
    from inv_handle_own_events [OF this t, of "live_events evs"] ctx_switch_own [OF sw t]
    have "inv (snd (handle_events E (live_events evs) s3))" by blast
    with tx s1 Some sw show ?thesis by (auto simp: dispatch_def split: prod.splits sum.splits)
  qed
qed

lemma pop_pending_inv:
  assumes "inv s" and "q_pop (queue E) (pending (worker_queues s)) = Some (w, p)"
  shows "inv (set_pending p s) \<and> states s w = Some Waiting \<and> w \<notin> set (items p) \<and>
    length (items p) < cap p"
proof -
  from pop_SomeD [OF assms(2)] have p: "items (pending (worker_queues s)) = w # items p" "cap p = cap (pending (worker_queues s))"
    by simp_all
  with assms(1) have i: "inv (set_pending p s)" by (auto simp: server_inv_def set_pending_def)
  from assms(1) p have w: "states s w = Some Waiting" "w \<notin> set (items p)" by (auto simp: server_inv_def)
  from room_for_pending [OF i, of w] w have "length (items p) < cap p"
    by (auto simp: set_pending_def)
  with i w show ?thesis by simp
qed

lemma set_tasks_inv [simp]: "inv (set_tasks m s) \<longleftrightarrow> inv s"
  by (simp add: server_inv_def set_tasks_def)

lemma push_back_inv:
  assumes "inv s" and "states s w = Some Waiting" and "w \<notin> set (items (pending (worker_queues s)))"
  shows "inv (push_pending E w s)"
  using assms room_for_pending [OF assms(1) _ assms(3)]
  by (auto simp: server_inv_def push_pending_def queue_simps)

lemma try_schedule_body_inv:
  assumes "inv s"
  shows "case try_schedule_body E s of Inl s' \<Rightarrow> inv s' | Inr (r, s') \<Rightarrow> inv s'"
proof (cases "q_pop (queue E) (pending (worker_queues s))")
  case None
  with assms show ?thesis by (simp add: try_schedule_body_def)
next
  case (Some wp)
  obtain w p where wp: "wp = (w, p)" by (cases wp)
  note pop = Some [unfolded wp]
  note i = pop_pending_inv [OF assms pop]
  let ?s = "set_pending p s"
  obtain x m where rm: "mt_remove (manager E) (wd_tasks (world ?s)) = (x, m)" by fastforce
  have st: "inv (set_tasks m ?s)" using i by simp
  have st': "states (set_tasks m ?s) w = Some Waiting" "w \<notin> set (items (pending (worker_queues (set_tasks m ?s))))"
    using i by (simp_all add: set_tasks_def set_pending_def)
  from i have w: "states ?s w = Some Waiting" by (simp add: set_pending_def)
  show ?thesis
    using dispatch_inv [OF st st'] push_back_inv [OF st st'] pop w rm
    by (auto simp: try_schedule_body_def Let_def split: option.splits)
qed

lemma try_schedule_inv:
  assumes "try_schedule_tasks E s = Some (r, s')" and "inv s"
  shows "inv s'"
proof -
  from assms(1) have "rust_loop (\<lambda>s. Some (try_schedule_body E s)) s = Some (r, s')"
    by (simp add: try_schedule_tasks_def)
  then have "case (r, s') of (r, s') \<Rightarrow> inv s'"
  proof (rule rust_loop_invariant [where P = inv and Q = "\<lambda>(r, s'). inv s'"])
    fix s s'
    assume "inv s" and "Some (try_schedule_body E s) = Some (Inl s')"
    with try_schedule_body_inv [of s] show "inv s'" by simp
  next
    fix s and q :: "(ServerError + unit) \<times> ('q, 'm, 't, 'c, 'x) server"
    assume "inv s" and "Some (try_schedule_body E s) = Some (Inr q)"
    with try_schedule_body_inv [of s] show "case q of (r, s') \<Rightarrow> inv s'" by simp
  qed (rule assms(2))
  then show ?thesis by simp
qed

end

lemma dispatch_InrD: "dispatch E w tracked s = Inr q \<Longrightarrow> \<exists>err s'. q = (Inl err, s')"
  by (auto simp: dispatch_def split: option.splits sum.splits prod.splits) (metis prod.exhaust)+

subsection \<open>When the scheduling loop ends\<close>

text \<open>
  With the task queue's contract, and while a context switch brings no new tasks, every
  further iteration has taken a task from the queue.
\<close>

locale sched_loop = server_loop E items cap + mt: manage_task "manager E" waiting limit
  for E :: "('q, 'm, 't, 'c, 'x) env" and items :: "'q \<Rightarrow> u64 list" and cap :: "'q \<Rightarrow> nat"
    and waiting :: "'m \<Rightarrow> 't tracked_task list" and limit :: "'m \<Rightarrow> nat" +
  assumes quiet: "length (waiting (wd_tasks (sr_world (kernel E args buf w)))) \<le> length (waiting (wd_tasks w))"
begin

abbreviation backlog :: "('q, 'm, 't, 'c, 'x) server \<Rightarrow> nat" where
  "backlog s \<equiv> length (waiting (wd_tasks (world s)))"

lemma ctx_switch_backlog: "ctx_switch E w s = (r, evs, s') \<Longrightarrow> backlog s' \<le> backlog s"
  by (auto simp: ctx_switch_def umcg_syscall_def Let_def quiet)

lemma handle_event_backlog: "backlog (snd (handle_event E e s)) \<le> backlog s"
proof (rule handle_event_rule [where I = "\<lambda>_ t. backlog t \<le> backlog s" and J = "\<lambda>_ t. backlog t \<le> backlog s"])
  fix e t r evs t'
  assume "backlog t \<le> backlog s" and "ctx_switch E (event_worker e) (set_status (event_worker e) Running t) = (r, evs, t')"
  then show "case live_events evs of [] \<Rightarrow> backlog t' \<le> backlog s | e' # _ \<Rightarrow> backlog t' \<le> backlog s"
    by (auto simp: set_status_def dest!: ctx_switch_backlog split: list.splits)
qed auto

lemma handle_events_backlog: "backlog (snd (handle_events E es s)) \<le> backlog s"
proof (induction es arbitrary: s)
  case (Cons e es)
  obtain r s' where h: "handle_event E e s = (r, s')" by fastforce
  with handle_event_backlog [of e s] have "backlog s' \<le> backlog s" by simp
  with h Cons [of s'] show ?case by (auto split: sum.splits)
qed simp

lemma dispatch_backlog:
  "dispatch E w tracked s = Inl s' \<Longrightarrow> inv s \<Longrightarrow> states s w = Some Waiting \<Longrightarrow>
     w \<notin> set (items (pending (worker_queues s))) \<Longrightarrow> backlog s' \<le> backlog s"
proof -
  assume d: "dispatch E w tracked s = Inl s'" and a: "inv s" "states s w = Some Waiting"
    "w \<notin> set (items (pending (worker_queues s)))"
  from start_running_inv [OF a] obtain s1 where s1: "start_running E w s = Inr s1" "world s1 = world s" by blast
  show "backlog s' \<le> backlog s"
  proof (cases "send_task w (Function (tt_task tracked)) s1")
    case None
    with d s1 show ?thesis by (auto simp: dispatch_def split: option.splits)
  next
    case (Some s2)
    obtain r evs s3 where sw: "ctx_switch E w s2 = (r, evs, s3)" by (metis prod_cases3)
    have "backlog s3 \<le> backlog s"
      using ctx_switch_backlog [OF sw] send_task_frame [OF Some] s1 by simp
    moreover have "backlog (snd (handle_events E (live_events evs) s3)) \<le> backlog s3"
      by (rule handle_events_backlog)
    ultimately show ?thesis
      using d s1 Some sw by (auto simp: dispatch_def split: option.splits prod.splits sum.splits)
  qed
qed

text \<open>On a normal return no worker is left waiting next to a task.\<close>

definition work_conserving :: "(ServerError + unit) \<times> ('q, 'm, 't, 'c, 'x) server \<Rightarrow> bool" where
  "work_conserving = (\<lambda>(r, s). inv s \<and>
     (r = Inr () \<longrightarrow> items (pending (worker_queues s)) = [] \<or> waiting (wd_tasks (world s)) = []))"

lemma try_schedule_step:
  assumes i: "inv s"
  shows "(\<exists>q. try_schedule_body E s = Inr q \<and> work_conserving q) \<or>
    (\<exists>s'. try_schedule_body E s = Inl s' \<and> inv s' \<and> backlog s' < backlog s)"
proof (cases "q_pop (queue E) (pending (worker_queues s))")
  case None
  then have "items (pending (worker_queues s)) = []" by (simp add: pop_None_iff)
  with None i show ?thesis by (simp add: try_schedule_body_def work_conserving_def)
next
  case (Some wp)
  obtain w p where wp: "wp = (w, p)" by (cases wp)
  note pop = Some [unfolded wp]
  note ip = pop_pending_inv [OF i pop]
  let ?s = "set_pending p s"
  have w: "states ?s w = Some Waiting" "wd_tasks (world ?s) = wd_tasks (world s)"
    using ip by (simp_all add: set_pending_def)
  obtain x m where rm: "mt_remove (manager E) (wd_tasks (world s)) = (x, m)" by fastforce
  let ?t = "set_tasks m ?s"
  have t: "inv ?t" using ip by simp
  have t': "states ?t w = Some Waiting" "w \<notin> set (items (pending (worker_queues ?t)))"
    using ip by (simp_all add: set_tasks_def set_pending_def)
  note body = try_schedule_body_inv [OF i]
  show ?thesis
  proof (cases x)
    case None
    with mt.remove_NoneD rm have "waiting m = []" by fastforce
    with None rm pop w push_back_inv [OF t t'] show ?thesis
      by (simp add: try_schedule_body_def Let_def work_conserving_def push_pending_def set_tasks_def)
  next
    case (Some tracked)
    then have eq: "try_schedule_body E s = dispatch E w tracked ?t"
      using rm pop w by (simp add: try_schedule_body_def Let_def)
    have less: "backlog ?t < backlog s"
      using mt.remove_SomeD rm Some by (fastforce simp: set_tasks_def)
    show ?thesis
    proof (cases "dispatch E w tracked ?t")
      case (Inl s')
      with dispatch_backlog [OF Inl t t'] less body eq show ?thesis by auto
    next
      case (Inr q)
      then have "fst q \<noteq> Inr ()" using dispatch_InrD by fastforce
      with Inr body eq show ?thesis by (auto simp: work_conserving_def)
    qed
  qed
qed

lemma try_schedule_returns:
  assumes "inv s"
  shows "\<exists>q. try_schedule_tasks E s = Some q \<and> work_conserving q"
  unfolding try_schedule_tasks_def
proof (rule rust_loop_terminates [where P = inv and m = backlog])
  fix s
  assume "inv s"
  from try_schedule_step [OF this]
  show "(\<exists>r. Some (try_schedule_body E s) = Some (Inr r) \<and> work_conserving r) \<or>
    (\<exists>s'. Some (try_schedule_body E s) = Some (Inl s') \<and> inv s' \<and> backlog s' < backlog s)" by auto
qed (rule assms)

end

end
