(* ===== verification/A2_Schedule_Props.thy ===== *)
theory A2_Schedule_Props
  imports A2_Schedule
begin

text \<open>
  The properties of the event handler and of the scheduling loop of \<open>src/attempt2.rs\<close>,
  and a concrete environment on which their hypotheses hold: list-based queues and a
  kernel whose context switches answer that the worker waits again.
\<close>

subsection \<open>A concrete environment\<close>

definition wait_kernel :: "('m, 't, 'c, 'x) world kernel" where
  "wait_kernel = (\<lambda>args buf w. \<lparr>sr_ret = 0, sr_errno = 0,
     sr_written = (if a_cmd args = 6 then [worker_id_of (ucast (a_next_tid args)) OR event_u64 Ev_Wait, 0] else []),
     sr_world = w\<rparr>)"

interpretation wait_kernel: switch_kernel wait_kernel
  by unfold_locales (auto simp: wait_kernel_def own_events_def switch_args_def)

type_synonym demo_server =
  "(nat \<times> u64 list, nat \<times> nat tracked_task list, nat, nat \<times> bool \<times> u64 list, unit) server"

definition demo_env ::
  "(nat \<times> u64 list, nat \<times> nat tracked_task list, nat, nat \<times> bool \<times> u64 list, unit) env" where
  "demo_env = \<lparr>kernel = wait_kernel, queue = list_queue, manager = task_queue_ops list_queue, consumer = list_chan,
     others = (\<lambda>w. w), sched = null_sched\<rparr>"

lemma demo_env_simps [simp]:
  "kernel demo_env = wait_kernel" "queue demo_env = list_queue"
  "manager demo_env = task_queue_ops list_queue" "consumer demo_env = list_chan" "others demo_env w = w"
  "sched demo_env = null_sched"
  by (simp_all add: demo_env_def)

lemma demo_queue: "array_queue (queue demo_env) snd fst"
  using list_queue.array_queue_axioms by simp

lemma demo_kernel: "switch_kernel (kernel demo_env)"
  using wait_kernel.switch_kernel_axioms by simp

lemma demo_manager: "manage_task (manager demo_env) snd fst"
  using list_tasks.task_queue_contract by simp

lemma demo_quiet: "length (snd (wd_tasks (sr_world (kernel demo_env args buf w)))) \<le> length (snd (wd_tasks w))"
  by (simp add: wait_kernel_def)

interpretation demo: sched_loop demo_env snd fst snd fst
  using demo_queue demo_kernel demo_manager demo_quiet
  by (intro sched_loop.intro server_loop.intro sched_loop_axioms.intro)

text \<open>One worker, thread 4 (worker id 128), in status \<open>st\<close>; pending workers and tasks as given.\<close>

definition demo_server :: "WorkerStatus \<Rightarrow> u64 list \<Rightarrow> u64 list \<Rightarrow> nat tracked_task list \<Rightarrow> demo_server" where
  "demo_server st ps rs ts = \<lparr>srv_id = 0, states = [128 \<mapsto> st],
     worker_queues = \<lparr>pending = (3, ps), running = (3, rs), preempted = (3, [])\<rparr>,
     world = \<lparr>wd_tasks = (10, ts), wd_channels = [128 \<mapsto> mpsc_channel], wd_events = (10, True, []),
              wd_done = False, wd_wait = False, wd_ext = ()\<rparr>\<rparr>"

lemma worker_id_4: "worker_id_of 4 = 128"
  by (simp add: worker_id_of_def UMCG_WORKER_ID_SHIFT_def)

lemma demo_server_inv: "server_inv snd fst (demo_server Waiting [128] [] ts)"
proof -
  have "(128 :: u64) \<in> range worker_id_of" using worker_id_4 by (metis rangeI)
  then show ?thesis
    by (auto simp: server_inv_def demo_server_def busy_def)
qed

subsection \<open>The event handler\<close>

text \<open>
  Whatever the event, the kernel and the queues, \<open>handle_event\<close> never adds or removes a
  worker, and each worker's status only changes along Running to Blocked, Blocked to
  Running and Running to Waiting. In particular a worker that waits, initializes or has
  completed keeps its status.
\<close>
lemma handle_event_transitions:
  assumes "handle_event E e s = (r, s')"
  shows "dom (states s') = dom (states s) \<and>
    (\<forall>w a b. states s w = Some a \<longrightarrow> states s' w = Some b \<longrightarrow> status_step\<^sup>*\<^sup>* a b)"
  using handle_event_follows [of s E e] assms by (simp add: follows_def)

lemma handle_event_transitions_example:
  "handle_event demo_env (128 OR event_u64 Ev_Block) (demo_server Running [] [128] [])
     = (Inr (), demo_server Blocked [] [128] []) \<and> status_step\<^sup>*\<^sup>* Running Blocked"
proof -
  have "event_type (128 OR event_u64 Ev_Block) = event_u64 Ev_Block" "event_worker (128 OR event_u64 Ev_Block) = 128"
    unfolding worker_id_4 [symmetric] by (rule event_type_of_word, rule event_worker_of_word)
  then have h: "handle_event demo_env (128 OR event_u64 Ev_Block) (demo_server Running [] [128] [])
     = (Inr (), demo_server Blocked [] [128] [])"
    by (simp only: handle_event_block) (simp add: handle_block_def set_status_def demo_server_def)
  from handle_event_transitions [OF h] have "status_step\<^sup>*\<^sup>* Running Blocked"
    by (simp add: demo_server_def)
  with h show ?thesis by simp
qed

text \<open>
  One call of \<open>handle_event\<close>, with all the calls it makes recursively, switches context
  at most once for each worker that was blocked when it started: for any counter of the
  system calls made, the counter grows by at most the number of blocked workers. The
  recursion the source bounds nowhere therefore always ends.
\<close>
lemma handle_event_bounded_switches:
  assumes "\<And>args buf w. cnt (sr_world (kernel E args buf w)) = Suc (cnt w)"
  shows "cnt (world (snd (handle_event E e s))) \<le> cnt (world s) + card {w. states s w = Some Blocked}"
  using handle_event_switch_bound [of cnt E e s, OF assms] by (simp add: blocked_workers_def)

text \<open>A kernel that counts its calls and answers nothing.\<close>

definition counting_env ::
  "(nat \<times> u64 list, nat \<times> nat tracked_task list, nat, nat \<times> bool \<times> u64 list, nat) env" where
  "counting_env = \<lparr>kernel = (\<lambda>args buf w. \<lparr>sr_ret = 0, sr_errno = 0, sr_written = [],
       sr_world = w\<lparr>wd_ext := Suc (wd_ext w)\<rparr>\<rparr>),
     queue = list_queue, manager = task_queue_ops list_queue, consumer = list_chan,
     others = (\<lambda>w. w), sched = null_sched\<rparr>"

definition counting_server ::
  "(nat \<times> u64 list, nat \<times> nat tracked_task list, nat, nat \<times> bool \<times> u64 list, nat) server" where
  "counting_server = \<lparr>srv_id = 0, states = [128 \<mapsto> Blocked],
     worker_queues = \<lparr>pending = (3, []), running = (3, [128]), preempted = (3, [])\<rparr>,
     world = \<lparr>wd_tasks = (10, []), wd_channels = [128 \<mapsto> mpsc_channel], wd_events = (10, True, []),
              wd_done = False, wd_wait = False, wd_ext = 0\<rparr>\<rparr>"

lemma handle_event_bounded_switches_example:
  "wd_ext (world (snd (handle_event counting_env 130 counting_server))) \<le> 1"
proof -
  have "wd_ext (sr_world (kernel counting_env args buf w)) = Suc (wd_ext w)" for args buf w
    by (simp add: counting_env_def)
  from handle_event_bounded_switches [of wd_ext counting_env 130 counting_server, OF this]
  have "wd_ext (world (snd (handle_event counting_env 130 counting_server)))
      \<le> 0 + card {w. states counting_server w = Some Blocked}" by (simp add: counting_server_def)
  moreover have "{w. states counting_server w = Some Blocked} = {128}" by (auto simp: counting_server_def)
  ultimately show ?thesis by simp
qed

text \<open>
  C2: The invariant of the server survives every event: if each \<open>WAIT\<close> event comes from a
  running worker and context switches report on the worker switched to, then after
  \<open>handle_event\<close> the pending queue still lists distinct waiting workers, the running
  queue still has one entry per running or blocked worker, and no push was lost to a
  full queue.
\<close>
theorem handle_event_keeps_invariant:
  assumes "array_queue (queue E) items cap" and "switch_kernel (kernel E)"
    and "server_inv items cap s" and "event_ok e s"
  shows "server_inv items cap (snd (handle_event E e s))"
  using assms by (intro server_loop.inv_handle_event server_loop.intro)

theorem handle_event_keeps_invariant_witness:
  "server_inv snd fst (snd (handle_event demo_env 130 (demo_server Waiting [128] [] [])))"
  by (rule handle_event_keeps_invariant [OF demo_queue demo_kernel demo_server_inv])
     (simp add: event_ok_def event_type_def)

subsection \<open>The scheduling loop\<close>

text \<open>
  C1: Under the same assumptions, and while context switches bring no new tasks,
  \<open>try_schedule_tasks\<close> always returns, keeps the invariant, and is work conserving: when
  it returns without an error, either no worker is left in the pending queue or no task
  is left in the task queue.
\<close>
theorem try_schedule_terminates_work_conserving:
  assumes "array_queue (queue E) items cap" and "switch_kernel (kernel E)"
    and "manage_task (manager E) waiting limit"
    and "\<And>args buf w. length (waiting (wd_tasks (sr_world (kernel E args buf w)))) \<le> length (waiting (wd_tasks w))"
    and "server_inv items cap s"
  shows "\<exists>r s'. try_schedule_tasks E s = Some (r, s') \<and> server_inv items cap s' \<and>
    (r = Inr () \<longrightarrow> items (pending (worker_queues s')) = [] \<or> waiting (wd_tasks (world s')) = [])"
proof -
  have loop: "sched_loop E items cap waiting limit"
    using assms(1-4) by (intro sched_loop.intro server_loop.intro sched_loop_axioms.intro)
  from sched_loop.try_schedule_returns [OF loop assms(5)] show ?thesis
    by (auto simp: sched_loop.work_conserving_def [OF loop])
qed

theorem try_schedule_terminates_work_conserving_witness:
  "\<exists>r s'. try_schedule_tasks demo_env (demo_server Waiting [128] [] [TrackedTask_new 1 0 5 ''a'']) = Some (r, s')
    \<and> server_inv snd fst s' \<and> (r = Inr () \<longrightarrow> snd (pending (worker_queues s')) = [] \<or> snd (wd_tasks (world s')) = [])"
  by (rule try_schedule_terminates_work_conserving
      [OF demo_queue demo_kernel demo_manager demo_quiet demo_server_inv])

text \<open>
  C3: One iteration hands the oldest task to the oldest pending worker. With worker \<open>w\<close> at
  the front of the pending queue and waiting, task \<open>t\<close> at the front of the task queue
  and the receiver of \<open>w\<close>'s channel alive, the context switch to \<open>w\<close> is made from the state
  in which the task is the last message of \<open>w\<close>'s channel and gone from the task queue,
  \<open>w\<close> is running, gone from the pending queue and the last entry of the running queue;
  every other worker, channel and queue entry is unchanged.
\<close>
theorem try_schedule_hands_over_task:
  assumes "array_queue (queue E) items cap" and "manage_task (manager E) waiting limit"
    and "items (pending (worker_queues s)) = w # ps" and "states s w = Some Waiting"
    and "waiting (wd_tasks (world s)) = t # ts"
    and "wd_channels (world s) w = Some tx" and "mpsc_rx tx"
    and "length (items (running (worker_queues s))) < cap (running (worker_queues s))"
  shows "\<exists>s2. states s2 = (states s)(w \<mapsto> Running) \<and>
      items (pending (worker_queues s2)) = ps \<and>
      items (running (worker_queues s2)) = items (running (worker_queues s)) @ [w] \<and>
      waiting (wd_tasks (world s2)) = ts \<and>
      wd_channels (world s2) = (wd_channels (world s))(w \<mapsto> tx\<lparr>mpsc_buf := mpsc_buf tx @ [Function (tt_task t)]\<rparr>) \<and>
      try_schedule_body E s =
        (case ctx_switch E w s2 of (ret, evs, s3) \<Rightarrow>
           (case handle_events E (live_events evs) s3 of
              (Inl err, s4) \<Rightarrow> Inr (Inl err, s4)
            | (Inr _, s4) \<Rightarrow> Inl s4))"
proof -
  from array_queue.pop_front [OF assms(1,3)] obtain p where
    p: "q_pop (queue E) (pending (worker_queues s)) = Some (w, p)" "items p = ps" by blast
  from array_queue.push_room [OF assms(1,8), of w] obtain r where
    r: "q_push (queue E) w (running (worker_queues s)) = Some r" "items r = items (running (worker_queues s)) @ [w]"
    by blast
  from manage_task.remove_front [OF assms(2,5)] obtain m where
    m: "mt_remove (manager E) (wd_tasks (world s)) = (Some t, m)" "waiting m = ts" by blast
  let ?tx = "tx\<lparr>mpsc_buf := mpsc_buf tx @ [Function (tt_task t)]\<rparr>"
  let ?s2 = "s\<lparr>states := (states s)(w \<mapsto> Running),
    worker_queues := (worker_queues s)\<lparr>pending := p, running := r\<rparr>,
    world := (world s)\<lparr>wd_tasks := m, wd_channels := (wd_channels (world s))(w \<mapsto> ?tx)\<rparr>\<rparr>"
  have "try_schedule_body E s =
        (case ctx_switch E w ?s2 of (ret, evs, s3) \<Rightarrow>
           (case handle_events E (live_events evs) s3 of
              (Inl err, s4) \<Rightarrow> Inr (Inl err, s4)
            | (Inr _, s4) \<Rightarrow> Inl s4))"
    using p r m assms(4,6,7)
    by (simp add: try_schedule_body_def dispatch_def start_running_def send_task_def mpsc_send_def
        set_pending_def set_tasks_def set_status_def Let_def)
  with p r m show ?thesis by (intro exI [of _ ?s2]) simp
qed

theorem try_schedule_hands_over_task_witness:
  "\<exists>s2. states s2 = [128 \<mapsto> Running] \<and> snd (running (worker_queues s2)) = [128] \<and>
     wd_channels (world s2) = [128 \<mapsto> mpsc_channel\<lparr>mpsc_buf := [Function 5]\<rparr>] \<and>
     try_schedule_body demo_env (demo_server Waiting [128] [] [TrackedTask_new 1 0 5 ''a'']) =
        (case ctx_switch demo_env 128 s2 of (ret, evs, s3) \<Rightarrow>
           (case handle_events demo_env (live_events evs) s3 of
              (Inl err, s4) \<Rightarrow> Inr (Inl err, s4)
            | (Inr _, s4) \<Rightarrow> Inl s4))"
proof -
  let ?s = "demo_server Waiting [128] [] [TrackedTask_new 1 0 5 ''a'']"
  have h: "snd (pending (worker_queues ?s)) = 128 # []" "states ?s 128 = Some Waiting"
    "snd (wd_tasks (world ?s)) = TrackedTask_new 1 0 5 ''a'' # []"
    "wd_channels (world ?s) 128 = Some mpsc_channel"
    "mpsc_rx (mpsc_channel :: nat WorkerTask mpsc)"
    "length (snd (running (worker_queues ?s))) < fst (running (worker_queues ?s))"
    by (simp_all add: demo_server_def mpsc_channel_def)
  show ?thesis
    using try_schedule_hands_over_task [OF demo_queue demo_manager h]
    by (auto simp: demo_server_def TrackedTask_new_def mpsc_channel_def)
qed

text \<open>
  C14: If the pending queue is not empty and every worker in it is known but not waiting,
  \<open>try_schedule_tasks\<close> never returns: each such worker is taken from the queue and put
  back, and nothing in the loop can change its status.
\<close>
theorem try_schedule_livelock:
  fixes E :: "('q, 'm, 't, 'c, 'x) env" and s :: "('q, 'm, 't, 'c, 'x) server"
  assumes "array_queue (queue E) items cap"
    and "items (pending (worker_queues s)) \<noteq> []"
    and "length (items (pending (worker_queues s))) \<le> cap (pending (worker_queues s))"
    and "\<And>w. w \<in> set (items (pending (worker_queues s))) \<Longrightarrow> \<exists>st. states s w = Some st \<and> st \<noteq> Waiting"
  shows "try_schedule_tasks E s = None"
  unfolding try_schedule_tasks_def
proof (rule rust_loop_diverges [where P = "\<lambda>s. items (pending (worker_queues s)) \<noteq> [] \<and>
      length (items (pending (worker_queues s))) \<le> cap (pending (worker_queues s)) \<and>
      (\<forall>w \<in> set (items (pending (worker_queues s))). \<exists>st. states s w = Some st \<and> st \<noteq> Waiting)"])
  fix s :: "('q, 'm, 't, 'c, 'x) server"
  assume P: "items (pending (worker_queues s)) \<noteq> [] \<and>
      length (items (pending (worker_queues s))) \<le> cap (pending (worker_queues s)) \<and>
      (\<forall>w \<in> set (items (pending (worker_queues s))). \<exists>st. states s w = Some st \<and> st \<noteq> Waiting)"
  then obtain w ps where wps: "items (pending (worker_queues s)) = w # ps" by (cases "items (pending (worker_queues s))") auto
  from array_queue.pop_front [OF assms(1) wps] obtain p where
    p: "q_pop (queue E) (pending (worker_queues s)) = Some (w, p)" "items p = ps" "cap p = cap (pending (worker_queues s))" by blast
  from P wps obtain st where st: "states s w = Some st" "st \<noteq> Waiting" by auto
  let ?s = "push_pending E w (set_pending p s)"
  have "try_schedule_body E s = Inl ?s"
    using p st by (simp add: try_schedule_body_def set_pending_def Let_def)
  moreover have "items (pending (worker_queues ?s)) = ps @ [w]" "cap (pending (worker_queues ?s)) = cap p"
    "states ?s = states s"
    using P p wps by (auto simp: push_pending_def set_pending_def array_queue.queue_simps [OF assms(1)])
  ultimately show "\<exists>s'. Some (try_schedule_body E s) = Some (Inl s') \<and> items (pending (worker_queues s')) \<noteq> [] \<and>
      length (items (pending (worker_queues s'))) \<le> cap (pending (worker_queues s')) \<and>
      (\<forall>w \<in> set (items (pending (worker_queues s'))). \<exists>st. states s' w = Some st \<and> st \<noteq> Waiting)"
    using P p wps by auto
qed (use assms in blast)

text \<open>The state a \<open>WAIT\<close> event of a blocked worker leads to.\<close>

lemma wait_of_blocked:
  "snd (handle_event demo_env (128 OR event_u64 Ev_Wait) (demo_server Blocked [] [128] ts)) = demo_server Blocked [128] [128] ts"
proof -
  have "event_type (128 OR event_u64 Ev_Wait) = event_u64 Ev_Wait" "event_worker (128 OR event_u64 Ev_Wait) = 128"
    unfolding worker_id_4 [symmetric] by (rule event_type_of_word, rule event_worker_of_word)
  then show ?thesis
    by (simp only: handle_event_wait) (simp add: handle_wait_def push_pending_def push_or_drop_def demo_server_def)
qed

theorem try_schedule_livelock_witness:
  "try_schedule_tasks demo_env
     (snd (handle_event demo_env (128 OR event_u64 Ev_Wait) (demo_server Blocked [] [128] []))) = None"
  unfolding wait_of_blocked
  by (rule try_schedule_livelock [OF demo_queue]) (auto simp: demo_server_def)

end
