(* ===== verification/A2_Event_Loop.thy ===== *)
theory A2_Event_Loop
  imports A2_Schedule_Props
begin

text \<open>
  \<open>Server::run_event_loop\<close> of \<open>src/attempt2.rs\<close>: until \<open>done\<close> is set, schedule tasks and
  then handle every event the routing thread has sent to this server. The readings of the
  clock decide only what is logged.
\<close>

subsection \<open>The loop\<close>

definition set_events :: "'c \<Rightarrow> ('q, 'm, 't, 'c, 'x) server \<Rightarrow> ('q, 'm, 't, 'c, 'x) server" where
  "set_events c s = s\<lparr>world := (world s)\<lparr>wd_events := c\<rparr>\<rparr>"

text \<open>
  \<open>while let Ok(event) = event_consumer.try_recv()\<close>: an event of a worker without a channel
  is skipped, an error of the handler is only logged.
\<close>

definition consume_body ::
  "('q, 'm, 't, 'c, 'x) env \<Rightarrow> ('q, 'm, 't, 'c, 'x) server \<Rightarrow>
   ('q, 'm, 't, 'c, 'x) server + ('q, 'm, 't, 'c, 'x) server" where
  "consume_body E s =
     (case ch_try_recv (consumer E) (wd_events (world s)) of
        None \<Rightarrow> Inr s
      | Some (event, c) \<Rightarrow>
          let s1 = set_events c s in
          if wd_channels (world s1) (event_worker event) = None then Inl s1
          else Inl (snd (handle_event E event s1)))"

definition consume_events ::
  "('q, 'm, 't, 'c, 'x) env \<Rightarrow> ('q, 'm, 't, 'c, 'x) server \<Rightarrow> ('q, 'm, 't, 'c, 'x) server option" where
  "consume_events E s = rust_loop (\<lambda>s. Some (consume_body E s)) s"

definition let_others_run ::
  "('q, 'm, 't, 'c, 'x) env \<Rightarrow> ('q, 'm, 't, 'c, 'x) server \<Rightarrow> ('q, 'm, 't, 'c, 'x) server" where
  "let_others_run E s = s\<lparr>world := others E (world s)\<rparr>"

definition DEBUG_HASH :: u64 where "DEBUG_HASH = 100"

definition event_loop_body ::
  "('q, 'm, 't, 'c, 'x) env \<Rightarrow> u64 \<times> ('q, 'm, 't, 'c, 'x) server \<Rightarrow>
   ((u64 \<times> ('q, 'm, 't, 'c, 'x) server) + ((ServerError + unit) \<times> ('q, 'm, 't, 'c, 'x) server) outcome) option" where
  "event_loop_body E = (\<lambda>(debug_counter, s).
     if wd_done (world s) then Some (Inr (Returns (Inr (), s)))
     else case checked_add debug_counter 1 of
         None \<Rightarrow> Some (Inr Panics)
       | Some c \<Rightarrow>
           (case try_schedule_tasks E s of
              None \<Rightarrow> None
            | Some (_, s1) \<Rightarrow>
                (case consume_events E s1 of
                   None \<Rightarrow> None
                 | Some s2 \<Rightarrow> Some (Inl (if c mod DEBUG_HASH = 0 then 0 else c, let_others_run E s2)))))"

definition run_event_loop ::
  "('q, 'm, 't, 'c, 'x) env \<Rightarrow> ('q, 'm, 't, 'c, 'x) server \<Rightarrow>
   ((ServerError + unit) \<times> ('q, 'm, 't, 'c, 'x) server) outcome option" where
  "run_event_loop E s = rust_loop (event_loop_body E) (0, s)"

lemma debug_counter_step:
  assumes "c < DEBUG_HASH"
  shows "checked_add c 1 = Some (c + 1)" and "(if (c + 1) mod DEBUG_HASH = 0 then 0 else c + 1) < DEBUG_HASH"
proof -
  from assms have c: "unat c < 100" by (simp add: DEBUG_HASH_def word_less_nat_alt)
  then show "checked_add c 1 = Some (c + 1)" by (simp add: checked_add_def)
  have "unat (c + 1) = unat c + 1" using c by (simp add: unat_word_ariths)
  then show "(if (c + 1) mod DEBUG_HASH = 0 then 0 else c + 1) < DEBUG_HASH"
    using c by (cases "unat c = 99") (auto simp: DEBUG_HASH_def word_less_nat_alt unat_mod word_unat_eq_iff)
qed

subsection \<open>What the loop relies on\<close>

text \<open>
  A \<open>WAIT\<close> is reported to the server that switched to the worker, so the events routed
  from elsewhere are never \<open>WAIT\<close> events.
\<close>

definition no_wait :: "u64 list \<Rightarrow> bool" where
  "no_wait es \<longleftrightarrow> (\<forall>e \<in> set es. event_type e \<noteq> event_u64 Ev_Wait)"

text \<open>
  Neither a system call nor the other threads between two iterations change the set of
  the server's channels or route \<open>WAIT\<close> events to it; a system call delivers no new
  routed event by itself.
\<close>

locale event_loop = sched_loop E items cap waiting limit + ch: bounded_channel "consumer E" msgs room receiver
  for E :: "('q, 'm, 't, 'c, 'x) env" and items :: "'q \<Rightarrow> u64 list" and cap :: "'q \<Rightarrow> nat"
    and waiting :: "'m \<Rightarrow> 't tracked_task list" and limit :: "'m \<Rightarrow> nat"
    and msgs :: "'c \<Rightarrow> u64 list" and room :: "'c \<Rightarrow> nat" and receiver :: "'c \<Rightarrow> bool" +
  assumes kernel_no_wait: "no_wait (msgs (wd_events w)) \<Longrightarrow> no_wait (msgs (wd_events (sr_world (kernel E args buf w))))"
    and kernel_quiet: "length (msgs (wd_events (sr_world (kernel E args buf w)))) \<le> length (msgs (wd_events w))"
    and others_no_wait: "no_wait (msgs (wd_events w)) \<Longrightarrow> no_wait (msgs (wd_events (others E w)))"
    and others_channels: "dom (wd_channels (others E w)) = dom (wd_channels w)"
begin

abbreviation routed :: "('q, 'm, 't, 'c, 'x) server \<Rightarrow> u64 list" where
  "routed s \<equiv> msgs (wd_events (world s))"

text \<open>What a step keeps of the routed events.\<close>

definition routed_le :: "('q, 'm, 't, 'c, 'x) server \<Rightarrow> ('q, 'm, 't, 'c, 'x) server \<Rightarrow> bool" where
  "routed_le s s' \<longleftrightarrow> length (routed s') \<le> length (routed s) \<and> (no_wait (routed s) \<longrightarrow> no_wait (routed s'))"

lemma routed_le_refl: "wd_events (world s') = wd_events (world s) \<Longrightarrow> routed_le s s'"
  by (simp add: routed_le_def)

lemma routed_le_trans: "routed_le s s' \<Longrightarrow> routed_le s' s'' \<Longrightarrow> routed_le s s''"
  by (auto simp: routed_le_def)

lemma ctx_switch_routed:
  assumes "ctx_switch E w s = (r, evs, s')"
  shows "routed_le s s'"
  using assms kernel_no_wait kernel_quiet
  by (auto simp: ctx_switch_def umcg_syscall_def Let_def routed_le_def)

lemma handle_event_routed: "routed_le s (snd (handle_event E e s))"
proof (rule handle_event_rule [where I = "\<lambda>_. routed_le s" and J = "\<lambda>_. routed_le s"])
  fix e t r evs t'
  assume "routed_le s t" and "ctx_switch E (event_worker e) (set_status (event_worker e) Running t) = (r, evs, t')"
  then have "routed_le s t'"
    by (auto simp: set_status_def routed_le_def dest!: ctx_switch_routed)
  then show "case live_events evs of [] \<Rightarrow> routed_le s t' | e' # _ \<Rightarrow> routed_le s t'"
    by (simp split: list.splits)
qed (auto simp: routed_le_def)

lemma handle_events_routed: "routed_le s (snd (handle_events E es s))"
proof (induction es arbitrary: s)
  case Nil
  then show ?case by (simp add: routed_le_refl)
next
  case (Cons e es)
  obtain r s' where h: "handle_event E e s = (r, s')" by fastforce
  with handle_event_routed [of s e] have "routed_le s s'" by simp
  with h Cons [of s'] show ?case by (auto split: sum.splits intro: routed_le_trans)
qed

end

context event_loop
begin

lemma start_running_events:
  "(case start_running E w s of Inl s' \<Rightarrow> wd_events (world s') | Inr s' \<Rightarrow> wd_events (world s')) = wd_events (world s)"
  by (auto simp: start_running_def push_pending_def set_status_def split: option.splits)

lemma dispatch_routed:
  "case dispatch E w tracked s of Inl s' \<Rightarrow> routed_le s s' | Inr (r, s') \<Rightarrow> routed_le s s'"
proof (cases "start_running E w s")
  case (Inl s1)
  with start_running_events [of w s] show ?thesis
    by (auto simp: dispatch_def intro: routed_le_refl split: option.splits)
next
  case (Inr s1)
  then have s1: "wd_events (world s1) = wd_events (world s)" using start_running_events [of w s] by simp
  show ?thesis
  proof (cases "send_task w (Function (tt_task tracked)) s1")
    case None
    with Inr s1 show ?thesis by (auto simp: dispatch_def intro: routed_le_refl split: option.splits)
  next
    case (Some s2)
    then have s2: "routed_le s s2"
      using s1 by (auto simp: send_task_def intro!: routed_le_refl split: option.splits)
    obtain r evs s3 where sw: "ctx_switch E w s2 = (r, evs, s3)" by (metis prod_cases3)
    have "routed_le s (snd (handle_events E (live_events evs) s3))"
      using s2 ctx_switch_routed [OF sw] handle_events_routed routed_le_trans by blast
    with Inr Some sw show ?thesis
      by (auto simp: dispatch_def intro: routed_le_refl split: option.splits prod.splits sum.splits)
  qed
qed

lemma try_schedule_body_routed:
  "case try_schedule_body E s of Inl s' \<Rightarrow> routed_le s s' | Inr (r, s') \<Rightarrow> routed_le s s'"
proof -
  have d: "case dispatch E w x (set_tasks m (set_pending p s)) of
      Inl s' \<Rightarrow> routed_le s s' | Inr (r, s') \<Rightarrow> routed_le s s'" for w x m p
    using dispatch_routed [where w = w and tracked = x and s = "set_tasks m (set_pending p s)"]
    by (auto simp: routed_le_def set_tasks_def set_pending_def split: sum.splits)
  have upd: "routed_le s (set_pending p s)" "routed_le s (push_pending E w (set_pending p s))"
    "routed_le s (push_pending E w (set_tasks m (set_pending p s)))" for w m p
    by (simp_all add: routed_le_refl push_pending_def set_pending_def set_tasks_def)
  show ?thesis
    by (auto simp: try_schedule_body_def Let_def routed_le_refl upd d split: option.splits prod.splits)
qed

lemma try_schedule_routed:
  assumes "try_schedule_tasks E s = Some (r, s')"
  shows "routed_le s s'"
proof -
  from assms have "rust_loop (\<lambda>s. Some (try_schedule_body E s)) s = Some (r, s')"
    by (simp add: try_schedule_tasks_def)
  then have "case (r, s') of (r, s') \<Rightarrow> routed_le s s'"
  proof (rule rust_loop_invariant [where P = "routed_le s" and Q = "\<lambda>(r, s'). routed_le s s'"])
    fix t t'
    assume "routed_le s t" and "Some (try_schedule_body E t) = Some (Inl t')"
    with try_schedule_body_routed [of t] show "routed_le s t'" by (auto intro: routed_le_trans)
  next
    fix t and q :: "(ServerError + unit) \<times> ('q, 'm, 't, 'c, 'x) server"
    assume "routed_le s t" and "Some (try_schedule_body E t) = Some (Inr q)"
    with try_schedule_body_routed [of t] show "case q of (r, s') \<Rightarrow> routed_le s s'"
      by (auto intro: routed_le_trans)
  qed (simp add: routed_le_refl)
  then show ?thesis by simp
qed

end

subsection \<open>Every iteration returns and keeps the invariant\<close>

context event_loop
begin

definition loop_inv :: "('q, 'm, 't, 'c, 'x) server \<Rightarrow> bool" where
  "loop_inv s \<longleftrightarrow> inv s \<and> no_wait (routed s)"

lemma set_events_inv [simp]: "inv (set_events c s) \<longleftrightarrow> inv s"
  by (simp add: server_inv_def set_events_def)

lemma consume_step:
  assumes "loop_inv s"
  shows "(\<exists>s'. consume_body E s = Inr s' \<and> loop_inv s' \<and> routed s' = []) \<or>
    (\<exists>s'. consume_body E s = Inl s' \<and> loop_inv s' \<and> length (routed s') < length (routed s))"
proof (cases "ch_try_recv (consumer E) (wd_events (world s))")
  case None
  moreover from None have "routed s = []" by (simp add: ch.recv_None_iff)
  ultimately show ?thesis using assms by (simp add: consume_body_def)
next
  case (Some ec)
  obtain e c where ec: "ec = (e, c)" by (cases ec)
  let ?s = "set_events c s"
  from ch.recv_SomeD [OF Some [unfolded ec]] have m: "routed s = e # msgs c" by simp
  with assms have i: "inv ?s" "no_wait (routed ?s)" "length (routed ?s) < length (routed s)"
    and e: "event_ok e ?s"
    by (simp_all add: loop_inv_def no_wait_def set_events_def event_ok_def server_inv_def)
  have "loop_inv (snd (handle_event E e ?s)) \<and> length (routed (snd (handle_event E e ?s))) < length (routed s)"
    using inv_handle_event [OF i(1) e] handle_event_routed [of ?s e] i
    by (auto simp: loop_inv_def routed_le_def)
  with Some ec i show ?thesis by (simp add: consume_body_def Let_def loop_inv_def)
qed

lemma consume_returns:
  assumes "loop_inv s"
  shows "\<exists>s'. consume_events E s = Some s' \<and> loop_inv s' \<and> routed s' = []"
  unfolding consume_events_def
proof (rule rust_loop_terminates [where P = loop_inv and m = "\<lambda>s. length (routed s)"])
  fix s
  assume "loop_inv s"
  from consume_step [OF this] show "(\<exists>r. Some (consume_body E s) = Some (Inr r) \<and> loop_inv r \<and> routed r = []) \<or>
    (\<exists>s'. Some (consume_body E s) = Some (Inl s') \<and> loop_inv s' \<and> length (routed s') < length (routed s))" by auto
qed (rule assms)

lemma let_others_run_inv: "loop_inv s \<Longrightarrow> loop_inv (let_others_run E s)"
  using others_no_wait others_channels by (simp add: loop_inv_def let_others_run_def server_inv_def)

lemma iteration_returns:
  assumes "loop_inv s" and "c < DEBUG_HASH" and "\<not> wd_done (world s)"
  obtains c' s' where "event_loop_body E (c, s) = Some (Inl (c', let_others_run E s'))"
    and "c' < DEBUG_HASH" and "loop_inv s'" and "routed s' = []"
proof -
  from assms(1) have i: "inv s" by (simp add: loop_inv_def)
  from try_schedule_returns [OF i] obtain r s1 where
    s1: "try_schedule_tasks E s = Some (r, s1)" "inv s1" by (auto simp: work_conserving_def)
  with try_schedule_routed [OF s1(1)] assms(1) have "loop_inv s1"
    by (auto simp: loop_inv_def routed_le_def)
  from consume_returns [OF this] obtain s2 where s2: "consume_events E s1 = Some s2" "loop_inv s2" "routed s2 = []"
    by blast
  with s1 s2 debug_counter_step [OF assms(2)] assms(3) show thesis by (intro that) (auto simp: event_loop_body_def)
qed

lemma loop_iter_inv:
  assumes "loop_iter (event_loop_body E) n (0, s) = Some (c, s')" and "loop_inv s"
  shows "loop_inv s' \<and> c < DEBUG_HASH"
  using assms(1)
proof (induction n arbitrary: c s')
  case 0
  with assms(2) show ?case by (simp add: DEBUG_HASH_def)
next
  case (Suc n)
  then obtain c1 s1 where it: "loop_iter (event_loop_body E) n (0, s) = Some (c1, s1)"
    and st: "event_loop_body E (c1, s1) = Some (Inl (c, s'))"
    by (auto simp: loop_iter_snoc simp del: loop_iter.simps split: option.splits sum.splits)
  from Suc.IH [OF it] have i: "loop_inv s1" "c1 < DEBUG_HASH" by simp_all
  from st have "\<not> wd_done (world s1)" by (auto simp: event_loop_body_def)
  from iteration_returns [OF i this] st show ?case by (metis let_others_run_inv option.inject sum.inject(1) prod.inject)
qed

lemma loop_progress:
  assumes "loop_inv s"
  shows "(\<exists>c s'. loop_iter (event_loop_body E) n (0, s) = Some (c, s') \<and> inv s') \<or>
    (\<exists>s'. run_event_loop E s = Some (Returns (Inr (), s')) \<and> wd_done (world s') \<and> inv s')"
proof (induction n)
  case 0
  with assms show ?case by (simp add: loop_inv_def)
next
  case (Suc n)
  show ?case
  proof (cases "loop_iter (event_loop_body E) n (0, s)")
    case None
    with Suc show ?thesis by simp
  next
    case (Some cs)
    obtain c s1 where cs: "cs = (c, s1)" by (cases cs)
    from loop_iter_inv [OF Some [unfolded cs] assms] have i: "loop_inv s1" "c < DEBUG_HASH" by simp_all
    show ?thesis
    proof (cases "wd_done (world s1)")
      case True
      then have "run_event_loop E s = Some (Returns (Inr (), s1))"
        using rust_loop_iter [OF Some [unfolded cs]] by (simp add: run_event_loop_def event_loop_body_def loop_simps)
      with True i show ?thesis by (auto simp: loop_inv_def)
    next
      case False
      from iteration_returns [OF i False] obtain c' s' where
        b: "event_loop_body E (c, s1) = Some (Inl (c', let_others_run E s'))" "loop_inv s'" by metis
      with let_others_run_inv Some cs show ?thesis
        by (auto simp: loop_iter_snoc loop_inv_def simp del: loop_iter.simps)
    qed
  qed
qed

end

lemma demo_consumer:
  "bounded_channel (consumer demo_env) (\<lambda>(n, alive, xs). xs) (\<lambda>(n, alive, xs). n) (\<lambda>(n, alive, xs). alive)"
  using list_chan.bounded_channel_axioms by simp

lemma demo_event_loop:
  "event_loop demo_env snd fst snd fst (\<lambda>(n, alive, xs). xs) (\<lambda>(n, alive, xs). n) (\<lambda>(n, alive, xs). alive)"
  using demo.sched_loop_axioms demo_consumer
  by (rule event_loop.intro) (simp add: event_loop_axioms_def wait_kernel_def)

interpretation demo_loop: event_loop demo_env snd fst snd fst
    "\<lambda>(n, alive, xs). xs" "\<lambda>(n, alive, xs). n" "\<lambda>(n, alive, xs). alive"
  by (rule demo_event_loop)

subsection \<open>Properties\<close>

text \<open>
  C5: The event loop is never stuck and never panics. From a state with the server's
  invariant, and for every \<open>n\<close>, the loop has either completed \<open>n\<close> iterations in a state
  with the invariant, or it has returned \<open>Ok\<close> because \<open>done\<close> was set, again in a state
  with the invariant. The hypotheses are the contracts of the containers and of the
  context switch, that system calls add neither tasks nor routed events by themselves,
  and that no \<open>WAIT\<close> event is routed from elsewhere.
\<close>
theorem event_loop_runs_safely:
  assumes "event_loop E items cap waiting limit msgs room receiver"
    and "server_inv items cap s" and "no_wait (msgs (wd_events (world s)))"
  shows "(\<exists>c s'. loop_iter (event_loop_body E) n (0, s) = Some (c, s') \<and> server_inv items cap s') \<or>
    (\<exists>s'. run_event_loop E s = Some (Returns (Inr (), s')) \<and> wd_done (world s') \<and> server_inv items cap s')"
  using event_loop.loop_progress [OF assms(1)] assms(2,3)
  by (simp add: event_loop.loop_inv_def [OF assms(1)])

theorem event_loop_runs_safely_witness:
  "(\<exists>c s'. loop_iter (event_loop_body demo_env) 5 (0, demo_server Waiting [128] [] []) = Some (c, s')
      \<and> server_inv snd fst s') \<or>
    (\<exists>s'. run_event_loop demo_env (demo_server Waiting [128] [] []) = Some (Returns (Inr (), s'))
      \<and> wd_done (world s') \<and> server_inv snd fst s')"
  by (rule event_loop_runs_safely [OF demo_event_loop demo_server_inv])
     (simp add: demo_server_def no_wait_def)

text \<open>
  Every iteration of the event loop empties the channel of routed events: after
  scheduling, events are taken until none is left, each one handled if its worker belongs
  to this server and skipped otherwise, and the iteration ends with the counter of the
  debug output below 100, so that incrementing it never overflows.
\<close>
lemma event_loop_iteration_drains:
  assumes "event_loop E items cap waiting limit msgs room receiver"
    and "server_inv items cap s" and "no_wait (msgs (wd_events (world s)))"
    and "c < DEBUG_HASH" and "\<not> wd_done (world s)"
  shows "\<exists>c' s'. event_loop_body E (c, s) = Some (Inl (c', let_others_run E s')) \<and> c' < DEBUG_HASH \<and>
    msgs (wd_events (world s')) = [] \<and> server_inv items cap s'"
proof -
  have "event_loop.loop_inv items cap msgs s"
    using assms(2,3) by (simp add: event_loop.loop_inv_def [OF assms(1)])
  from event_loop.iteration_returns [OF assms(1) this assms(4,5)] show ?thesis
    by (metis event_loop.loop_inv_def [OF assms(1)])
qed

lemma event_loop_iteration_drains_example:
  "\<exists>c' s'. event_loop_body demo_env (99, demo_server Waiting [128] [] []) = Some (Inl (c', let_others_run demo_env s'))
    \<and> c' < DEBUG_HASH \<and> (\<lambda>(n, alive, xs). xs) (wd_events (world s')) = [] \<and> server_inv snd fst s'"
  by (rule event_loop_iteration_drains [OF demo_event_loop demo_server_inv])
     (simp_all add: demo_server_def no_wait_def DEBUG_HASH_def)

end
