(* ===== verification/A2_Router.thy ===== *)
theory A2_Router
  imports Umcg_Base Containers Server_Error
begin

text \<open>
  Routing of events between the servers of \<open>src/attempt2.rs\<close>: \<open>ServerQueue\<close> and
  \<open>ServerRouter\<close>, which hand an event to the queue of the server that owns the worker, and
  \<open>EventRoutingServer\<close>, the thread that waits for events of all workers and sends each
  one on the channel of the right server.
\<close>

subsection \<open>\<open>ServerQueue\<close>\<close>

record 'q server_queue =
  sq_events :: 'q
  sq_server_id :: usize

definition ServerQueue_new :: "('q, u64) queue_ops \<Rightarrow> usize \<Rightarrow> nat \<Rightarrow> 'q server_queue outcome" where
  "ServerQueue_new Q server_id capacity =
     (if capacity = 0 then Panics
      else Returns \<lparr>sq_events = q_new Q capacity, sq_server_id = server_id\<rparr>)"

text \<open>\<open>push_event\<close> logs what the push gave and reports success in any case.\<close>

definition push_event :: "('q, u64) queue_ops \<Rightarrow> u64 \<Rightarrow> 'q server_queue \<Rightarrow> (u64 + unit) \<times> 'q server_queue" where
  "push_event Q event sq = (Inr (), sq\<lparr>sq_events := push_or_drop Q event (sq_events sq)\<rparr>)"

definition pop_event :: "('q, u64) queue_ops \<Rightarrow> 'q server_queue \<Rightarrow> u64 option \<times> 'q server_queue" where
  "pop_event Q sq =
     (case q_pop Q (sq_events sq) of
        None \<Rightarrow> (None, sq)
      | Some (event, q) \<Rightarrow> (Some event, sq\<lparr>sq_events := q\<rparr>))"

subsection \<open>\<open>ServerRouter\<close>\<close>

record ('d, 'q) server_router =
  worker_assignments :: 'd
  server_queues :: "usize \<Rightarrow> 'q server_queue option"

primrec router_queues ::
  "('q, u64) queue_ops \<Rightarrow> nat \<Rightarrow> usize list \<Rightarrow> (usize \<Rightarrow> 'q server_queue option) \<Rightarrow>
   (usize \<Rightarrow> 'q server_queue option) outcome" where
  "router_queues Q capacity [] m = Returns m"
| "router_queues Q capacity (server_id # ids) m =
     (case ServerQueue_new Q server_id capacity of
        Panics \<Rightarrow> Panics
      | Returns sq \<Rightarrow> router_queues Q capacity ids (m(server_id \<mapsto> sq)))"

definition ServerRouter_new ::
  "('d, u64, usize) dash_ops \<Rightarrow> ('q, u64) queue_ops \<Rightarrow> usize \<Rightarrow> nat \<Rightarrow> ('d, 'q) server_router outcome" where
  "ServerRouter_new D Q server_count queue_capacity =
     (case router_queues Q queue_capacity (map of_nat [0..<unat server_count]) Map.empty of
        Panics \<Rightarrow> Panics
      | Returns m \<Rightarrow> Returns \<lparr>worker_assignments = dm_new D, server_queues = m\<rparr>)"

definition register_worker ::
  "('d, u64, usize) dash_ops \<Rightarrow> u64 \<Rightarrow> usize \<Rightarrow> ('d, 'q) server_router \<Rightarrow> ('d, 'q) server_router" where
  "register_worker D worker_id server_id r =
     r\<lparr>worker_assignments := dm_insert D worker_id server_id (worker_assignments r)\<rparr>"

definition forward_event ::
  "('d, u64, usize) dash_ops \<Rightarrow> ('q, u64) queue_ops \<Rightarrow> u64 \<Rightarrow> u64 \<Rightarrow> ('d, 'q) server_router \<Rightarrow>
   (ServerError + unit) \<times> ('d, 'q) server_router" where
  "forward_event D Q worker_id event r =
     (case dm_get D (worker_assignments r) worker_id of
        None \<Rightarrow> (Inl NoServerFound, r)
      | Some server_id \<Rightarrow>
          (case server_queues r server_id of
             None \<Rightarrow> (Inl NoServerFound, r)
           | Some sq \<Rightarrow>
               (case push_event Q event sq of
                  (Inl _, sq') \<Rightarrow> (Inl QueueFull, r\<lparr>server_queues := (server_queues r)(server_id \<mapsto> sq')\<rparr>)
                | (Inr _, sq') \<Rightarrow> (Inr (), r\<lparr>server_queues := (server_queues r)(server_id \<mapsto> sq')\<rparr>))))"

definition get_server_for_worker ::
  "('d, u64, usize) dash_ops \<Rightarrow> u64 \<Rightarrow> ('d, 'q) server_router \<Rightarrow> usize option" where
  "get_server_for_worker D worker_id r = dm_get D (worker_assignments r) worker_id"

definition get_server_queue :: "usize \<Rightarrow> ('d, 'q) server_router \<Rightarrow> 'q server_queue option" where
  "get_server_queue server_id r = server_queues r server_id"

subsection \<open>\<open>EventRoutingServer\<close>\<close>

text \<open>
  The channels to the servers and the \<open>done\<close> flag are shared with other threads and so
  belong to the world of the routing thread. \<open>rt_others\<close> is what other threads do while this one sleeps or is
  blocked in a send, \<open>rt_clock\<close> the system clock.
\<close>

record ('c, 'x) routing_world =
  rw_senders :: "u64 \<Rightarrow> 'c option"
  rw_done :: bool
  rw_ext :: 'x

record ('c, 'x) routing_env =
  rt_kernel :: "('c, 'x) routing_world kernel"
  rt_chan :: "('c, u64) chan_ops"
  rt_others :: "('c, 'x) routing_world \<Rightarrow> ('c, 'x) routing_world"
  rt_clock :: "('c, 'x) routing_world \<Rightarrow> nat"

record routing_server =
  er_id :: usize
  worker_to_server :: "u64 \<Rightarrow> u64 option"

definition EventRoutingServer_new :: "usize \<Rightarrow> (u64 \<Rightarrow> u64 option) \<Rightarrow> routing_server" where
  "EventRoutingServer_new server_id w2s = \<lparr>er_id = server_id, worker_to_server = w2s\<rparr>"

text \<open>A send to a full channel parks the thread until there is room or the receiver is gone.\<close>

definition send_body ::
  "('c, 'x) routing_env \<Rightarrow> u64 \<Rightarrow> u64 \<Rightarrow> ('c, 'x) routing_world \<Rightarrow>
   (('c, 'x) routing_world + ('c, 'x) routing_world) option" where
  "send_body R server_id event w =
     (case rw_senders w server_id of
        None \<Rightarrow> Some (Inr w)
      | Some ch \<Rightarrow>
          (case ch_send (rt_chan R) event ch of
             Sent ch' \<Rightarrow> Some (Inr (w\<lparr>rw_senders := (rw_senders w)(server_id \<mapsto> ch')\<rparr>))
           | SendFailed \<Rightarrow> Some (Inr w)
           | SendBlocks \<Rightarrow> Some (Inl (rt_others R w))))"

definition send_event ::
  "('c, 'x) routing_env \<Rightarrow> u64 \<Rightarrow> u64 \<Rightarrow> ('c, 'x) routing_world \<Rightarrow> ('c, 'x) routing_world option" where
  "send_event R server_id event w = rust_loop (send_body R server_id event) w"

text \<open>
  The loop over the events of one wait; the index into \<open>worker_to_server\<close> panics for a
  worker that is not in the map. \<open>None\<close>: a send blocks for ever.
\<close>

primrec route_events ::
  "('c, 'x) routing_env \<Rightarrow> routing_server \<Rightarrow> u64 list \<Rightarrow> ('c, 'x) routing_world \<Rightarrow>
   ('c, 'x) routing_world outcome option" where
  "route_events R rs [] w = Some (Returns w)"
| "route_events R rs (event # es) w =
     (case worker_to_server rs (event_worker event) of
        None \<Rightarrow> Some Panics
      | Some server_id \<Rightarrow>
          (case send_event R server_id event w of
             None \<Rightarrow> None
           | Some w' \<Rightarrow> route_events R rs es w'))"

definition routing_body ::
  "('c, 'x) routing_env \<Rightarrow> routing_server \<Rightarrow> ('c, 'x) routing_world \<Rightarrow>
   (('c, 'x) routing_world + ('c, 'x) routing_world outcome) option" where
  "routing_body R rs w0 =
     (if rw_done w0 then Some (Inr (Returns w0))
      else let w1 = rt_others R w0 in
        (case umcg_wait_retry_timeout (rt_kernel R) (rt_clock R w1) 0 (Some (replicate 10 0)) 10 50000 w1 of
           Panics \<Rightarrow> Some (Inr Panics)
         | Returns (WR_Events ret, events, w2) \<Rightarrow>
             if ret \<noteq> 0 then Some (Inl w2)
             else (case route_events R rs (takeWhile (\<lambda>e. e \<noteq> 0) (case events of Some evs \<Rightarrow> evs | None \<Rightarrow> [])) w2 of
                     None \<Rightarrow> None
                   | Some Panics \<Rightarrow> Some (Inr Panics)
                   | Some (Returns w3) \<Rightarrow> Some (Inl w3))
         | Returns (_, events, w2) \<Rightarrow> Some (Inl w2)))"

definition routing_start ::
  "('c, 'x) routing_env \<Rightarrow> routing_server \<Rightarrow> ('c, 'x) routing_world \<Rightarrow> ('c, 'x) routing_world outcome option" where
  "routing_start R rs w =
     (case umcg_syscall (rt_kernel R) 0 Cmd_RegisterServer 0 0 None 0 w of
        (reg_result, _, _, w') \<Rightarrow>
          if reg_result \<noteq> 0 then Some (Returns w') else rust_loop (routing_body R rs) w')"

subsection \<open>The router over the contracts of its containers\<close>

locale router_client = dash_map D lookup + array_queue Q items cap
  for D :: "('d, u64, usize) dash_ops" and lookup :: "'d \<Rightarrow> u64 \<Rightarrow> usize option"
    and Q :: "('q, u64) queue_ops" and items :: "'q \<Rightarrow> u64 list" and cap :: "'q \<Rightarrow> nat"
begin

text \<open>The events waiting for server \<open>i\<close>.\<close>

definition inbox :: "('d, 'q) server_router \<Rightarrow> usize \<Rightarrow> u64 list option" where
  "inbox r i = map_option (items \<circ> sq_events) (get_server_queue i r)"

lemma forward_cases:
  "forward_event D Q w e r =
     (case lookup (worker_assignments r) w of
        None \<Rightarrow> (Inl NoServerFound, r)
      | Some i \<Rightarrow>
          (case server_queues r i of
             None \<Rightarrow> (Inl NoServerFound, r)
           | Some sq \<Rightarrow> (Inr (), r\<lparr>server_queues := (server_queues r)(i \<mapsto>
               sq\<lparr>sq_events := push_or_drop Q e (sq_events sq)\<rparr>)\<rparr>)))"
  by (simp add: forward_event_def push_event_def map_simps split: option.splits)

lemma router_queues_spec:
  "0 < c \<Longrightarrow> router_queues Q c ids m =
     Returns (\<lambda>i. if i \<in> set ids then Some \<lparr>sq_events = q_new Q c, sq_server_id = i\<rparr> else m i)"
  by (induction ids arbitrary: m) (auto simp: ServerQueue_new_def fun_eq_iff)

lemma of_nat_below: "(i :: usize) \<in> set (map of_nat [0..<unat n]) \<longleftrightarrow> i < n"
proof
  assume "i \<in> set (map of_nat [0..<unat n])"
  then obtain k where "k < unat n" "i = of_nat k" by auto
  with unsigned_less [of n] show "i < n" by (simp add: word_less_nat_alt unat_of_nat)
next
  assume "i < n"
  then have "unat i < unat n" "i = of_nat (unat i)" by (simp_all add: word_less_nat_alt)
  then show "i \<in> set (map of_nat [0..<unat n])" by (metis atLeastLessThan_iff image_eqI set_map set_upt zero_le)
qed

lemma router_new:
  assumes "0 < c"
  shows "ServerRouter_new D Q n c = Returns \<lparr>worker_assignments = dm_new D,
    server_queues = (\<lambda>i. if i < n then Some \<lparr>sq_events = q_new Q c, sq_server_id = i\<rparr> else None)\<rparr>"
  by (simp add: ServerRouter_new_def router_queues_spec [OF assms] of_nat_below del: set_map)

lemma forward_all:
  assumes "lookup (worker_assignments r) w = Some i" and "server_queues r i = Some sq"
    and "length (items (sq_events sq)) + length es \<le> cap (sq_events sq)"
  shows "inbox (foldl (\<lambda>r e. snd (forward_event D Q w e r)) r es) i = Some (items (sq_events sq) @ es)"
  using assms
proof (induction es arbitrary: r sq)
  case Nil
  then show ?case by (simp add: inbox_def get_server_queue_def)
next
  case (Cons e es)
  let ?sq = "sq\<lparr>sq_events := push_or_drop Q e (sq_events sq)\<rparr>"
  let ?r = "r\<lparr>server_queues := (server_queues r)(i \<mapsto> ?sq)\<rparr>"
  have "snd (forward_event D Q w e r) = ?r" using Cons.prems by (simp add: forward_cases)
  moreover have "inbox (foldl (\<lambda>r e. snd (forward_event D Q w e r)) ?r es) i = Some (items (sq_events ?sq) @ es)"
    by (rule Cons.IH) (use Cons.prems in \<open>auto simp: queue_simps\<close>)
  ultimately show ?case using Cons.prems by (simp add: queue_simps)
qed

end

interpretation list_router: router_client fun_map "\<lambda>d. d" list_queue snd fst
  by unfold_locales

subsection \<open>The routing thread over the contract of its channels\<close>

locale event_router = bounded_channel "rt_chan R" msgs room receiver
  for R :: "('c, 'x) routing_env" and msgs :: "'c \<Rightarrow> u64 list" and room :: "'c \<Rightarrow> nat" and receiver :: "'c \<Rightarrow> bool"
begin

lemma send_event_room:
  assumes "rw_senders w i = Some ch" and "receiver ch" and "0 < room ch"
  obtains ch' where "send_event R i e w = Some (w\<lparr>rw_senders := (rw_senders w)(i \<mapsto> ch')\<rparr>)"
    and "msgs ch' = msgs ch @ [e]" and "room ch' = room ch - 1" and "receiver ch'"
proof -
  from send_room [OF assms(2,3), of e] obtain ch' where
    "ch_send (rt_chan R) e ch = Sent ch'" "msgs ch' = msgs ch @ [e]" "room ch' = room ch - 1" "receiver ch'"
    by blast
  with assms(1) show thesis
    by (intro that [of ch']) (simp_all add: send_event_def send_body_def loop_simps)
qed

text \<open>Every event's server is known, alive and has room for all events routed to it.\<close>

definition deliverable :: "routing_server \<Rightarrow> u64 list \<Rightarrow> ('c, 'x) routing_world \<Rightarrow> bool" where
  "deliverable rs es w \<longleftrightarrow> (\<forall>e \<in> set es. \<exists>i ch. worker_to_server rs (event_worker e) = Some i \<and>
     rw_senders w i = Some ch \<and> receiver ch \<and>
     length (filter (\<lambda>e. worker_to_server rs (event_worker e) = Some i) es) \<le> room ch)"

lemma deliverable_step:
  assumes "deliverable rs (e # es) w" and i: "worker_to_server rs (event_worker e) = Some i"
    and ch: "rw_senders w i = Some ch" and ch': "room ch' = room ch - 1" "receiver ch'"
  shows "deliverable rs es (w\<lparr>rw_senders := (rw_senders w)(i \<mapsto> ch')\<rparr>)"
  unfolding deliverable_def
proof
  fix d
  assume d: "d \<in> set es"
  with assms(1) obtain j cj where j: "worker_to_server rs (event_worker d) = Some j" "rw_senders w j = Some cj"
    "receiver cj" "length (filter (\<lambda>e. worker_to_server rs (event_worker e) = Some j) (e # es)) \<le> room cj"
    unfolding deliverable_def by auto
  show "\<exists>k c. worker_to_server rs (event_worker d) = Some k \<and>
      rw_senders (w\<lparr>rw_senders := (rw_senders w)(i \<mapsto> ch')\<rparr>) k = Some c \<and> receiver c \<and>
      length (filter (\<lambda>e. worker_to_server rs (event_worker e) = Some k) es) \<le> room c"
  proof (cases "j = i")
    case True
    with j i ch ch' show ?thesis by auto
  next
    case False
    with j i show ?thesis by auto
  qed
qed

lemma route_events_delivered:
  assumes "deliverable rs es w"
  shows "\<exists>w'. route_events R rs es w = Some (Returns w') \<and> rw_done w' = rw_done w \<and>
    (\<forall>i ch. rw_senders w i = Some ch \<longrightarrow> (\<exists>ch'. rw_senders w' i = Some ch' \<and>
       msgs ch' = msgs ch @ filter (\<lambda>e. worker_to_server rs (event_worker e) = Some i) es))"
  using assms
proof (induction es arbitrary: w)
  case Nil
  then show ?case by simp
next
  case (Cons e es)
  from Cons.prems obtain i ch where i: "worker_to_server rs (event_worker e) = Some i" "rw_senders w i = Some ch"
    "receiver ch" "0 < room ch"
    unfolding deliverable_def by fastforce
  from send_event_room [OF i(2-4), of e] obtain ch' where
    send: "send_event R i e w = Some (w\<lparr>rw_senders := (rw_senders w)(i \<mapsto> ch')\<rparr>)"
    and ch': "msgs ch' = msgs ch @ [e]" "room ch' = room ch - 1" "receiver ch'" by metis
  let ?w = "w\<lparr>rw_senders := (rw_senders w)(i \<mapsto> ch')\<rparr>"
  from Cons.IH [OF deliverable_step [OF Cons.prems i(1,2) ch'(2,3)]] obtain w' where
    w': "route_events R rs es ?w = Some (Returns w')" "rw_done w' = rw_done ?w" and
    m: "\<And>j cj. rw_senders ?w j = Some cj \<Longrightarrow> (\<exists>c. rw_senders w' j = Some c \<and>
       msgs c = msgs cj @ filter (\<lambda>e. worker_to_server rs (event_worker e) = Some j) es)"
    by blast
  have "\<exists>c. rw_senders w' j = Some c \<and>
       msgs c = msgs cj @ filter (\<lambda>e. worker_to_server rs (event_worker e) = Some j) (e # es)"
    if "rw_senders w j = Some cj" for j cj
    using m [of j "if j = i then ch' else cj"] that i ch' by (cases "j = i") auto
  with w' i send show ?case by auto
qed

lemma route_events_append:
  "route_events R rs (es @ es') w =
     (case route_events R rs es w of Some (Returns w') \<Rightarrow> route_events R rs es' w' | r \<Rightarrow> r)"
  by (induction es arbitrary: w) (auto split: option.splits)

end

text \<open>A routing thread on list channels whose kernel never reports an event.\<close>

definition idle_router :: "(nat \<times> bool \<times> u64 list, unit) routing_env" where
  "idle_router = \<lparr>rt_kernel = (\<lambda>args buf w. \<lparr>sr_ret = 0, sr_errno = 0, sr_written = [], sr_world = w\<rparr>),
     rt_chan = list_chan, rt_others = (\<lambda>w. w), rt_clock = (\<lambda>w. 0)\<rparr>"

lemma idle_router_channel:
  "bounded_channel (rt_chan idle_router) (\<lambda>(n, alive, xs). xs) (\<lambda>(n, alive, xs). n) (\<lambda>(n, alive, xs). alive)"
  using list_chan.bounded_channel_axioms by (simp add: idle_router_def)

interpretation idle_router: event_router idle_router "\<lambda>(n, alive, xs). xs" "\<lambda>(n, alive, xs). n" "\<lambda>(n, alive, xs). alive"
  using idle_router_channel by (rule event_router.intro)

subsection \<open>Properties\<close>

text \<open>
  \<open>forward_event\<close> answers \<open>NoServerFound\<close> and changes nothing for a worker without a
  server or a server without a queue; otherwise it answers \<open>Ok\<close>, appends the event to the
  queue of the worker's server if there is room and loses it if the queue is full, and
  changes nothing else. \<open>QueueFull\<close> is never reported.
\<close>
lemma forward_event_spec:
  assumes "dash_map D lookup" and "array_queue Q items cap"
  shows "case lookup (worker_assignments r) w of
      None \<Rightarrow> forward_event D Q w e r = (Inl NoServerFound, r)
    | Some i \<Rightarrow>
       (case server_queues r i of
          None \<Rightarrow> forward_event D Q w e r = (Inl NoServerFound, r)
        | Some sq \<Rightarrow> \<exists>q'. forward_event D Q w e r
              = (Inr (), r\<lparr>server_queues := (server_queues r)(i \<mapsto> sq\<lparr>sq_events := q'\<rparr>)\<rparr>) \<and>
            items q' = (if length (items (sq_events sq)) < cap (sq_events sq)
                        then items (sq_events sq) @ [e] else items (sq_events sq)))"
proof -
  have rc: "router_client D lookup Q items cap" using assms by (rule router_client.intro)
  show ?thesis
    by (auto simp: router_client.forward_cases [OF rc] array_queue.queue_simps [OF assms(2)] split: option.splits)
qed

lemma forward_event_spec_example:
  "forward_event fun_map list_queue 128 130
     \<lparr>worker_assignments = [128 \<mapsto> 0], server_queues = [0 \<mapsto> \<lparr>sq_events = (1, [129]), sq_server_id = 0\<rparr>]\<rparr>
   = (Inr (), \<lparr>worker_assignments = [128 \<mapsto> 0], server_queues = [0 \<mapsto> \<lparr>sq_events = (1, [129]), sq_server_id = 0\<rparr>]\<rparr>)"
  (is "forward_event _ _ _ _ ?r = _")
proof -
  have "forward_event fun_map list_queue 128 130 ?r = (Inr (), ?r)"
    by (simp add: forward_event_def push_event_def push_or_drop_def)
  with forward_event_spec [OF fun_map.dash_map_axioms list_queue.array_queue_axioms, where r = ?r and w = 128 and e = 130]
  show ?thesis by auto
qed

text \<open>
  A router made for \<open>n\<close> servers with a positive queue capacity routes the events of a
  registered worker in order: after \<open>register_worker w i\<close> with \<open>i < n\<close>, forwarding up to
  \<open>capacity\<close> events of \<open>w\<close> leaves exactly these events, in this order, in the queue of
  server \<open>i\<close>, and \<open>get_server_for_worker\<close> answers \<open>i\<close>.
\<close>
lemma router_roundtrip:
  assumes "dash_map D lookup" and "array_queue Q items cap"
    and "0 < c" and "i < n" and "length es \<le> c"
  shows "\<exists>r sq. ServerRouter_new D Q n c = Returns r \<and>
    get_server_for_worker D w (register_worker D w i r) = Some i \<and>
    get_server_queue i (foldl (\<lambda>r e. snd (forward_event D Q w e r)) (register_worker D w i r) es) = Some sq \<and>
    items (sq_events sq) = es"
proof -
  have rc: "router_client D lookup Q items cap" using assms(1,2) by (rule router_client.intro)
  note dm = dash_map.map_simps [OF assms(1)] and q0 = array_queue.items_new [OF assms(2,3)] array_queue.cap_new [OF assms(2,3)]
  let ?sq = "\<lparr>sq_events = q_new Q c, sq_server_id = i\<rparr>"
  let ?r = "\<lparr>worker_assignments = dm_new D,
    server_queues = (\<lambda>i. if i < n then Some \<lparr>sq_events = q_new Q c, sq_server_id = i\<rparr> else None)\<rparr>"
  have "router_client.inbox items (foldl (\<lambda>r e. snd (forward_event D Q w e r)) (register_worker D w i ?r) es) i
      = Some (items (sq_events ?sq) @ es)"
    by (rule router_client.forward_all [OF rc])
       (use assms in \<open>simp_all add: register_worker_def dm q0\<close>)
  then show ?thesis
    using router_client.router_new [OF rc assms(3), of n]
    by (auto simp: router_client.inbox_def [OF rc] q0 get_server_for_worker_def register_worker_def dm)
qed

lemma router_roundtrip_example:
  "\<exists>r sq. ServerRouter_new fun_map list_queue 3 2 = Returns r \<and>
    get_server_for_worker fun_map 128 (register_worker fun_map 128 1 r) = Some 1 \<and>
    get_server_queue 1 (foldl (\<lambda>r e. snd (forward_event fun_map list_queue 128 e r))
      (register_worker fun_map 128 1 r) [129, 130]) = Some sq \<and>
    snd (sq_events sq) = [129, 130]"
  by (rule router_roundtrip [OF fun_map.dash_map_axioms list_queue.array_queue_axioms]) simp_all

text \<open>
  C35: The routing thread delivers every event of a wait to the server of its worker and to
  no other: if each event's worker is mapped to a server whose channel is alive and has
  room, the loop over the events ends normally and each channel has received exactly the
  events of its server's workers, in the order the kernel gave them. The first event of a
  worker that is not in \<open>worker_to_server\<close> makes the thread panic at the index expression.
\<close>
theorem route_events_delivers:
  assumes "bounded_channel (rt_chan R) msgs room receiver"
    and "\<forall>e \<in> set es. \<exists>i ch. worker_to_server rs (event_worker e) = Some i \<and>
      rw_senders w i = Some ch \<and> receiver ch \<and>
      length (filter (\<lambda>e. worker_to_server rs (event_worker e) = Some i) es) \<le> room ch"
  shows "(\<exists>w'. route_events R rs es w = Some (Returns w') \<and>
      (\<forall>i ch. rw_senders w i = Some ch \<longrightarrow> (\<exists>ch'. rw_senders w' i = Some ch' \<and>
         msgs ch' = msgs ch @ filter (\<lambda>e. worker_to_server rs (event_worker e) = Some i) es))) \<and>
    (\<forall>e es'. worker_to_server rs (event_worker e) = None \<longrightarrow> route_events R rs (es @ e # es') w = Some Panics)"
proof -
  have er: "event_router R msgs room receiver" using assms(1) by (rule event_router.intro)
  from event_router.route_events_delivered [OF er, of rs es w] assms(2)
  show ?thesis
    by (auto simp: event_router.deliverable_def [OF er] event_router.route_events_append [OF er])
qed

definition routing_demo_world :: "(nat \<times> bool \<times> u64 list, unit) routing_world" where
  "routing_demo_world = \<lparr>rw_senders = [0 \<mapsto> (5, True, []), 1 \<mapsto> (5, True, [7])], rw_done = False, rw_ext = ()\<rparr>"

theorem route_events_delivers_witness:
  "\<exists>w'. route_events idle_router (EventRoutingServer_new 2 [128 \<mapsto> 0, 160 \<mapsto> 1]) [130, 161, 129] routing_demo_world
      = Some (Returns w') \<and> rw_senders w' 1 = Some (4, True, [7, 161])"
proof -
  let ?rs = "EventRoutingServer_new 2 [128 \<mapsto> 0, 160 \<mapsto> 1]"
  have ev: "event_worker 130 = 128" "event_worker 161 = 160" "event_worker 129 = 128"
    by (simp_all add: event_worker_def UMCG_WORKER_ID_SHIFT_def)
  have "\<forall>e \<in> set [130, 161, 129]. \<exists>i ch. worker_to_server ?rs (event_worker e) = Some i \<and>
      rw_senders routing_demo_world i = Some ch \<and> (\<lambda>(n, alive, xs). alive) ch \<and>
      length (filter (\<lambda>e. worker_to_server ?rs (event_worker e) = Some i) [130, 161, 129]) \<le> (\<lambda>(n, alive, xs). n) ch"
    by (auto simp: ev EventRoutingServer_new_def routing_demo_world_def)
  from route_events_delivers [OF idle_router_channel this] obtain w' where
    "route_events idle_router ?rs [130, 161, 129] routing_demo_world = Some (Returns w')" by blast
  then show ?thesis
    by (auto simp: ev EventRoutingServer_new_def routing_demo_world_def idle_router_def send_event_def
        send_body_def loop_simps)
qed

end
