(* ===== verification/A2_Startup.thy ===== *)
theory A2_Startup
  imports A2_Event_Loop A2_Router
begin

text \<open>
  Creation, start and shutdown of a server of \<open>src/attempt2.rs\<close>: \<open>Server::new\<close>,
  \<open>Server::start_server\<close> with the registration of its workers, \<open>Server::shutdown\<close>, and
  the conversions between thread ids and worker ids.
\<close>

subsection \<open>\<open>Server::new\<close>\<close>

text \<open>
  \<open>expect\<close> panics when the router has no queue for the server. The metrics, the router
  and the queue a server keeps are not read again after its creation.
\<close>

definition Server_new ::
  "usize \<Rightarrow> (u64 \<Rightarrow> WorkerStatus option) \<Rightarrow> 'p worker_queues \<Rightarrow> ('d, 'q) server_router \<Rightarrow>
   ('m, 't, 'c, 'x) world \<Rightarrow> ('p, 'm, 't, 'c, 'x) server outcome" where
  "Server_new server_id sts wqs router w =
     (case get_server_queue server_id router of
        None \<Rightarrow> Panics
      | Some _ \<Rightarrow> Returns \<lparr>srv_id = server_id, states = sts, worker_queues = wqs, world = w\<rparr>)"

subsection \<open>Registration of the workers\<close>

text \<open>
  One event of the registration loop. The events the context switch reports are not
  looked at. \<open>registered\<close> lists the workers registered so far.
\<close>

definition register_event ::
  "('q, 'm, 't, 'c, 'x) env \<Rightarrow> u64 \<Rightarrow> u64 list \<Rightarrow> ('q, 'm, 't, 'c, 'x) server \<Rightarrow>
   u64 list \<times> ('q, 'm, 't, 'c, 'x) server" where
  "register_event E event registered s =
     (let worker_id = worker_id_of (worker_tid event) in
      if event_type event = event_u64 Ev_Wake then
        if worker_id \<in> set registered then (registered, s)
        else case ctx_switch E worker_id s of
          (switch_ret, switch_events, s') \<Rightarrow>
            if switch_ret = 0 then
              (case states s' worker_id of
                 Some _ \<Rightarrow> (registered @ [worker_id], push_pending E worker_id (set_status worker_id Waiting s'))
               | None \<Rightarrow> (registered, s'))
            else (registered, s')
      else (registered, s))"

definition register_body ::
  "('q, 'm, 't, 'c, 'x) env \<Rightarrow> u64 list \<times> u64 list \<times> ('q, 'm, 't, 'c, 'x) server \<Rightarrow>
   ((u64 list \<times> u64 list \<times> ('q, 'm, 't, 'c, 'x) server) + ('q, 'm, 't, 'c, 'x) server) option" where
  "register_body E = (\<lambda>(registered, events, s).
     if \<not> length registered < card (dom (states s)) then Some (Inr s)
     else case umcg_wait_retry (kernel E) 0 (Some events) (of_nat EVENT_BUFFER_SIZE) (world s) of
         None \<Rightarrow> None
       | Some (ret, errno, events', w) \<Rightarrow>
           let evs = (case events' of Some evs \<Rightarrow> evs | None \<Rightarrow> []); s1 = s\<lparr>world := w\<rparr> in
           if ret \<noteq> 0 then Some (Inl (registered, evs, s1))
           else (case register_event E (evs ! 0) registered s1 of
                   (registered', s2) \<Rightarrow> Some (Inl (registered', evs, s2))))"

definition register_workers ::
  "('q, 'm, 't, 'c, 'x) env \<Rightarrow> ('q, 'm, 't, 'c, 'x) server \<Rightarrow> ('q, 'm, 't, 'c, 'x) server option" where
  "register_workers E s = rust_loop (register_body E) ([], replicate EVENT_BUFFER_SIZE 0, s)"

subsection \<open>\<open>start_server\<close> and \<open>shutdown\<close>\<close>

definition wait_for_start ::
  "('q, 'm, 't, 'c, 'x) env \<Rightarrow> ('q, 'm, 't, 'c, 'x) server \<Rightarrow> ('q, 'm, 't, 'c, 'x) server option" where
  "wait_for_start E s =
     rust_loop (\<lambda>s. Some (if wd_wait (world s) then Inl (let_others_run E s) else Inr s)) s"

text \<open>The body of the server's thread; \<open>Panics\<close> is the \<open>expect\<close> on the event loop's result.\<close>

definition start_server ::
  "('q, 'm, 't, 'c, 'x) env \<Rightarrow> ('q, 'm, 't, 'c, 'x) server \<Rightarrow> ('q, 'm, 't, 'c, 'x) server outcome option" where
  "start_server E s =
     (case a2_set_cpu_affinity (sched E) (srv_id s) (world s) of
        (_, w0) \<Rightarrow>
     (case umcg_syscall (kernel E) 0 Cmd_RegisterServer 0 0 None 0 w0 of
        (reg_result, _, _, w1) \<Rightarrow>
          if reg_result \<noteq> 0 then Some (Returns (s\<lparr>world := w1\<rparr>))
          else (case register_workers E (s\<lparr>world := w1\<rparr>) of
                  None \<Rightarrow> None
                | Some s2 \<Rightarrow>
                    (case wait_for_start E s2 of
                       None \<Rightarrow> None
                     | Some s3 \<Rightarrow>
                         (case run_event_loop E s3 of
                            None \<Rightarrow> None
                          | Some Panics \<Rightarrow> Some Panics
                          | Some (Returns (Inl _, s4)) \<Rightarrow> Some Panics
                          | Some (Returns (Inr _, s4)) \<Rightarrow> Some (Returns s4))))))"

text \<open>
  \<open>shutdown\<close> sets \<open>done\<close> and sends \<open>Shutdown\<close> on every channel; a failed send is only
  logged, so the order in which the map is walked does not matter.
\<close>

definition send_shutdown :: "'t WorkerTask mpsc \<Rightarrow> 't WorkerTask mpsc" where
  "send_shutdown tx = (case mpsc_send Shutdown tx of None \<Rightarrow> tx | Some tx' \<Rightarrow> tx')"

definition shutdown :: "('q, 'm, 't, 'c, 'x) server \<Rightarrow> ('q, 'm, 't, 'c, 'x) server" where
  "shutdown s = s\<lparr>world := (world s)\<lparr>wd_done := True,
     wd_channels := (\<lambda>w. map_option send_shutdown (wd_channels (world s) w))\<rparr>\<rparr>"

subsection \<open>Identifiers\<close>

definition get_worker_state :: "('q, 'm, 't, 'c, 'x) server \<Rightarrow> u64 \<Rightarrow> WorkerStatus option" where
  "get_worker_state s worker_id =
     (let shifted_id = if worker_id AND UMCG_WORKER_EVENT_MASK = 0 then worker_id
                       else push_bit UMCG_WORKER_ID_SHIFT worker_id
      in states s shifted_id)"

definition raw_tid_to_worker_id :: "u64 \<Rightarrow> u64" where
  "raw_tid_to_worker_id raw_tid = push_bit UMCG_WORKER_ID_SHIFT raw_tid"

definition worker_id_to_raw_tid :: "u64 \<Rightarrow> i32" where
  "worker_id_to_raw_tid worker_id = ucast (drop_bit UMCG_WORKER_ID_SHIFT worker_id)"

subsection \<open>The invariant of the registration loop\<close>

text \<open>
  The registered workers are those in the pending queue, in the same order, and are
  waiting; no worker is running or blocked.
\<close>

definition register_inv ::
  "('q \<Rightarrow> u64 list) \<Rightarrow> ('q \<Rightarrow> nat) \<Rightarrow> u64 list \<Rightarrow> ('q, 'm, 't, 'c, 'x) server \<Rightarrow> bool" where
  "register_inv items cap registered s \<longleftrightarrow>
     server_inv items cap s \<and> busy (states s) = {} \<and> items (pending (worker_queues s)) = registered"

lemma register_inv_complete:
  assumes "register_inv items cap registered s" and "card (dom (states s)) \<le> length registered"
  shows "\<forall>w \<in> dom (states s). states s w = Some Waiting"
    and "set (items (pending (worker_queues s))) = dom (states s)"
proof -
  from assms(1) have d: "distinct registered" "\<forall>w \<in> set registered. states s w = Some Waiting"
    and p: "items (pending (worker_queues s)) = registered" by (auto simp: register_inv_def server_inv_def)
  from d have "set registered \<subseteq> dom (states s)" by auto
  moreover have "card (dom (states s)) \<le> card (set registered)" using d assms(2) by (simp add: distinct_card)
  ultimately have "set registered = dom (states s)" by (intro card_seteq) simp_all
  with d p show "\<forall>w \<in> dom (states s). states s w = Some Waiting"
    and "set (items (pending (worker_queues s))) = dom (states s)" by auto
qed

context server_loop
begin

abbreviation rinv :: "u64 list \<Rightarrow> ('q, 'm, 't, 'c, 'x) server \<Rightarrow> bool" where
  "rinv \<equiv> register_inv items cap"

lemma kernel_world_inv:
  "inv (s\<lparr>world := sr_world (kernel E args buf (world s))\<rparr>) \<longleftrightarrow> inv s"
  by (simp add: server_inv_def sk.switch_channels)

lemma rinv_add:
  assumes "rinv reg s" and "w \<in> dom (states s)" and "w \<notin> set reg"
  shows "rinv (reg @ [w]) (push_pending E w (set_status w Waiting s))"
proof -
  from assms have i: "inv s" and b: "busy (states s) = {}" and p: "items (pending (worker_queues s)) = reg"
    by (auto simp: register_inv_def)
  from room_for_pending [OF i assms(2)] assms(3) p
  have room: "length (items (pending (worker_queues s))) < cap (pending (worker_queues s))" by simp
  have "insert w (dom (states s)) = dom (states s)" using assms(2) by blast
  then show ?thesis
    using i b p room assms(3)
    by (auto simp: register_inv_def server_inv_def push_pending_def set_status_def queue_simps busy_update)
qed

lemma rinv_event:
  assumes "rinv reg s" and "register_event E e reg s = (reg', s')"
  shows "rinv reg' s' \<and> dom (states s') = dom (states s) \<and> set reg \<subseteq> set reg'"
proof -
  let ?w = "worker_id_of (worker_tid e)"
  obtain r evs s1 where sw: "ctx_switch E ?w s = (r, evs, s1)" by (metis prod_cases3)
  from ctx_switch_inv [OF sw] ctx_switch_frame [OF sw] assms(1)
  have s1: "rinv reg s1" "states s1 = states s" by (simp_all add: register_inv_def)
  show ?thesis
  proof (cases "event_type e = event_u64 Ev_Wake \<and> ?w \<notin> set reg \<and> r = 0 \<and> ?w \<in> dom (states s1)")
    case True
    with sw assms(2) have eq: "reg' = reg @ [?w]" "s' = push_pending E ?w (set_status ?w Waiting s1)"
      by (auto simp: register_event_def Let_def)
    from True obtain st where "states s1 ?w = Some st" by blast
    then have "dom (states s') = dom (states s)"
      using dom_update_known [of "states s1" ?w st Waiting] s1(2) eq
      by (simp add: push_pending_def set_status_def del: dom_fun_upd)
    moreover have "rinv reg' s'" using rinv_add [OF s1(1), of ?w] eq True by simp
    moreover have "set reg \<subseteq> set reg'" using eq(1) by auto
    ultimately show ?thesis by blast
  next
    case False
    with sw s1 assms show ?thesis
      by (auto simp: register_event_def Let_def split: if_splits option.splits)
  qed
qed

lemma register_event_registers:
  assumes "register_event E (worker_id_of t OR event_u64 Ev_Wake) reg s = (reg', s')"
    and "worker_id_of t \<in> dom (states s)"
    and "\<And>r evs s'. ctx_switch E (worker_id_of t) s = (r, evs, s') \<Longrightarrow> r = 0"
  shows "worker_id_of t \<in> set reg'"
proof -
  obtain r evs s1 where sw: "ctx_switch E (worker_id_of t) s = (r, evs, s1)" by (metis prod_cases3)
  from event_worker_of_word [of t Ev_Wake] have "worker_tid (worker_id_of t OR event_u64 Ev_Wake) = t"
    by (simp add: event_word_defs event_simps)
  with sw assms ctx_switch_frame [OF sw] show ?thesis
    by (auto simp: register_event_def Let_def event_type_of_word simp del: event_u64.simps split: if_splits)
qed

end

subsection \<open>Registration ends\<close>

text \<open>
  A kernel that reports the workers of a list \<open>todo\<close> awake, one per wait, and whose
  context switches succeed.
\<close>

locale registering_kernel = server_loop E items cap
  for E :: "('q, 'm, 't, 'c, 'x) env" and items :: "'q \<Rightarrow> u64 list" and cap :: "'q \<Rightarrow> nat" +
  fixes todo :: "('m, 't, 'c, 'x) world \<Rightarrow> pid_t list"
  assumes wait_ok: "a_cmd args = cmd_u64 Cmd_Wait \<Longrightarrow> todo w \<noteq> [] \<Longrightarrow> sr_ret (kernel E args buf w) = 0"
    and wait_wake: "a_cmd args = cmd_u64 Cmd_Wait \<Longrightarrow> todo w = t # ts \<Longrightarrow>
       (\<exists>zs \<in> {[], [0]}. sr_written (kernel E args buf w) = (worker_id_of t OR event_u64 Ev_Wake) # zs) \<and>
       todo (sr_world (kernel E args buf w)) = ts"
    and switch_ok: "a_cmd args = cmd_u64 Cmd_CtxSwitch \<Longrightarrow> sr_ret (kernel E args buf w) = 0 \<and>
       todo (sr_world (kernel E args buf w)) = todo w"
begin

lemma ctx_switch_ok: "ctx_switch E w s = (r, evs, s') \<Longrightarrow> r = 0 \<and> todo (world s') = todo (world s)"
  using switch_ok by (auto simp: ctx_switch_def umcg_syscall_def Let_def)

lemma register_event_todo:
  "register_event E e reg s = (reg', s') \<Longrightarrow> todo (world s') = todo (world s)"
  by (auto simp: register_event_def Let_def push_pending_def set_status_def
      dest: ctx_switch_ok split: if_splits option.splits prod.splits)

definition progress :: "u64 list \<times> u64 list \<times> ('q, 'm, 't, 'c, 'x) server \<Rightarrow> bool" where
  "progress = (\<lambda>(reg, evs, s). rinv reg s \<and> length evs = 2 \<and>
     dom (states s) \<subseteq> set reg \<union> worker_id_of ` set (todo (world s)))"

lemma register_step:
  assumes P: "progress (reg, evs, s)" and more: "length reg < card (dom (states s))"
  shows "\<exists>reg' evs' s'. register_body E (reg, evs, s) = Some (Inl (reg', evs', s')) \<and>
    progress (reg', evs', s') \<and> length (todo (world s')) < length (todo (world s)) \<and>
    dom (states s') = dom (states s)"
proof -
  from P have i: "rinv reg s" and len: "length evs = 2"
    and cover: "dom (states s) \<subseteq> set reg \<union> worker_id_of ` set (todo (world s))" by (simp_all add: progress_def)
  have "todo (world s) \<noteq> []"
  proof
    assume "todo (world s) = []"
    with cover have "card (dom (states s)) \<le> card (set reg)" by (intro card_mono) simp_all
    with more card_length [of reg] show False by simp
  qed
  then obtain t ts where t: "todo (world s) = t # ts" by (cases "todo (world s)") auto
  obtain args errno where cmd: "a_cmd args = cmd_u64 Cmd_Wait" and
    ret: "umcg_wait_retry (kernel E) 0 (Some evs) (of_nat EVENT_BUFFER_SIZE) (world s) =
      Some (0, errno, Some (overwrite (sr_written (kernel E args (Some evs) (world s))) evs),
        sr_world (kernel E args (Some evs) (world s)))"
    using wait_retry_success [where K = "kernel E" and w = "world s", OF wait_ok] t by (metis list.distinct(1))
  let ?w = "sr_world (kernel E args (Some evs) (world s))" and ?e = "worker_id_of t OR event_u64 Ev_Wake"
  from wait_wake [OF cmd t] obtain zs where w: "todo ?w = ts" "sr_written (kernel E args (Some evs) (world s)) = ?e # zs"
    and zs: "length zs \<le> 1" by fastforce
  let ?evs = "overwrite (?e # zs) evs" and ?s = "s\<lparr>world := sr_world (kernel E args (Some evs) (world s))\<rparr>"
  have len: "length ?evs = 2" and e0: "?evs ! 0 = ?e" using len zs by (simp_all add: overwrite_def nth_append)
  have i1: "rinv reg ?s" using i kernel_world_inv by (simp add: register_inv_def)
  obtain reg' s' where ev: "register_event E ?e reg ?s = (reg', s')" by fastforce
  from rinv_event [OF i1 ev] register_event_todo [OF ev] w
  have s': "rinv reg' s'" "dom (states s') = dom (states s)" "set reg \<subseteq> set reg'" "todo (world s') = ts" by auto
  have "worker_id_of t \<in> dom (states ?s) \<Longrightarrow> worker_id_of t \<in> set reg'"
    using register_event_registers [OF ev] ctx_switch_ok by blast
  moreover have "dom (states s) \<subseteq> set reg \<union> insert (worker_id_of t) (worker_id_of ` set ts)" using cover t by simp
  ultimately have "dom (states s') \<subseteq> set reg' \<union> worker_id_of ` set (todo (world s'))" using s' by auto
  with s' len have "progress (reg', ?evs, s')" by (simp add: progress_def)
  moreover have "register_body E (reg, evs, s) = Some (Inl (reg', ?evs, s'))"
    using more ret w ev e0 by (simp add: register_body_def Let_def del: event_u64.simps)
  ultimately show ?thesis using s' t by auto
qed

lemma registration_returns:
  assumes "progress (reg, evs, s)"
  shows "\<exists>s'. rust_loop (register_body E) (reg, evs, s) = Some s' \<and> dom (states s') = dom (states s) \<and>
    (\<exists>reg'. rinv reg' s' \<and> card (dom (states s')) \<le> length reg')"
  using assms
proof (induction "length (todo (world s))" arbitrary: reg evs s rule: less_induct)
  case less
  show ?case
  proof (cases "length reg < card (dom (states s))")
    case True
    from register_step [OF less.prems True] obtain reg' evs' s' where
      st: "register_body E (reg, evs, s) = Some (Inl (reg', evs', s'))" "progress (reg', evs', s')"
      "length (todo (world s')) < length (todo (world s))" "dom (states s') = dom (states s)" by blast
    from less.hyps [OF st(3,2)] st(1,4) show ?thesis by (simp add: loop_simps)
  next
    case False
    then have "register_body E (reg, evs, s) = Some (Inr s)" by (simp add: register_body_def)
    with False less.prems show ?thesis by (auto simp: loop_simps progress_def not_less)
  qed
qed

end

subsection \<open>A concrete start\<close>

text \<open>A kernel whose world lists the threads still to be reported awake.\<close>

definition wake_kernel :: "('m, 't, 'c, pid_t list) world kernel" where
  "wake_kernel = (\<lambda>args buf w. \<lparr>sr_ret = 0, sr_errno = 0,
     sr_written = (if a_cmd args = 5 then (case wd_ext w of t # ts \<Rightarrow> [worker_id_of t OR event_u64 Ev_Wake] | [] \<Rightarrow> []) else []),
     sr_world = (if a_cmd args = 5 then w\<lparr>wd_ext := tl (wd_ext w)\<rparr> else w)\<rparr>)"

definition start_env ::
  "(nat \<times> u64 list, nat \<times> nat tracked_task list, nat, nat \<times> bool \<times> u64 list, pid_t list) env" where
  "start_env = \<lparr>kernel = wake_kernel, queue = list_queue, manager = task_queue_ops list_queue,
     consumer = list_chan, others = (\<lambda>w. w), sched = null_sched\<rparr>"

lemma start_env_simps [simp]: "kernel start_env = wake_kernel" "queue start_env = list_queue"
  by (simp_all add: start_env_def)

interpretation start_kernel: registering_kernel start_env snd fst wd_ext
proof -
  have sk: "switch_kernel (kernel start_env)"
    by unfold_locales (simp_all add: wake_kernel_def switch_args_def)
  have sl: "server_loop start_env snd fst"
    using list_queue.array_queue_axioms sk by (simp add: server_loop_def)
  show "registering_kernel start_env snd fst wd_ext"
    using sl by (rule registering_kernel.intro) (simp add: registering_kernel_axioms_def wake_kernel_def)
qed

definition start_demo ::
  "(nat \<times> u64 list, nat \<times> nat tracked_task list, nat, nat \<times> bool \<times> u64 list, pid_t list) server" where
  "start_demo = \<lparr>srv_id = 0, states = [128 \<mapsto> Initializing],
     worker_queues = \<lparr>pending = (3, []), running = (3, []), preempted = (3, [])\<rparr>,
     world = \<lparr>wd_tasks = (10, []), wd_channels = [128 \<mapsto> mpsc_channel], wd_events = (10, True, []),
              wd_done = False, wd_wait = False, wd_ext = [9, 4]\<rparr>\<rparr>"

lemma start_demo_inv: "server_inv snd fst start_demo"
proof -
  have "(128 :: u64) \<in> range worker_id_of" using worker_id_4 by (metis rangeI)
  then show ?thesis by (auto simp: server_inv_def start_demo_def busy_def)
qed

subsection \<open>Properties\<close>

text \<open>
  C4: Registration establishes the invariant the event loop starts from. For a server with
  empty queues and no busy worker, and a kernel that reports each of its workers awake
  (in any order, among others, possibly repeatedly) and switches to them successfully,
  the registration loop ends; then every worker is waiting, the pending queue holds every
  worker exactly once, and the invariant of the server holds.
\<close>
theorem registration_establishes_invariant:
  assumes "registering_kernel E items cap todo"
    and "server_inv items cap s" and "items (pending (worker_queues s)) = []" and "busy (states s) = {}"
    and "dom (states s) \<subseteq> worker_id_of ` set (todo (world s))"
  shows "\<exists>s'. register_workers E s = Some s' \<and> dom (states s') = dom (states s) \<and>
    (\<forall>w \<in> dom (states s'). states s' w = Some Waiting) \<and>
    distinct (items (pending (worker_queues s'))) \<and> set (items (pending (worker_queues s'))) = dom (states s') \<and>
    server_inv items cap s'"
proof -
  have "registering_kernel.progress items cap todo ([], replicate EVENT_BUFFER_SIZE 0, s)"
    using assms(2-5)
    by (simp add: registering_kernel.progress_def [OF assms(1)] register_inv_def EVENT_BUFFER_SIZE_def)
  from registering_kernel.registration_returns [OF assms(1) this] obtain s' reg where
    s': "register_workers E s = Some s'" "dom (states s') = dom (states s)"
    and r: "register_inv items cap reg s'" "card (dom (states s')) \<le> length reg"
    by (auto simp: register_workers_def)
  from register_inv_complete [OF r] r(1) s' show ?thesis
    by (auto simp: register_inv_def server_inv_def)
qed

theorem registration_establishes_invariant_witness:
  "\<exists>s'. register_workers start_env start_demo = Some s' \<and> dom (states s') = dom (states start_demo) \<and>
    (\<forall>w \<in> dom (states s'). states s' w = Some Waiting) \<and>
    distinct (snd (pending (worker_queues s'))) \<and> set (snd (pending (worker_queues s'))) = dom (states s') \<and>
    server_inv snd fst s'"
proof (rule registration_establishes_invariant [OF start_kernel.registering_kernel_axioms start_demo_inv])
  show "dom (states start_demo) \<subseteq> worker_id_of ` set (wd_ext (world start_demo))"
    using worker_id_4 by (auto simp: start_demo_def)
qed (auto simp: start_demo_def busy_def)

text \<open>
  \<open>get_worker_state\<close> looks up the right worker for every worker id. For a raw thread id
  it does so unless the id is a multiple of 32: such an id passes for a worker id and is
  looked up unshifted, so the worker of thread 64 is reported with the status of the
  worker of thread 2.
\<close>
lemma get_worker_state_ids:
  "get_worker_state s (worker_id_of t) = states s (worker_id_of t) \<and>
   (scast t AND (31 :: u64) \<noteq> 0 \<longrightarrow> get_worker_state s (scast t) = states s (worker_id_of t)) \<and>
   get_worker_state s 64 = states s (worker_id_of 2)"
  by (simp add: get_worker_state_def Let_def worker_id_of_def UMCG_WORKER_ID_SHIFT_def event_simps)

lemma get_worker_state_ids_example:
  "get_worker_state (demo_server Waiting [] [] []) (scast (4 :: pid_t)) = Some Waiting"
  using get_worker_state_ids [of "demo_server Waiting [] [] []" 4]
  by (simp add: demo_server_def worker_id_4)

text \<open>
  \<open>shutdown\<close> sets \<open>done\<close>, so a running event loop returns before its next iteration,
  and leaves \<open>Shutdown\<close> as the last message on the channel of every worker whose receiver
  is alive, behind the tasks it was sent before; statuses and queues are unchanged.
\<close>
lemma shutdown_reaches_workers:
  "event_loop_body E (c, shutdown s) = Some (Inr (Returns (Inr (), shutdown s))) \<and>
   states (shutdown s) = states s \<and> worker_queues (shutdown s) = worker_queues s \<and>
   wd_tasks (world (shutdown s)) = wd_tasks (world s) \<and>
   wd_channels (world (shutdown s)) w = (case wd_channels (world s) w of None \<Rightarrow> None
     | Some tx \<Rightarrow> Some (if mpsc_rx tx then tx\<lparr>mpsc_buf := mpsc_buf tx @ [Shutdown]\<rparr> else tx))"
  by (auto simp: event_loop_body_def shutdown_def send_shutdown_def mpsc_send_def split: option.splits)

lemma event_loop_result:
  assumes "run_event_loop E s = Some r"
  shows "\<exists>s'. r = Returns (Inr (), s') \<and> wd_done (world s')"
  using assms unfolding run_event_loop_def
proof (rule rust_loop_invariant [where P = "\<lambda>(c, s). c < DEBUG_HASH"])
  fix cs cs'
  assume P: "case cs of (c, s) \<Rightarrow> c < DEBUG_HASH" and b: "event_loop_body E cs = Some (Inl cs')"
  obtain c s where cs: "cs = (c, s)" by (cases cs)
  from P cs have "c < DEBUG_HASH" by simp
  from debug_counter_step [OF this] show "case cs' of (c, s) \<Rightarrow> c < DEBUG_HASH"
    using b by (auto simp: cs event_loop_body_def split: if_splits option.splits)
next
  fix cs and r :: "((ServerError + unit) \<times> ('a, 'b, 'c, 'd, 'e) server) outcome"
  assume "case cs of (c, s) \<Rightarrow> c < DEBUG_HASH" and "event_loop_body E cs = Some (Inr r)"
  then show "\<exists>s'. r = Returns (Inr (), s') \<and> wd_done (world s')"
    by (auto simp: event_loop_body_def debug_counter_step split: if_splits option.splits)
qed (simp add: DEBUG_HASH_def)

text \<open>
  C37: The server's thread never panics: whatever the kernel, the containers and the other
  threads do, if \<open>start_server\<close> ends at all, it ends because the registration with UMCG was
  refused or because \<open>done\<close> was set; the \<open>expect\<close> on the result of the event loop and the
  overflow check of its counter are never reached.
\<close>
theorem start_server_never_panics:
  assumes "start_server E s = Some r"
  shows "\<exists>s'. r = Returns s' \<and>
    (wd_done (world s') \<or>
     fst (umcg_syscall (kernel E) 0 Cmd_RegisterServer 0 0 None 0
            (snd (a2_set_cpu_affinity (sched E) (srv_id s) (world s)))) \<noteq> 0)"
  using assms
  by (fastforce simp: start_server_def dest: event_loop_result split: prod.splits if_splits option.splits outcome.splits sum.splits)

theorem start_server_never_panics_witness:
  "\<exists>s'. start_server demo_env ((demo_server Waiting [] [] [])\<lparr>states := Map.empty, world := (world (demo_server Waiting [] [] []))\<lparr>wd_done := True\<rparr>\<rparr>)
     = Some (Returns s') \<and> wd_done (world s')"
  (is "\<exists>s'. start_server _ ?s = _ \<and> _")
proof -
  have "register_workers demo_env ?s = Some ?s"
    by (simp add: register_workers_def register_body_def loop_simps)
  moreover have "wait_for_start demo_env ?s = Some ?s"
    by (simp add: wait_for_start_def loop_simps demo_server_def)
  moreover have "run_event_loop demo_env ?s = Some (Returns (Inr (), ?s))"
    by (simp add: run_event_loop_def event_loop_body_def loop_simps)
  moreover have "umcg_syscall wait_kernel 0 Cmd_RegisterServer 0 0 None 0 w = (0, 0, None, w)"
    for w :: "(nat \<times> nat tracked_task list, nat, nat \<times> bool \<times> u64 list, unit) world"
    by (simp add: umcg_syscall_def wait_kernel_def Let_def)
  ultimately have r: "start_server demo_env ?s = Some (Returns ?s)"
    by (simp add: start_server_def)
  from start_server_never_panics [OF r] r show ?thesis by auto
qed

end
