(* ===== verification/A2_Worker.thy ===== *)
theory A2_Worker
  imports A2_Startup
begin

text \<open>
  The worker threads of \<open>src/attempt2.rs\<close> (\<open>Worker::spawn\<close>, \<open>Worker::start\<close>) and their
  creation by \<open>Executor::initialize_workers\<close>.
\<close>

subsection \<open>\<open>Worker::start\<close>\<close>

text \<open>
  The world of a worker holds its channel, which the server fills, and the rest.
  \<open>exec\<close> runs a task: it may change the world, panic, or never return (\<open>None\<close>).
\<close>

record ('t, 'x) worker_world =
  task_rx :: "'t WorkerTask mpsc"
  ww_ext :: 'x

record ('t, 'x) worker_env =
  wk_kernel :: "('t, 'x) worker_world kernel"
  exec_task :: "'t \<Rightarrow> ('t, 'x) worker_world \<Rightarrow> ('t, 'x) worker_world outcome option"

text \<open>The three system calls of a worker: no flags, no event buffer.\<close>

definition worker_ctl ::
  "('t, 'x) worker_env \<Rightarrow> UmcgCmd \<Rightarrow> u64 \<Rightarrow> ('t, 'x) worker_world \<Rightarrow> i64 \<times> ('t, 'x) worker_world" where
  "worker_ctl W cmd arg w =
     (case umcg_syscall (wk_kernel W) 0 cmd 0 arg None 0 w of (ret, _, _, w') \<Rightarrow> (ret, w'))"

text \<open>Waiting for work; a failed wait leaves the loop.\<close>

definition worker_wait ::
  "('t, 'x) worker_env \<Rightarrow> ('t, 'x) worker_world \<Rightarrow> ('t, 'x) worker_world + ('t, 'x) worker_world outcome" where
  "worker_wait W w =
     (case worker_ctl W Cmd_Wait 0 w of (wait_result, w') \<Rightarrow> if wait_result \<noteq> 0 then Inr (Returns w') else Inl w')"

definition worker_body ::
  "('t, 'x) worker_env \<Rightarrow> ('t, 'x) worker_world \<Rightarrow>
   (('t, 'x) worker_world + ('t, 'x) worker_world outcome) option" where
  "worker_body W w =
     (case mpsc_try_recv (task_rx w) of
        (RecvOk (Function task), rx) \<Rightarrow>
          (case exec_task W task (w\<lparr>task_rx := rx\<rparr>) of
             None \<Rightarrow> None
           | Some Panics \<Rightarrow> Some (Inr Panics)
           | Some (Returns w') \<Rightarrow> Some (worker_wait W w'))
      | (RecvOk Shutdown, rx) \<Rightarrow> Some (Inr (Returns (w\<lparr>task_rx := rx\<rparr>)))
      | (RecvEmpty, rx) \<Rightarrow> Some (worker_wait W (w\<lparr>task_rx := rx\<rparr>))
      | (RecvDisconnected, rx) \<Rightarrow> Some (Inr (Returns (w\<lparr>task_rx := rx\<rparr>))))"

definition worker_start ::
  "('t, 'x) worker_env \<Rightarrow> pid_t \<Rightarrow> ('t, 'x) worker_world \<Rightarrow> ('t, 'x) worker_world outcome option" where
  "worker_start W tid w =
     (case worker_ctl W Cmd_RegisterWorker (worker_id_of tid) w of
        (reg_result, w1) \<Rightarrow>
          if reg_result \<noteq> 0 then Some (Returns w1)
          else (case rust_loop (worker_body W) w1 of
                  None \<Rightarrow> None
                | Some Panics \<Rightarrow> Some Panics
                | Some (Returns w2) \<Rightarrow> Some (Returns (snd (worker_ctl W Cmd_Unregister 0 w2)))))"

subsection \<open>Spawning the workers of a server\<close>

record ExecutorConfig =
  cfg_worker_count :: nat
  cfg_server_count :: nat

definition ExecutorConfig_default :: ExecutorConfig where
  "ExecutorConfig_default = \<lparr>cfg_worker_count = 3, cfg_server_count = 1\<rparr>"

text \<open>The maps the threads fill, and the router they register with.\<close>

record ('t, 'd, 'q) spawn_state =
  sp_states :: "u64 \<Rightarrow> WorkerStatus option"
  sp_channels :: "u64 \<Rightarrow> 't WorkerTask mpsc option"
  sp_router :: "('d, 'q) server_router"

text \<open>What the thread of a worker does to the shared maps before \<open>start\<close>.\<close>

definition spawn ::
  "('d, u64, usize) dash_ops \<Rightarrow> usize \<Rightarrow> pid_t \<Rightarrow> ('t, 'd, 'q) spawn_state \<Rightarrow> ('t, 'd, 'q) spawn_state" where
  "spawn D server_id tid s =
     (let worker_id = worker_id_of tid in
      s\<lparr>sp_router := register_worker D worker_id server_id (sp_router s),
        sp_states := (sp_states s)(worker_id \<mapsto> Initializing),
        sp_channels := (sp_channels s)(worker_id \<mapsto> mpsc_channel)\<rparr>)"

text \<open>
  \<open>initialize_workers\<close> spawns \<open>worker_count\<close> threads and sleeps three seconds; \<open>tids\<close> are
  the threads that got to enter themselves by then, in the order they did. The maps are
  then copied, so a thread that comes later is not in the maps of its server.
\<close>

definition initialize_workers ::
  "('d, u64, usize) dash_ops \<Rightarrow> usize \<Rightarrow> pid_t list \<Rightarrow> ('d, 'q) server_router \<Rightarrow>
   (u64 \<Rightarrow> WorkerStatus option) \<times> (u64 \<Rightarrow> 't WorkerTask mpsc option) \<times> ('d, 'q) server_router" where
  "initialize_workers D cpu_id tids router =
     (let s = fold (spawn D cpu_id) tids \<lparr>sp_states = Map.empty, sp_channels = Map.empty, sp_router = router\<rparr>
      in (sp_states s, sp_channels s, sp_router s))"

text \<open>
  \<open>initialize_server_and_setup_workers\<close> creates the server and starts its thread; the
  thread's result is not joined.
\<close>

definition initialize_server_and_setup_workers ::
  "('p, 'm, 't, 'c, 'x) env \<Rightarrow> usize \<Rightarrow> (u64 \<Rightarrow> WorkerStatus option) \<Rightarrow> 'p worker_queues \<Rightarrow>
   ('d, 'q) server_router \<Rightarrow> ('m, 't, 'c, 'x) world \<Rightarrow> ('p, 'm, 't, 'c, 'x) server outcome option" where
  "initialize_server_and_setup_workers E server_id sts wqs router w =
     (case Server_new server_id sts wqs router w of
        Panics \<Rightarrow> Some Panics
      | Returns s \<Rightarrow> start_server E s)"

subsection \<open>A worker with work queued\<close>

text \<open>A worker environment in which waits succeed and no one else touches the channel.\<close>

locale steady_worker =
  fixes W :: "('t, 'x) worker_env" and run :: "'t \<Rightarrow> 'x \<Rightarrow> 'x" and ctl :: "UmcgCmd \<Rightarrow> u64 \<Rightarrow> 'x \<Rightarrow> 'x"
  assumes ctl_ok: "worker_ctl W cmd arg w = (0, w\<lparr>ww_ext := ctl cmd arg (ww_ext w)\<rparr>)"
    and exec_ok: "exec_task W t w = Some (Returns (w\<lparr>ww_ext := run t (ww_ext w)\<rparr>))"
begin

definition run_and_wait :: "'t \<Rightarrow> 'x \<Rightarrow> 'x" where
  "run_and_wait t x = ctl Cmd_Wait 0 (run t x)"

lemma body_function:
  assumes "mpsc_buf (task_rx w) = Function t # ms"
  shows "worker_body W w = Some (Inl (w\<lparr>task_rx := (task_rx w)\<lparr>mpsc_buf := ms\<rparr>, ww_ext := run_and_wait t (ww_ext w)\<rparr>))"
  using assms by (simp add: worker_body_def mpsc_try_recv_def exec_ok worker_wait_def ctl_ok run_and_wait_def)

lemma body_shutdown:
  assumes "mpsc_buf (task_rx w) = Shutdown # ms"
  shows "worker_body W w = Some (Inr (Returns (w\<lparr>task_rx := (task_rx w)\<lparr>mpsc_buf := ms\<rparr>\<rparr>)))"
  using assms by (simp add: worker_body_def mpsc_try_recv_def)

lemma loop_runs_tasks:
  assumes "mpsc_buf (task_rx w) = map Function ts @ Shutdown # ms"
  shows "rust_loop (worker_body W) w =
    Some (Returns (w\<lparr>task_rx := (task_rx w)\<lparr>mpsc_buf := ms\<rparr>, ww_ext := fold run_and_wait ts (ww_ext w)\<rparr>))"
  using assms
proof (induction ts arbitrary: w)
  case Nil
  then show ?case by (simp add: body_shutdown loop_simps)
next
  case (Cons t ts)
  let ?w = "w\<lparr>task_rx := (task_rx w)\<lparr>mpsc_buf := map Function ts @ Shutdown # ms\<rparr>, ww_ext := run_and_wait t (ww_ext w)\<rparr>"
  have "rust_loop (worker_body W) w = rust_loop (worker_body W) ?w"
    by (rule rust_loop_continue, rule body_function) (use Cons.prems in simp)
  also have "\<dots> = Some (Returns (?w\<lparr>task_rx := (task_rx ?w)\<lparr>mpsc_buf := ms\<rparr>, ww_ext := fold run_and_wait ts (ww_ext ?w)\<rparr>))"
    by (rule Cons.IH) simp
  finally show ?case by simp
qed

lemma start_runs_tasks:
  assumes "mpsc_buf (task_rx w) = map Function ts @ Shutdown # ms"
  shows "worker_start W tid w = Some (Returns (w\<lparr>task_rx := (task_rx w)\<lparr>mpsc_buf := ms\<rparr>,
    ww_ext := ctl Cmd_Unregister 0 (fold run_and_wait ts (ctl Cmd_RegisterWorker (worker_id_of tid) (ww_ext w)))\<rparr>))"
proof -
  let ?w = "w\<lparr>ww_ext := ctl Cmd_RegisterWorker (worker_id_of tid) (ww_ext w)\<rparr>"
  have "mpsc_buf (task_rx ?w) = map Function ts @ Shutdown # ms" using assms by simp
  from loop_runs_tasks [OF this] show ?thesis by (simp add: worker_start_def ctl_ok)
qed

end

text \<open>A trace of what a worker does: commands by number, tasks by their own number.\<close>

definition trace_worker :: "(nat, (nat + u64) list) worker_env" where
  "trace_worker = \<lparr>wk_kernel = (\<lambda>args buf w. \<lparr>sr_ret = 0, sr_errno = 0, sr_written = [],
       sr_world = w\<lparr>ww_ext := ww_ext w @ [Inr (a_cmd args)]\<rparr>\<rparr>),
     exec_task = (\<lambda>t w. Some (Returns (w\<lparr>ww_ext := ww_ext w @ [Inl t]\<rparr>)))\<rparr>"

interpretation trace_worker: steady_worker trace_worker "\<lambda>t x. x @ [Inl t]" "\<lambda>cmd arg x. x @ [Inr (cmd_u64 cmd)]"
  by unfold_locales (simp_all add: trace_worker_def worker_ctl_def umcg_syscall_def Let_def)

subsection \<open>The maps of a server's workers\<close>

lemma spawn_fold:
  "fold (spawn D i) tids s = s\<lparr>
     sp_states := (\<lambda>w. if w \<in> worker_id_of ` set tids then Some Initializing else sp_states s w),
     sp_channels := (\<lambda>w. if w \<in> worker_id_of ` set tids then Some mpsc_channel else sp_channels s w),
     sp_router := fold (\<lambda>t. register_worker D (worker_id_of t) i) tids (sp_router s)\<rparr>"
  by (induction tids arbitrary: s) (auto simp: spawn_def Let_def fun_eq_iff)

lemma register_fold:
  assumes "dash_map D lookup"
  shows "lookup (worker_assignments (fold (\<lambda>t. register_worker D (worker_id_of t) i) tids r)) w =
      (if w \<in> worker_id_of ` set tids then Some i else lookup (worker_assignments r) w) \<and>
    server_queues (fold (\<lambda>t. register_worker D (worker_id_of t) i) tids r) = server_queues r"
  by (induction tids arbitrary: r) (auto simp: register_worker_def dash_map.map_simps [OF assms])

lemma initialize_workers_maps:
  assumes "initialize_workers D i tids router = (sts, chans, router')"
  shows "sts = (\<lambda>w. if w \<in> worker_id_of ` set tids then Some Initializing else None)"
    and "chans = (\<lambda>w. if w \<in> worker_id_of ` set tids then Some mpsc_channel else None)"
    and "router' = fold (\<lambda>t. register_worker D (worker_id_of t) i) tids router"
  using assms by (auto simp: initialize_workers_def spawn_fold Let_def)

lemma worker_id_of_inject [simp]: "worker_id_of s = worker_id_of t \<longleftrightarrow> s = t"
  by (metis worker_tid_of_id)

subsection \<open>Properties\<close>

text \<open>
  C15: A worker runs exactly the tasks it was sent, in order. If its channel holds tasks
  \<open>ts\<close> followed by \<open>Shutdown\<close>, its system calls succeed and its tasks return, the thread
  ends normally after: registering the worker id of its thread, running each task of
  \<open>ts\<close> once in the order of the channel with one wait after each, and unregistering.
  What came after \<open>Shutdown\<close> stays in the channel.
\<close>
theorem worker_runs_tasks_in_order:
  assumes "\<And>cmd arg w. worker_ctl W cmd arg w = (0, w\<lparr>ww_ext := ctl cmd arg (ww_ext w)\<rparr>)"
    and "\<And>t w. exec_task W t w = Some (Returns (w\<lparr>ww_ext := run t (ww_ext w)\<rparr>))"
    and "mpsc_buf (task_rx w) = map Function ts @ Shutdown # ms"
  shows "worker_start W tid w = Some (Returns (w\<lparr>task_rx := (task_rx w)\<lparr>mpsc_buf := ms\<rparr>,
    ww_ext := ctl Cmd_Unregister 0
      (fold (\<lambda>t x. ctl Cmd_Wait 0 (run t x)) ts (ctl Cmd_RegisterWorker (worker_id_of tid) (ww_ext w)))\<rparr>))"
proof -
  have sw: "steady_worker W run ctl" using assms(1,2) by (rule steady_worker.intro)
  have "steady_worker.run_and_wait run ctl = (\<lambda>t x. ctl Cmd_Wait 0 (run t x))"
    by (intro ext) (rule steady_worker.run_and_wait_def [OF sw])
  with steady_worker.start_runs_tasks [OF sw assms(3)] show ?thesis by simp
qed

theorem worker_runs_tasks_in_order_witness:
  "worker_start trace_worker 4 \<lparr>task_rx = \<lparr>mpsc_buf = [Function 10, Function 11, Shutdown], mpsc_rx = True, mpsc_tx = True\<rparr>, ww_ext = []\<rparr>
   = Some (Returns \<lparr>task_rx = \<lparr>mpsc_buf = [], mpsc_rx = True, mpsc_tx = True\<rparr>,
       ww_ext = [Inr 1, Inl 10, Inr 5, Inl 11, Inr 5, Inr 3]\<rparr>)"
  using worker_runs_tasks_in_order [OF trace_worker.ctl_ok trace_worker.exec_ok,
      of "\<lparr>task_rx = \<lparr>mpsc_buf = [Function 10, Function 11, Shutdown], mpsc_rx = True, mpsc_tx = True\<rparr>, ww_ext = []\<rparr>" "[10, 11]" "[]" 4]
  by simp

text \<open>
  The maps \<open>initialize_workers\<close> hands to a server agree with each other and with the
  router: the workers are exactly the shifted ids of the threads that entered themselves
  in time, as many as there are such threads; each is initializing and has an empty
  channel; the router sends their events to this server and its queues are unchanged.
  A server created on these maps with queues of at least that capacity satisfies the
  server's invariant, so registration can start.
\<close>
lemma initialize_workers_agree:
  assumes "dash_map D lookup" and "distinct tids"
    and "initialize_workers D i tids router = (sts, chans, router')"
    and "array_queue Q items cap" and "length tids \<le> c" and "0 < c"
    and "WorkerQueues_new Q c = Returns wqs"
  shows "dom sts = worker_id_of ` set tids \<and> dom chans = dom sts \<and> card (dom sts) = length tids \<and>
    (\<forall>w \<in> dom sts. sts w = Some Initializing \<and> chans w = Some mpsc_channel \<and>
       lookup (worker_assignments router') w = Some i) \<and>
    server_queues router' = server_queues router \<and>
    server_inv items cap \<lparr>srv_id = i, states = sts, worker_queues = wqs,
      world = \<lparr>wd_tasks = m, wd_channels = chans, wd_events = ev, wd_done = d, wd_wait = b, wd_ext = x\<rparr>\<rparr>"
proof -
  note eq = initialize_workers_maps [OF assms(3)]
  have dom: "dom sts = worker_id_of ` set tids" "dom chans = worker_id_of ` set tids"
    by (auto simp: eq dom_def)
  have "inj worker_id_of" by (simp add: inj_on_def)
  then have card: "card (dom sts) = length tids"
    unfolding dom using assms(2) by (metis card_image distinct_card inj_on_subset subset_UNIV)
  have busy: "busy sts = {}" by (auto simp: busy_def eq)
  from assms(6,7) have wqs: "wqs = \<lparr>pending = q_new Q c, running = q_new Q c, preempted = q_new Q c\<rparr>"
    by (simp add: WorkerQueues_new_def)
  note q = array_queue.items_new [OF assms(4,6)] array_queue.cap_new [OF assms(4,6)]
  show ?thesis
    using dom card busy assms(5) register_fold [OF assms(1), of i tids router]
    by (auto simp: eq server_inv_def wqs q)
qed

lemma initialize_workers_agree_example:
  "\<exists>sts chans router'. initialize_workers fun_map 0 [4, 9]
      \<lparr>worker_assignments = Map.empty, server_queues = Map.empty :: usize \<Rightarrow> nat server_queue option\<rparr> = (sts, chans, router') \<and>
    dom sts = {128, 288} \<and> (chans 288 :: nat WorkerTask mpsc option) = Some mpsc_channel"
proof -
  have ids: "worker_id_of 4 = 128" "worker_id_of 9 = 288"
    by (simp_all add: worker_id_of_def UMCG_WORKER_ID_SHIFT_def)
  obtain sts and chans :: "u64 \<Rightarrow> nat WorkerTask mpsc option" and router' where
    eq: "initialize_workers fun_map 0 [4, 9] \<lparr>worker_assignments = Map.empty, server_queues = Map.empty :: usize \<Rightarrow> nat server_queue option\<rparr>
      = (sts, chans, router')" by (metis prod_cases3)
  have "WorkerQueues_new list_queue 3 = Returns \<lparr>pending = (3, []), running = (3, []), preempted = (3, [])\<rparr>"
    by (simp add: WorkerQueues_new_def)
  from initialize_workers_agree [OF fun_map.dash_map_axioms _ eq list_queue.array_queue_axioms _ _ this,
      where m = "()" and ev = "()" and d = False and b = False and x = "()"] ids
  have "dom sts = {128, 288}" "\<forall>w \<in> dom sts. chans w = Some mpsc_channel" by auto
  with eq show ?thesis by auto
qed

end
