(* ===== verification/A2_Demo.thy ===== *)
theory A2_Demo
  imports A2_Worker
begin

text \<open>
  The demo of \<open>src/attempt2.rs\<close> that the program runs (\<open>run_dynamic_task_attempt2_demo\<close>): it
  sets the servers up one after the other, waits until all workers of each are ready,
  collects the map of the event routing thread, submits tasks and waits for their
  completion.
\<close>

subsection \<open>Setting the servers up\<close>

text \<open>
  What the setup shares with the threads it starts: the status map of each server, which
  the server's thread changes, and the router.
\<close>

record ('d, 'q, 'x) demo_world =
  dw_states :: "usize \<Rightarrow> u64 \<Rightarrow> WorkerStatus option"
  dw_router :: "('d, 'q) server_router"
  dw_ext :: 'x

text \<open>
  Outside the sources: the map, the threads of a server that have entered themselves when
  \<open>initialize_workers\<close> copies the maps, the start of the server's thread, what happens
  during a sleep, and the order in which a \<open>HashMap\<close> is walked.
\<close>

record ('d, 'q, 'x) demo_env =
  de_map :: "('d, u64, usize) dash_ops"
  de_spawned :: "usize \<Rightarrow> ('d, 'q, 'x) demo_world \<Rightarrow> pid_t list"
  de_start :: "usize \<Rightarrow> ('d, 'q, 'x) demo_world \<Rightarrow> ('d, 'q, 'x) demo_world"
  de_sleep :: "('d, 'q, 'x) demo_world \<Rightarrow> ('d, 'q, 'x) demo_world"
  de_order :: "(u64 \<Rightarrow> WorkerStatus option) \<Rightarrow> u64 list"

definition ready_workers :: "((u64 \<Rightarrow> WorkerStatus option) \<Rightarrow> u64 list) \<Rightarrow> (u64 \<Rightarrow> WorkerStatus option) \<Rightarrow> u64 list" where
  "ready_workers order sts = filter (\<lambda>w. sts w = Some Waiting) (order sts)"

definition insert_all :: "u64 \<Rightarrow> u64 list \<Rightarrow> (u64 \<Rightarrow> u64 option) \<Rightarrow> u64 \<Rightarrow> u64 option" where
  "insert_all server_id ws m = fold (\<lambda>w m. m(w \<mapsto> server_id)) ws m"

text \<open>One look at the status map, and the wait for \<open>worker_count\<close> ready workers.\<close>

definition ready_body ::
  "('d, 'q, 'x) demo_env \<Rightarrow> nat \<Rightarrow> usize \<Rightarrow> (u64 \<Rightarrow> u64 option) \<Rightarrow> ('d, 'q, 'x) demo_world \<Rightarrow>
   (('d, 'q, 'x) demo_world + (u64 \<Rightarrow> u64 option) \<times> ('d, 'q, 'x) demo_world) option" where
  "ready_body E worker_count server_id m y =
     (let ready = ready_workers (de_order E) (dw_states y server_id) in
      if length ready = worker_count then Some (Inr (insert_all server_id ready m, y))
      else Some (Inl (de_sleep E y)))"

definition wait_all_ready ::
  "('d, 'q, 'x) demo_env \<Rightarrow> nat \<Rightarrow> usize \<Rightarrow> (u64 \<Rightarrow> u64 option) \<Rightarrow> ('d, 'q, 'x) demo_world \<Rightarrow>
   ((u64 \<Rightarrow> u64 option) \<times> ('d, 'q, 'x) demo_world) option" where
  "wait_all_ready E worker_count server_id m = rust_loop (ready_body E worker_count server_id m)"

text \<open>The iteration of the setup loop for one server.\<close>

definition setup_server ::
  "('d, 'q, 'x) demo_env \<Rightarrow> nat \<Rightarrow> usize \<Rightarrow> (u64 \<Rightarrow> u64 option) \<times> ('d, 'q, 'x) demo_world \<Rightarrow>
   ((u64 \<Rightarrow> u64 option) \<times> ('d, 'q, 'x) demo_world) option" where
  "setup_server E worker_count server_id = (\<lambda>(m, y).
     case initialize_workers (de_map E) server_id (de_spawned E server_id y) (dw_router y) of
       (sts, _ :: u64 \<Rightarrow> unit WorkerTask mpsc option, router) \<Rightarrow>
         wait_all_ready E worker_count server_id m
           (de_start E server_id (y\<lparr>dw_states := (dw_states y)(server_id := sts), dw_router := router\<rparr>)))"

primrec setup_servers ::
  "('d, 'q, 'x) demo_env \<Rightarrow> nat \<Rightarrow> usize list \<Rightarrow> (u64 \<Rightarrow> u64 option) \<times> ('d, 'q, 'x) demo_world \<Rightarrow>
   ((u64 \<Rightarrow> u64 option) \<times> ('d, 'q, 'x) demo_world) option" where
  "setup_servers E worker_count [] s = Some s"
| "setup_servers E worker_count (i # is) s =
     Option.bind (setup_server E worker_count i s) (setup_servers E worker_count is)"

text \<open>From the start of the demo to the event routing server.\<close>

definition demo_setup ::
  "('d, 'q, 'x) demo_env \<Rightarrow> nat \<Rightarrow> nat \<Rightarrow> ('d, 'q, 'x) demo_world \<Rightarrow> (routing_server \<times> ('d, 'q, 'x) demo_world) option" where
  "demo_setup E worker_count server_count y =
     map_option (\<lambda>(m, y'). (EventRoutingServer_new (of_nat server_count) m, y'))
       (setup_servers E worker_count (map of_nat [0..<server_count]) (Map.empty, y))"

subsection \<open>Submitting and waiting\<close>

text \<open>The ten initial tasks; each will submit a child task.\<close>

datatype demo_task = Parent nat | Child nat

definition submit_initial ::
  "('m, demo_task wrapped_task) manage_task_ops \<Rightarrow> (nat \<Rightarrow> uuid) \<Rightarrow> (nat \<Rightarrow> nat) \<Rightarrow> 'm \<times> a2_stats \<Rightarrow> 'm \<times> a2_stats" where
  "submit_initial M new_v4 now = fold (\<lambda>i. submit M (new_v4 i) (now i) ''dynamic_parent_task'' (Parent i)) [0..<10]"

definition exec_demo ::
  "('m, demo_task wrapped_task) manage_task_ops \<Rightarrow> (nat \<Rightarrow> uuid) \<Rightarrow> (nat \<Rightarrow> nat) \<Rightarrow> demo_task \<Rightarrow> 'm \<times> a2_stats \<Rightarrow> 'm \<times> a2_stats" where
  "exec_demo M new_v4 now t s =
     (case t of
        Parent i \<Rightarrow> submit M (new_v4 i) (now i) ''dynamic_child_task'' (Child i) s
      | Child i \<Rightarrow> s)"

text \<open>The wait for completion: thirty seconds at most; \<open>done\<close> is set in both cases.\<close>

definition completion_body ::
  "('y \<Rightarrow> nat) \<Rightarrow> ('y \<Rightarrow> a2_stats) \<Rightarrow> ('y \<Rightarrow> 'y) \<Rightarrow> ('y \<Rightarrow> 'y) \<Rightarrow> 'y \<Rightarrow> ('y + i32 \<times> 'y) option" where
  "completion_body elapsed task_stats set_done sleep y =
     (if all_tasks_completed (task_stats y) then Some (Inr (0, set_done y))
      else if elapsed y > 30 * 1000000000 then Some (Inr (1, set_done y))
      else Some (Inl (sleep y)))"

definition wait_for_completion ::
  "('y \<Rightarrow> nat) \<Rightarrow> ('y \<Rightarrow> a2_stats) \<Rightarrow> ('y \<Rightarrow> 'y) \<Rightarrow> ('y \<Rightarrow> 'y) \<Rightarrow> 'y \<Rightarrow> (i32 \<times> 'y) option" where
  "wait_for_completion elapsed task_stats set_done sleep = rust_loop (completion_body elapsed task_stats set_done sleep)"

subsection \<open>What the setup relies on\<close>

text \<open>
  Walking a map gives each of its keys once; sleeping and starting a server's thread keep
  the keys of the status maps and the router; the threads of different servers have
  different ids, and a server has at most \<open>count\<close> threads.
\<close>

locale demo_setting = dash_map "de_map E" lookup
  for E :: "('d, 'q, 'x) demo_env" and lookup :: "'d \<Rightarrow> u64 \<Rightarrow> usize option" +
  fixes threads :: "usize \<Rightarrow> pid_t set" and count :: nat
  assumes order_keys: "finite (dom sts) \<Longrightarrow> set (de_order E sts) = dom sts \<and> distinct (de_order E sts)"
    and sleep_keeps: "dom (dw_states (de_sleep E y) i) = dom (dw_states y i) \<and> dw_router (de_sleep E y) = dw_router y"
    and start_keeps: "dom (dw_states (de_start E j y) i) = dom (dw_states y i) \<and> dw_router (de_start E j y) = dw_router y"
    and spawned: "set (de_spawned E i y) \<subseteq> threads i \<and> distinct (de_spawned E i y) \<and> length (de_spawned E i y) \<le> count"
    and own_threads: "i \<noteq> j \<Longrightarrow> threads i \<inter> threads j = {}"
begin

lemma insert_all_eq: "insert_all i ws m = (\<lambda>w. if w \<in> set ws then Some i else m w)"
  unfolding insert_all_def by (induction ws arbitrary: m) (auto simp: fun_eq_iff)

lemma ready_subset:
  assumes "finite (dom sts)"
  shows "set (ready_workers (de_order E) sts) \<subseteq> dom sts" and "distinct (ready_workers (de_order E) sts)"
  using order_keys [OF assms] by (auto simp: ready_workers_def)

lemma wait_ready_result:
  assumes "wait_all_ready E n i m y = Some (m', y')" and "finite (dom (dw_states y i))" and "card (dom (dw_states y i)) \<le> n"
  shows "m' = (\<lambda>w. if w \<in> dom (dw_states y i) then Some i else m w) \<and> card (dom (dw_states y i)) = n \<and>
    (\<forall>j. dom (dw_states y' j) = dom (dw_states y j)) \<and> dw_router y' = dw_router y \<and>
    (\<forall>w \<in> dom (dw_states y i). dw_states y' i w = Some Waiting)"
proof -
  let ?P = "\<lambda>z. (\<forall>j. dom (dw_states z j) = dom (dw_states y j)) \<and> dw_router z = dw_router y"
  let ?Q = "\<lambda>(m', y'). m' = (\<lambda>w. if w \<in> dom (dw_states y i) then Some i else m w) \<and> card (dom (dw_states y i)) = n \<and>
    (\<forall>j. dom (dw_states y' j) = dom (dw_states y j)) \<and> dw_router y' = dw_router y \<and>
    (\<forall>w \<in> dom (dw_states y i). dw_states y' i w = Some Waiting)"
  have "?Q (m', y')"
  proof (rule rust_loop_invariant [OF assms(1) [unfolded wait_all_ready_def], where P = ?P])
    fix z z' assume "?P z" "ready_body E n i m z = Some (Inl z')"
    then show "?P z'" using sleep_keeps [of z] by (auto simp: ready_body_def Let_def split: if_splits)
  next
    fix z r assume z: "?P z" and b: "ready_body E n i m z = Some (Inr r)"
    let ?r = "ready_workers (de_order E) (dw_states z i)"
    from b have r: "r = (insert_all i ?r m, z)" and len: "length ?r = n"
      by (auto simp: ready_body_def Let_def split: if_splits)
    have dom: "dom (dw_states z i) = dom (dw_states y i)" using z by blast
    then have fin: "finite (dom (dw_states z i))" using assms(2) by simp
    have sub: "set ?r \<subseteq> dom (dw_states y i)" using ready_subset(1) [OF fin] dom by simp
    have "card (set ?r) = n" using distinct_card [OF ready_subset(2) [OF fin]] len by simp
    with card_subset_eq [OF assms(2) sub] card_mono [OF assms(2) sub] assms(3)
    have all: "set ?r = dom (dw_states y i)" and c: "card (dom (dw_states y i)) = n" by auto
    from all have "\<forall>w \<in> dom (dw_states y i). dw_states z i w = Some Waiting" by (auto simp: ready_workers_def)
    with z c show "?Q r" unfolding r insert_all_eq all by simp
  qed simp
  then show ?thesis by simp
qed

lemma wait_ready_hangs:
  assumes "finite (dom (dw_states y i))" and "card (dom (dw_states y i)) < n"
  shows "wait_all_ready E n i m y = None"
  unfolding wait_all_ready_def
proof (rule rust_loop_diverges [where P = "\<lambda>z. dom (dw_states z i) = dom (dw_states y i)"])
  fix z :: "('d, 'q, 'x) demo_world"
  assume z: "dom (dw_states z i) = dom (dw_states y i)"
  then have fin: "finite (dom (dw_states z i))" using assms(1) by simp
  have "length (ready_workers (de_order E) (dw_states z i)) \<le> card (dom (dw_states y i))"
    using card_mono [OF fin ready_subset(1) [OF fin]] distinct_card [OF ready_subset(2) [OF fin]] z by simp
  with assms(2) sleep_keeps [of z i] z
  show "\<exists>z'. ready_body E n i m z = Some (Inl z') \<and> dom (dw_states z' i) = dom (dw_states y i)"
    by (simp add: ready_body_def Let_def)
qed simp

lemma ready_break:
  assumes "finite (dom (dw_states y i))" and "card (dom (dw_states y i)) = n"
    and "\<forall>w \<in> dom (dw_states y i). dw_states y i w = Some Waiting"
  shows "\<exists>r. ready_body E n i m y = Some (Inr r)"
proof -
  have "ready_workers (de_order E) (dw_states y i) = de_order E (dw_states y i)"
    unfolding ready_workers_def using assms(3) order_keys [OF assms(1)] by (auto simp: filter_id_conv)
  then have "length (ready_workers (de_order E) (dw_states y i)) = n"
    using order_keys [OF assms(1)] distinct_card assms(2) by metis
  then show ?thesis by (simp add: ready_body_def Let_def)
qed

lemma wait_ready_returns:
  assumes "finite (dom (dw_states y i))" and "card (dom (dw_states y i)) = n"
    and "\<forall>w \<in> dom (dw_states y i). dw_states ((de_sleep E ^^ k) y) i w = Some Waiting"
  shows "\<exists>r. wait_all_ready E n i m y = Some r"
  using assms
proof (induction k arbitrary: y)
  case 0
  from ready_break [of y i n m] 0 show ?case by (auto simp: wait_all_ready_def loop_simps)
next
  case (Suc k)
  show ?case
  proof (cases "\<exists>r. ready_body E n i m y = Some (Inr r)")
    case True
    then show ?thesis by (auto simp: wait_all_ready_def loop_simps)
  next
    case False
    then have "ready_body E n i m y = Some (Inl (de_sleep E y))" by (auto simp: ready_body_def Let_def split: if_splits)
    then have "wait_all_ready E n i m y = wait_all_ready E n i m (de_sleep E y)" by (simp add: wait_all_ready_def loop_simps)
    moreover have "\<exists>r. wait_all_ready E n i m (de_sleep E y) = Some r"
      using sleep_keeps [of y i] Suc.prems by (intro Suc.IH) (simp_all add: funpow_swap1)
    ultimately show ?thesis by simp
  qed
qed

lemma wait_ready_state:
  assumes "wait_all_ready E n i m y = Some (m', y')"
  shows "\<exists>k. y' = (de_sleep E ^^ k) y"
proof -
  have "\<exists>k. snd (m', y') = (de_sleep E ^^ k) y"
  proof (rule rust_loop_invariant [OF assms [unfolded wait_all_ready_def], where P = "\<lambda>z. \<exists>k. z = (de_sleep E ^^ k) y"])
    show "\<exists>k. y = (de_sleep E ^^ k) y" by (rule exI [of _ 0]) simp
  next
    fix z z' assume "\<exists>k. z = (de_sleep E ^^ k) y" "ready_body E n i m z = Some (Inl z')"
    then obtain k where "z' = de_sleep E ((de_sleep E ^^ k) y)" by (auto simp: ready_body_def Let_def split: if_splits)
    then show "\<exists>k. z' = (de_sleep E ^^ k) y" by (intro exI [of _ "Suc k"]) simp
  next
    fix z r assume "\<exists>k. z = (de_sleep E ^^ k) y" "ready_body E n i m z = Some (Inr r)"
    then show "\<exists>k. snd r = (de_sleep E ^^ k) y" by (auto simp: ready_body_def Let_def split: if_splits)
  qed
  then show ?thesis by simp
qed

text \<open>The servers of \<open>done\<close> are set up: the two maps agree and know no other worker.\<close>

definition agreed :: "usize set \<Rightarrow> (u64 \<Rightarrow> u64 option) \<Rightarrow> ('d, 'q, 'x) demo_world \<Rightarrow> bool" where
  "agreed done m y \<longleftrightarrow> (\<forall>i. dom (dw_states y i) \<subseteq> worker_id_of ` threads i) \<and> (\<forall>i. i \<notin> done \<longrightarrow> dom (dw_states y i) = {}) \<and>
     (\<forall>i \<in> done. card (dom (dw_states y i)) = count) \<and>
     m = (\<lambda>w. if \<exists>i \<in> done. w \<in> dom (dw_states y i) then lookup (worker_assignments (dw_router y)) w else None) \<and>
     (\<forall>i \<in> done. \<forall>w \<in> dom (dw_states y i). lookup (worker_assignments (dw_router y)) w = Some i)"

lemma setup_server_agreed:
  assumes "agreed done m y" and "i \<notin> done" and "setup_server E count i (m, y) = Some (m', y')"
  shows "agreed (insert i done) m' y'"
proof -
  let ?ts = "de_spawned E i y"
  obtain sts router and chans :: "u64 \<Rightarrow> unit WorkerTask mpsc option" where
    init: "initialize_workers (de_map E) i ?ts (dw_router y) = (sts, chans, router)" by (metis prod_cases3)
  let ?y = "y\<lparr>dw_states := (dw_states y)(i := sts), dw_router := router\<rparr>"
  have dm: "dash_map (de_map E) lookup" by unfold_locales
  have sts: "dom sts = worker_id_of ` set ?ts" unfolding initialize_workers_maps(1) [OF init] by (auto simp: dom_def)
  note router = initialize_workers_maps(3) [OF init]
  have lookup: "lookup (worker_assignments router) w =
      (if w \<in> dom sts then Some i else lookup (worker_assignments (dw_router y)) w)" for w
    unfolding router sts using register_fold [OF dm, of i ?ts "dw_router y" w] by simp
  let ?z = "de_start E i ?y"
  have z: "dom (dw_states ?z j) = (if j = i then dom sts else dom (dw_states y j))" "dw_router ?z = router" for j
    using start_keeps [of i ?y j] by simp_all
  have w: "wait_all_ready E count i m ?z = Some (m', y')" using assms(3) by (simp add: setup_server_def init)
  have fin: "finite (dom (dw_states ?z i))" by (simp add: z sts)
  have "card (dom sts) \<le> count"
    unfolding sts using card_image_le [of "set ?ts" worker_id_of] card_length [of ?ts] spawned [of i y] by simp
  then have "card (dom (dw_states ?z i)) \<le> count" by (simp add: z)
  from wait_ready_result [OF w fin this] z
  have m': "m' = (\<lambda>w. if w \<in> dom sts then Some i else m w)" and c: "card (dom sts) = count"
    and dom: "\<And>j. dom (dw_states y' j) = (if j = i then dom sts else dom (dw_states y j))" and rt: "dw_router y' = router"
    by auto
  have own: "dom sts \<subseteq> worker_id_of ` threads i" unfolding sts using spawned [of i y] by auto
  from assms(1) have a1: "dom (dw_states y j) \<subseteq> worker_id_of ` threads j" and a2: "j \<notin> done \<Longrightarrow> dom (dw_states y j) = {}"
    and a3: "j \<in> done \<Longrightarrow> card (dom (dw_states y j)) = count"
    and a4: "m w = (if \<exists>i \<in> done. w \<in> dom (dw_states y i) then lookup (worker_assignments (dw_router y)) w else None)"
    and a5: "j \<in> done \<Longrightarrow> w \<in> dom (dw_states y j) \<Longrightarrow> lookup (worker_assignments (dw_router y)) w = Some j" for j w
    unfolding agreed_def by blast+
  have other: "w \<notin> dom sts" if "j \<noteq> i" "w \<in> dom (dw_states y j)" for j w
  proof -
    have "worker_id_of ` threads i \<inter> worker_id_of ` threads j = {}" using own_threads [of i j] that(1) by auto
    with own a1 [of j] that(2) show ?thesis by blast
  qed
  have "m' = (\<lambda>w. if \<exists>j \<in> insert i done. w \<in> dom (dw_states y' j) then lookup (worker_assignments router) w else None)"
  proof (rule ext)
    fix w
    have "(\<exists>j \<in> insert i done. w \<in> dom (dw_states y' j)) \<longleftrightarrow> w \<in> dom sts \<or> (\<exists>j \<in> done. w \<in> dom (dw_states y j))"
      unfolding dom using assms(2) by (metis insert_iff)
    then show "m' w = (if \<exists>j \<in> insert i done. w \<in> dom (dw_states y' j) then lookup (worker_assignments router) w else None)"
      by (cases "w \<in> dom sts") (simp_all only: m' lookup a4 if_True if_False simp_thms)
  qed
  moreover have "lookup (worker_assignments router) w = Some j" if "j \<in> insert i done" "w \<in> dom (dw_states y' j)" for j w
    using that a5 other unfolding dom lookup by (cases "j = i") simp_all
  moreover have "card (dom (dw_states y' j)) = count" if "j \<in> insert i done" for j
    using that c a3 unfolding dom by (cases "j = i") simp_all
  ultimately show ?thesis
    unfolding agreed_def rt dom using own a1 a2 by (intro conjI allI impI ballI) simp_all
qed

lemma setup_servers_agreed:
  assumes "agreed done m y" and "distinct is" and "done \<inter> set is = {}" and "setup_servers E count is (m, y) = Some (m', y')"
  shows "agreed (done \<union> set is) m' y'"
  using assms
proof (induction "is" arbitrary: "done" m y)
  case (Cons i "is")
  from Cons.prems(4) obtain m1 y1 where s: "setup_server E count i (m, y) = Some (m1, y1)"
    and rest: "setup_servers E count is (m1, y1) = Some (m', y')" by (auto simp: bind_eq_Some_conv)
  from setup_server_agreed [OF Cons.prems(1) _ s] Cons.prems(3) have "agreed (insert i done) m1 y1" by simp
  from Cons.IH [OF this _ _ rest] Cons.prems(2,3) show ?case by simp
qed simp

lemma agreed_maps:
  assumes "agreed done m y"
  shows "i \<in> done \<Longrightarrow> card (dom (dw_states y i)) = count"
    and "i \<in> done \<Longrightarrow> w \<in> dom (dw_states y i) \<Longrightarrow> m w = Some i \<and> lookup (worker_assignments (dw_router y)) w = Some i"
    and "dom m = (\<Union>i \<in> done. dom (dw_states y i))"
proof -
  from assms have c: "\<forall>i \<in> done. card (dom (dw_states y i)) = count"
    and m: "m w = (if \<exists>i \<in> done. w \<in> dom (dw_states y i) then lookup (worker_assignments (dw_router y)) w else None)"
    and l: "i \<in> done \<Longrightarrow> w \<in> dom (dw_states y i) \<Longrightarrow> lookup (worker_assignments (dw_router y)) w = Some i" for i w
    unfolding agreed_def by blast+
  show "i \<in> done \<Longrightarrow> card (dom (dw_states y i)) = count" using c by blast
  show *: "i \<in> done \<Longrightarrow> w \<in> dom (dw_states y i) \<Longrightarrow> m w = Some i \<and> lookup (worker_assignments (dw_router y)) w = Some i" for i w
    using m l by metis
  have "m w \<noteq> None \<longleftrightarrow> (\<exists>i \<in> done. w \<in> dom (dw_states y i))" for w
    using m [of w] * by (metis option.discI)
  then show "dom m = (\<Union>i \<in> done. dom (dw_states y i))" unfolding dom_def [of m] by blast
qed

lemma agreed_start: "\<forall>i. dw_states y i = Map.empty \<Longrightarrow> agreed {} Map.empty y"
  by (simp add: agreed_def)

end

subsection \<open>A concrete demo\<close>

text \<open>Two servers with the threads 4, 5 and 6, 7, whose workers are all waiting once started.\<close>

definition two_threads :: "usize \<Rightarrow> pid_t list" where
  "two_threads i = (if i = 0 then [4, 5] else if i = 1 then [6, 7] else [])"

definition all_waiting :: "(u64 \<Rightarrow> WorkerStatus option) \<Rightarrow> u64 \<Rightarrow> WorkerStatus option" where
  "all_waiting sts w = map_option (\<lambda>_. Waiting) (sts w)"

text \<open>A walk over a finite map, smallest key first.\<close>

definition sorted_keys :: "(u64 \<Rightarrow> WorkerStatus option) \<Rightarrow> u64 list" where
  "sorted_keys sts = sorted_list_of_set (dom sts)"

definition two_servers :: "(u64 \<Rightarrow> usize option, nat, unit) demo_env" where
  "two_servers = \<lparr>de_map = fun_map, de_spawned = (\<lambda>i y. two_threads i),
     de_start = (\<lambda>i y. y\<lparr>dw_states := (dw_states y)(i := all_waiting (dw_states y i))\<rparr>),
     de_sleep = (\<lambda>y. y), de_order = sorted_keys\<rparr>"

interpretation two_servers: demo_setting two_servers "\<lambda>d. d" "\<lambda>i. set (two_threads i)" 2
proof
  show "finite (dom sts) \<Longrightarrow> set (de_order two_servers sts) = dom sts \<and> distinct (de_order two_servers sts)" for sts
    by (simp add: two_servers_def sorted_keys_def)
  show "dom (dw_states (de_start two_servers j y) i) = dom (dw_states y i) \<and> dw_router (de_start two_servers j y) = dw_router y" for j i y
    by (auto simp: two_servers_def all_waiting_def dom_def)
qed (auto simp: two_servers_def two_threads_def)

definition demo_start :: "(u64 \<Rightarrow> usize option, nat, unit) demo_world" where
  "demo_start = \<lparr>dw_states = (\<lambda>i. Map.empty), dw_router = \<lparr>worker_assignments = Map.empty, server_queues = Map.empty\<rparr>, dw_ext = ()\<rparr>"

subsection \<open>The tasks of the demo\<close>

text \<open>
  The tasks taken from the queue and run one after the other until it is empty, as the
  servers and workers do between them.
\<close>

definition drain_body ::
  "('m, demo_task wrapped_task) manage_task_ops \<Rightarrow> (nat \<Rightarrow> uuid) \<Rightarrow> (nat \<Rightarrow> nat) \<Rightarrow> 'm \<times> a2_stats \<Rightarrow>
   (('m \<times> a2_stats) + ('m \<times> a2_stats)) option" where
  "drain_body M new_v4 now = (\<lambda>(m, stats).
     case mt_remove M m of
       (None, m') \<Rightarrow> Some (Inr (m', stats))
     | (Some t, m') \<Rightarrow> Some (Inl (run_wrapped (exec_demo M new_v4 now) (tt_task t) (m', stats))))"

locale demo_tasks = manage_task M waiting limit
  for M :: "('m, demo_task wrapped_task) manage_task_ops"
    and waiting :: "'m \<Rightarrow> demo_task wrapped_task tracked_task list" and limit :: "'m \<Rightarrow> nat"
begin

definition parents :: "'m \<Rightarrow> nat" where
  "parents m = length (filter (\<lambda>t. \<exists>i. wrapped_fn (tt_task t) = Parent i) (waiting m))"

text \<open>With \<open>n\<close> initial tasks: a task still to come for each parent that waits.\<close>

definition drain_inv :: "nat \<Rightarrow> 'm \<times> a2_stats \<Rightarrow> bool" where
  "drain_inv n = (\<lambda>(m, st). 2 * n \<le> limit m \<and> length (waiting m) + parents m \<le> 2 * n \<and>
     total_tasks st = of_nat (2 * n - parents m) \<and>
     completed_tasks st = of_nat (2 * n - parents m - length (waiting m)))"

lemma submit_waiting:
  assumes "length (waiting m) < limit m"
  obtains m' where "submit M u now d f (m, st) = (m', register_task st)"
    and "waiting m' = waiting m @ [TrackedTask_new u now (Wrapped f) d]" and "limit m' = limit m"
proof -
  from add_room [OF assms, of u now d "Wrapped f"] obtain m' where
    "mt_add M u now d (Wrapped f) m = (Inr (), m')" "waiting m' = waiting m @ [TrackedTask_new u now (Wrapped f) d]"
    "limit m' = limit m" by blast
  then show thesis by (intro that [of m']) (simp_all add: submit_def Let_def)
qed

lemma submit_initial_inv:
  assumes "waiting m = []" and "2 * n \<le> limit m" and "k \<le> n"
  shows "\<exists>m'. fold (\<lambda>i. submit M (u i) (now i) d (Parent i)) [0..<k] (m, TaskStats_new) =
      (m', \<lparr>total_tasks = of_nat k, completed_tasks = 0\<rparr>) \<and>
    length (waiting m') = k \<and> parents m' = k \<and> limit m' = limit m"
  using assms(3)
proof (induction k)
  case 0
  with assms show ?case by (simp add: TaskStats_new_def parents_def)
next
  case (Suc k)
  then obtain m1 where i: "fold (\<lambda>i. submit M (u i) (now i) d (Parent i)) [0..<k] (m, TaskStats_new) =
      (m1, \<lparr>total_tasks = of_nat k, completed_tasks = 0\<rparr>)"
    and w: "length (waiting m1) = k" "parents m1 = k" "limit m1 = limit m" by auto
  have "length (waiting m1) < limit m1" using w Suc.prems assms(2) by simp
  from submit_waiting [OF this, of "u k" "now k" d "Parent k" "\<lparr>total_tasks = of_nat k, completed_tasks = 0\<rparr>"]
  obtain m2 where "submit M (u k) (now k) d (Parent k) (m1, \<lparr>total_tasks = of_nat k, completed_tasks = 0\<rparr>) =
      (m2, register_task \<lparr>total_tasks = of_nat k, completed_tasks = 0\<rparr>)"
    "waiting m2 = waiting m1 @ [TrackedTask_new (u k) (now k) (Wrapped (Parent k)) d]" "limit m2 = limit m1" by metis
  with i w show ?case by (simp add: register_task_def parents_def TrackedTask_new_def add.commute)
qed

lemma drain_step:
  assumes inv: "drain_inv n (m, st)"
  shows "(\<exists>m'. drain_body M u now (m, st) = Some (Inr (m', st)) \<and> waiting m' = [] \<and> waiting m = []) \<or>
    (\<exists>m' st'. drain_body M u now (m, st) = Some (Inl (m', st')) \<and> drain_inv n (m', st') \<and>
       length (waiting m') + parents m' < length (waiting m) + parents m)"
proof (cases "waiting m")
  case Nil
  from remove_empty [OF Nil] Nil show ?thesis by (simp add: drain_body_def)
next
  case (Cons t ts)
  from remove_front [OF Cons] obtain m1 where r: "mt_remove M m = (Some t, m1)" and m1: "waiting m1 = ts" "limit m1 = limit m"
    by auto
  from inv have i: "2 * n \<le> limit m" "length (waiting m) + parents m \<le> 2 * n"
    "total_tasks st = of_nat (2 * n - parents m)" "completed_tasks st = of_nat (2 * n - parents m - length (waiting m))"
    by (simp_all add: drain_inv_def)
  show ?thesis
  proof (cases "wrapped_fn (tt_task t)")
    case (Parent j)
    have p: "parents m = Suc (parents m1)" using Cons m1 Parent by (simp add: parents_def)
    have len: "length (waiting m) = Suc (length ts)" using Cons by simp
    have "length (waiting m1) < limit m1" using i len m1 p by simp
    from submit_waiting [OF this, of "u j" "now j" "''dynamic_child_task''" "Child j" st] obtain m2 where
      s: "submit M (u j) (now j) ''dynamic_child_task'' (Child j) (m1, st) = (m2, register_task st)"
      and w2: "waiting m2 = ts @ [TrackedTask_new (u j) (now j) (Wrapped (Child j)) ''dynamic_child_task'']"
      and l2: "limit m2 = limit m" using m1 by metis
    have p2: "parents m2 = parents m1" by (simp add: parents_def w2 m1 TrackedTask_new_def)
    have e: "2 * n - parents m2 = Suc (2 * n - parents m)"
      "2 * n - parents m2 - length (waiting m2) = Suc (2 * n - parents m - length (waiting m))"
      using i(2) p p2 len w2 by simp_all
    have "drain_body M u now (m, st) = Some (Inl (m2, mark_completed (register_task st)))"
      by (simp add: drain_body_def r run_wrapped_def exec_demo_def Parent s)
    moreover have "drain_inv n (m2, mark_completed (register_task st))"
      unfolding drain_inv_def prod.case e using i l2 p p2 len w2
      by (simp add: mark_completed_def register_task_def add.commute)
    ultimately show ?thesis using p p2 len w2 by simp
  next
    case (Child j)
    have p: "parents m = parents m1" using Cons m1 Child by (simp add: parents_def)
    have len: "length (waiting m) = Suc (length (waiting m1))" using Cons m1 by simp
    have e: "2 * n - parents m1 - length (waiting m1) = Suc (2 * n - parents m - length (waiting m))"
      using i(2) p len by simp
    have "drain_body M u now (m, st) = Some (Inl (m1, mark_completed st))"
      by (simp add: drain_body_def r run_wrapped_def exec_demo_def Child)
    moreover have "drain_inv n (m1, mark_completed st)"
      unfolding drain_inv_def prod.case e using i m1 p len by (simp add: mark_completed_def add.commute)
    ultimately show ?thesis using p len by simp
  qed
qed

end

interpretation list_demo: demo_tasks "task_queue_ops list_queue" snd fst
  by unfold_locales

subsection \<open>Properties\<close>

text \<open>
  C30: When the setup of the demo has come to its end, the map it hands to the event routing
  thread and the assignments the worker threads entered into the router agree: for every
  server, exactly \<open>worker_count\<close> workers are known, both maps send each of them to this
  server, and the routing thread's map knows no other worker. So the routing thread finds
  the server of every registered worker.
\<close>
theorem setup_maps_agree:
  assumes E: "demo_setting E lookup threads n" and start: "\<forall>i. dw_states y i = Map.empty" and k: "k \<le> 2 ^ 64"
    and r: "demo_setup E n k y = Some (rs, y')"
  shows "(\<forall>i < k. card (dom (dw_states y' (of_nat i))) = n \<and>
      (\<forall>w \<in> dom (dw_states y' (of_nat i)). worker_to_server rs w = Some (of_nat i) \<and>
         lookup (worker_assignments (dw_router y')) w = Some (of_nat i))) \<and>
    dom (worker_to_server rs) = (\<Union>i < k. dom (dw_states y' (of_nat i)))"
proof -
  let ?is = "map of_nat [0..<k] :: usize list"
  from r obtain m where s: "setup_servers E n ?is (Map.empty, y) = Some (m, y')" and rs: "worker_to_server rs = m"
    by (auto simp: demo_setup_def EventRoutingServer_new_def)
  have "distinct ?is"
    using k by (auto simp: distinct_map inj_on_def word_unat_eq_iff unat_of_nat)
  from demo_setting.setup_servers_agreed [OF E demo_setting.agreed_start [OF E start] this _ s]
  have a: "demo_setting.agreed lookup threads n (of_nat ` {0..<k}) m y'" by simp
  show ?thesis
    unfolding rs demo_setting.agreed_maps(3) [OF E a] using demo_setting.agreed_maps(1,2) [OF E a]
    by (auto simp: lessThan_atLeast0)
qed

theorem setup_maps_agree_witness:
  "\<exists>rs y'. demo_setup two_servers 2 1 demo_start = Some (rs, y') \<and> worker_to_server rs 160 = Some 0"
proof -
  have start: "\<forall>i. dw_states demo_start i = Map.empty" by (simp add: demo_start_def)
  let ?ids = "{128, 160} :: u64 set"
  have ids: "worker_id_of ` set (two_threads 0) = ?ids"
    by (simp add: two_threads_def worker_id_of_def UMCG_WORKER_ID_SHIFT_def)
  obtain sts router and chans :: "u64 \<Rightarrow> unit WorkerTask mpsc option" where
    init: "initialize_workers fun_map 0 (two_threads 0) (dw_router demo_start) = (sts, chans, router)" by (metis prod_cases3)
  have dom: "dom sts = ?ids" unfolding initialize_workers_maps(1) [OF init] ids by (auto simp: dom_def)
  let ?y = "de_start two_servers 0 (demo_start\<lparr>dw_states := (dw_states demo_start)(0 := sts), dw_router := router\<rparr>)"
  have y: "dw_states ?y 0 = all_waiting sts" by (simp add: two_servers_def)
  have d: "dom (dw_states ?y 0) = ?ids" unfolding y using dom by (auto simp: all_waiting_def dom_def)
  have "\<exists>r. wait_all_ready two_servers 2 0 Map.empty ?y = Some r"
  proof (rule two_servers.wait_ready_returns [where k = 0])
    show "finite (dom (dw_states ?y 0))" "card (dom (dw_states ?y 0)) = 2" unfolding d by simp_all
    show "\<forall>w \<in> dom (dw_states ?y 0). dw_states ((de_sleep two_servers ^^ 0) ?y) 0 w = Some Waiting"
      by (auto simp: y all_waiting_def)
  qed
  then obtain m y' where w: "wait_all_ready two_servers 2 0 Map.empty ?y = Some (m, y')" by auto
  have "setup_server two_servers 2 0 (Map.empty, demo_start) = Some (m, y')"
    using w init by (simp add: setup_server_def two_servers_def)
  then have r: "demo_setup two_servers 2 1 demo_start = Some (EventRoutingServer_new 1 m, y')"
    by (simp add: demo_setup_def)
  have "dom (dw_states y' 0) = ?ids"
    using two_servers.wait_ready_result [OF w] d by simp
  with setup_maps_agree [OF two_servers.demo_setting_axioms start _ r] r show ?thesis by auto
qed

text \<open>
  C32: The setup waits for exactly \<open>worker_count\<close> ready workers: for a server with at most
  that many workers in its map, the wait returns if and only if the map has
  \<open>worker_count\<close> workers and at some look all of them are waiting. So if a thread enters
  itself only after \<open>initialize_workers\<close> has copied the maps, the demo never gets past
  this server.
\<close>
theorem readiness_needs_all:
  assumes E: "demo_setting E lookup threads c" and fin: "finite (dom (dw_states y i))" and le: "card (dom (dw_states y i)) \<le> n"
  shows "(\<exists>r. wait_all_ready E n i m y = Some r) \<longleftrightarrow>
    card (dom (dw_states y i)) = n \<and>
    (\<exists>k. \<forall>w \<in> dom (dw_states y i). dw_states ((de_sleep E ^^ k) y) i w = Some Waiting)"
  (is "?L \<longleftrightarrow> ?R")
proof
  assume ?L
  then obtain m' y' where r: "wait_all_ready E n i m y = Some (m', y')" by auto
  from demo_setting.wait_ready_state [OF E r] obtain k where "y' = (de_sleep E ^^ k) y" by blast
  with demo_setting.wait_ready_result [OF E r fin le] show ?R by auto
next
  assume ?R
  then show ?L using demo_setting.wait_ready_returns [OF E fin] by blast
qed

theorem readiness_needs_all_witness:
  "wait_all_ready two_servers 3 0 Map.empty (demo_start\<lparr>dw_states := \<lambda>i. [128 \<mapsto> Waiting, 160 \<mapsto> Waiting]\<rparr>) = None"
proof -
  let ?y = "demo_start\<lparr>dw_states := \<lambda>i. [128 \<mapsto> Waiting, 160 \<mapsto> Waiting]\<rparr>"
  have "dom (dw_states ?y 0) = {128, 160}" by auto
  with readiness_needs_all [OF two_servers.demo_setting_axioms, of ?y 0 3 Map.empty]
  have "\<not> (\<exists>r. wait_all_ready two_servers 3 0 Map.empty ?y = Some r)" by simp
  then show ?thesis by (metis not_Some_eq)
qed



end
