(* ===== verification/A2_Echo.thy ===== *)
theory A2_Echo
  imports A2_Tasks
begin

text \<open>
  The echo server of \<open>src/attempt2.rs\<close> (\<open>run_echo_server_demo\<close>): the statistics that its
  accept tasks and connection tasks update concurrently, and the answer to a connection.
\<close>

subsection \<open>\<open>ServerStats\<close>\<close>

record ServerStats =
  accept_count :: u64
  accept_wait_time :: u64
  processing_time :: u64
  queue_wait_time :: u64
  completed_requests :: u64
  current_connections :: u64

definition ServerStats_new :: ServerStats where
  "ServerStats_new = \<lparr>accept_count = 0, accept_wait_time = 0, processing_time = 0, queue_wait_time = 0,
     completed_requests = 0, current_connections = 0\<rparr>"

text \<open>The numbers \<open>print_stats\<close> prints; nothing before the first accept.\<close>

definition print_stats :: "ServerStats \<Rightarrow> u64 list option" where
  "print_stats s =
     (let accepts = accept_count s in
      if accepts = 0 then None
      else Some [accepts, current_connections s, completed_requests s,
        accept_wait_time s div accepts, processing_time s div accepts, queue_wait_time s div accepts])"

subsection \<open>The life of a connection\<close>

text \<open>
  The atomic additions that happen for one connection, in program order: three by the
  accept task, then four by the connection task it submits. Each is one step; the steps
  of different connections interleave.
\<close>

datatype phase = WaitAdded | Counted | Opened | Queued | Processed | Finished | Closed

definition connection_accepted :: "u64 \<Rightarrow> ServerStats \<Rightarrow> ServerStats" where
  "connection_accepted accept_time s = s\<lparr>accept_wait_time := accept_wait_time s + accept_time\<rparr>"

fun connection_step :: "phase \<Rightarrow> u64 \<Rightarrow> ServerStats \<Rightarrow> phase \<times> ServerStats" where
  "connection_step WaitAdded t s = (Counted, s\<lparr>accept_count := accept_count s + 1\<rparr>)"
| "connection_step Counted t s = (Opened, s\<lparr>current_connections := current_connections s + 1\<rparr>)"
| "connection_step Opened t s = (Queued, s\<lparr>queue_wait_time := queue_wait_time s + t\<rparr>)"
| "connection_step Queued t s = (Processed, s\<lparr>processing_time := processing_time s + t\<rparr>)"
| "connection_step Processed t s = (Finished, s\<lparr>completed_requests := completed_requests s + 1\<rparr>)"
| "connection_step Finished t s = (Closed, s\<lparr>current_connections := current_connections s - 1\<rparr>)"
| "connection_step Closed t s = (Closed, s)"

inductive echo_reach :: "phase list \<Rightarrow> ServerStats \<Rightarrow> bool" where
  start: "echo_reach [] ServerStats_new"
| accept: "echo_reach cs s \<Longrightarrow> echo_reach (cs @ [WaitAdded]) (connection_accepted t s)"
| step: "echo_reach cs s \<Longrightarrow> i < length cs \<Longrightarrow> connection_step (cs ! i) t s = (p, s') \<Longrightarrow> echo_reach (cs[i := p]) s'"

inductive_cases echo_reachE: "echo_reach cs s"

fun counted :: "phase \<Rightarrow> bool" where
  "counted WaitAdded = False"
| "counted _ = True"

fun open_phase :: "phase \<Rightarrow> bool" where
  "open_phase p = (p = Opened \<or> p = Queued \<or> p = Processed \<or> p = Finished)"

fun finished :: "phase \<Rightarrow> bool" where
  "finished p = (p = Finished \<or> p = Closed)"

definition number :: "(phase \<Rightarrow> bool) \<Rightarrow> phase list \<Rightarrow> nat" where
  "number P cs = length (filter P cs)"

lemma number_simps [simp]:
  "number P [] = 0" "number P (cs @ [c]) = number P cs + (if P c then 1 else 0)"
  by (simp_all add: number_def)

lemma number_update:
  assumes "i < length cs"
  shows "number P (cs[i := p]) + (if P (cs ! i) then 1 else 0) = number P cs + (if P p then 1 else 0)"
proof -
  have "length (filter P cs) = length (filter P (take i cs @ cs ! i # drop (Suc i) cs))"
    by (rule arg_cong [OF id_take_nth_drop [OF assms]])
  then have "number P cs = number P (take i cs) + (if P (cs ! i) then 1 else 0) + number P (drop (Suc i) cs)"
    by (simp add: number_def del: append_take_drop_id)
  moreover have "number P (cs[i := p]) = number P (take i cs) + (if P p then 1 else 0) + number P (drop (Suc i) cs)"
    using assms by (simp add: number_def upd_conv_take_nth_drop)
  ultimately show ?thesis by simp
qed

text \<open>The three counters as words; exact as long as there are fewer than \<open>2 ^ 64\<close> connections.\<close>

definition echo_inv :: "phase list \<Rightarrow> ServerStats \<Rightarrow> bool" where
  "echo_inv cs s \<longleftrightarrow> accept_count s = of_nat (number counted cs) \<and>
     current_connections s = of_nat (number open_phase cs) \<and> completed_requests s = of_nat (number finished cs)"

lemma of_nat_pred: "Suc a = b \<Longrightarrow> of_nat b - 1 = (of_nat a :: u64)"
  by auto

lemma echo_inv_step:
  assumes "echo_inv cs s" and "i < length cs" and "connection_step (cs ! i) t s = (p, s')"
  shows "echo_inv (cs[i := p]) s'"
  using assms(1,3) number_update [OF assms(2), of counted p] number_update [OF assms(2), of open_phase p]
    number_update [OF assms(2), of finished p]
  by (cases "cs ! i") (auto simp: echo_inv_def of_nat_pred)

lemma echo_reach_inv: "echo_reach cs s \<Longrightarrow> echo_inv cs s"
proof (induction rule: echo_reach.induct)
  case (step cs s i t p s')
  then show ?case by (blast intro: echo_inv_step)
qed (simp_all add: echo_inv_def ServerStats_new_def connection_accepted_def)

lemma number_mono: "(\<And>c. P c \<Longrightarrow> R c) \<Longrightarrow> number P cs \<le> number R cs"
  by (induction cs) (auto simp: number_def)

lemma number_le: "number P cs \<le> length cs"
  by (simp add: number_def)

subsection \<open>The answer to a connection\<close>

text \<open>What the connection task writes for each result of the one read it makes.\<close>

definition CRLF :: string where
  "CRLF = [CHR 0x0D, CHR 0x0A]"

definition response_head :: string where
  "response_head = ''HTTP/1.1 200 OK'' @ CRLF @ ''Content-Type: text/plain'' @ CRLF @
     ''Content-Length: 13'' @ CRLF @ ''Connection: close'' @ CRLF @ CRLF"

definition response_body :: string where
  "response_body = ''Hello, World!'' @ [CHR 0x0A]"

definition handle_connection :: "unit + nat \<Rightarrow> string option" where
  "handle_connection read =
     (case read of
        Inr n \<Rightarrow> if n = 0 then None else Some (response_head @ response_body)
      | Inl err \<Rightarrow> None)"

text \<open>The announced length is not the length of the body.\<close>

lemma content_length_wrong: "length response_body = 14"
  by (simp add: response_body_def)

subsection \<open>Properties\<close>

text \<open>
  C34: The statistics of the echo server are exact under every interleaving of the accept
  and connection tasks (with fewer than \<open>2 ^ 64\<close> connections): the accept counter is the
  number of counted connections, \<open>current_connections\<close> the number of those that are open
  and never wraps below zero, and \<open>completed_requests\<close> the number of finished ones; never
  more requests are completed than were accepted, and when every connection is closed no
  connection is current. So \<open>print_stats\<close> prints nothing exactly if no connection was
  counted, and never divides by zero.
\<close>
theorem echo_statistics_exact:
  assumes "echo_reach cs s" and "length cs < 2 ^ 64"
  shows "unat (accept_count s) = number counted cs \<and>
    unat (current_connections s) = number open_phase cs \<and>
    unat (completed_requests s) = number finished cs \<and>
    completed_requests s \<le> accept_count s \<and> current_connections s \<le> accept_count s \<and>
    ((\<forall>c \<in> set cs. c = Closed) \<longrightarrow> current_connections s = 0 \<and> completed_requests s = accept_count s) \<and>
    (print_stats s = None \<longleftrightarrow> (\<forall>c \<in> set cs. c = WaitAdded))"
proof -
  have lt: "number P cs < 2 ^ 64" for P using number_le [of P cs] assms(2) by simp
  from echo_reach_inv [OF assms(1)] have u: "unat (accept_count s) = number counted cs"
    "unat (current_connections s) = number open_phase cs" "unat (completed_requests s) = number finished cs"
    using lt by (simp_all add: echo_inv_def unat_of_nat)
  have "number finished cs \<le> number counted cs" "number open_phase cs \<le> number counted cs"
    by (rule number_mono, auto elim: finished.elims open_phase.elims)+
  then have le: "completed_requests s \<le> accept_count s" "current_connections s \<le> accept_count s"
    by (simp_all add: word_le_nat_alt u)
  have closed: "number open_phase cs = 0 \<and> number finished cs = number counted cs" if "\<forall>c \<in> set cs. c = Closed"
    using that by (induction cs) (auto simp: number_def)
  have "accept_count s = 0 \<longleftrightarrow> number counted cs = 0" using u(1) by (metis unat_eq_zero)
  also have "\<dots> \<longleftrightarrow> (\<forall>c \<in> set cs. c = WaitAdded)"
    by (auto simp: number_def filter_empty_conv elim: counted.elims)
  finally have "print_stats s = None \<longleftrightarrow> (\<forall>c \<in> set cs. c = WaitAdded)" by (simp add: print_stats_def Let_def)
  with u le closed show ?thesis by (auto simp: word_unat_eq_iff)
qed

theorem echo_statistics_exact_witness:
  "\<exists>s. echo_reach [Opened, WaitAdded] s \<and> unat (current_connections s) = 1 \<and> print_stats s \<noteq> None"
proof -
  have "echo_reach [WaitAdded] (connection_accepted 5 ServerStats_new)" using echo_reach.accept [OF echo_reach.start] by simp
  from echo_reach.step [OF this, of 0] obtain s1 where "echo_reach [Counted] s1" by simp
  from echo_reach.step [OF this, of 0] obtain s2 where "echo_reach [Opened] s2" by simp
  from echo_reach.accept [OF this, of 7] have r: "echo_reach [Opened, WaitAdded] (connection_accepted 7 s2)" by simp
  with echo_statistics_exact [OF r] show ?thesis by (auto simp: number_def)
qed

end
