(* ===== verification/A2_Echo_Server.thy ===== *)
theory A2_Echo_Server
  imports A2_Demo A2_Echo
begin

text \<open>
  The echo server of \<open>src/attempt2.rs\<close> as a program (\<open>run_echo_server_demo\<close>): its setup, the
  accept tasks, the connection tasks they submit, and the loop that prints the statistics.
  Theory \<open>A2_Echo\<close> has the statistics under every interleaving; here a task is followed
  from its start to its end.
\<close>

subsection \<open>Tasks and their world\<close>

text \<open>
  What the closures share: the task queue with its counters, the statistics, and the second
  flag \<open>done\<close>, which hides the one that the servers got.
\<close>

record ('m, 'x) echo_world =
  ew_tasks :: "'m \<times> a2_stats"
  ew_stats :: ServerStats
  ew_done :: bool
  ew_ext :: 'x

datatype accept_result = Accepted nat | WouldBlock | Failed

text \<open>The two closures: a connection task has captured its stream and the time it was queued.\<close>

datatype echo_task = Accept_task nat | Connection_task nat nat

text \<open>
  Outside the sources: queue, ids and clock (in microseconds), and the sockets. \<open>accept\<close> may
  block forever; what other threads do happens during the calls.
\<close>

record ('m, 'x) echo_env =
  ee_tasks :: "('m, echo_task wrapped_task) manage_task_ops"
  ee_uuid :: "('m, 'x) echo_world \<Rightarrow> uuid"
  ee_clock :: "('m, 'x) echo_world \<Rightarrow> nat"
  ee_accept :: "('m, 'x) echo_world \<Rightarrow> (accept_result \<times> ('m, 'x) echo_world) option"
  ee_read :: "nat \<Rightarrow> ('m, 'x) echo_world \<Rightarrow> (unit + nat) \<times> ('m, 'x) echo_world"
  ee_write :: "nat \<Rightarrow> string \<Rightarrow> ('m, 'x) echo_world \<Rightarrow> ('m, 'x) echo_world"
  ee_close :: "nat \<Rightarrow> ('m, 'x) echo_world \<Rightarrow> ('m, 'x) echo_world"
  ee_sleep :: "('m, 'x) echo_world \<Rightarrow> ('m, 'x) echo_world"

definition elapsed_micros :: "('m, 'x) echo_env \<Rightarrow> nat \<Rightarrow> ('m, 'x) echo_world \<Rightarrow> u64" where
  "elapsed_micros E start w = of_nat (ee_clock E w - start)"

definition echo_submit :: "('m, 'x) echo_env \<Rightarrow> string \<Rightarrow> echo_task \<Rightarrow> ('m, 'x) echo_world \<Rightarrow> ('m, 'x) echo_world" where
  "echo_submit E description t w = w\<lparr>ew_tasks := submit (ee_tasks E) (ee_uuid E w) (ee_clock E w) description t (ew_tasks w)\<rparr>"

text \<open>The three counters of an accepted connection, in the order of \<open>A2_Echo\<close>.\<close>

definition count_accept :: "u64 \<Rightarrow> ServerStats \<Rightarrow> ServerStats" where
  "count_accept accept_time s =
     snd (connection_step Counted 0 (snd (connection_step WaitAdded 0 (connection_accepted accept_time s))))"

text \<open>One round of an accept task; the state has the time of the last accept.\<close>

definition accept_body ::
  "('m, 'x) echo_env \<Rightarrow> nat \<times> ('m, 'x) echo_world \<Rightarrow> (nat \<times> ('m, 'x) echo_world + ('m, 'x) echo_world) option" where
  "accept_body E = (\<lambda>(accept_start, w).
     if ew_done w then Some (Inr w)
     else case ee_accept E w of
         None \<Rightarrow> None
       | Some (Accepted stream, w) \<Rightarrow>
           let w = w\<lparr>ew_stats := count_accept (elapsed_micros E accept_start w) (ew_stats w)\<rparr>;
               queued_at = ee_clock E w;
               w = echo_submit E ''connection_handle_task'' (Connection_task stream queued_at) w
           in Some (Inl (ee_clock E w, w))
       | Some (WouldBlock, w) \<Rightarrow> Some (Inl (accept_start, ee_sleep E w))
       | Some (Failed, w) \<Rightarrow> Some (Inr w))"

definition run_accept_task :: "('m, 'x) echo_env \<Rightarrow> ('m, 'x) echo_world \<Rightarrow> ('m, 'x) echo_world option" where
  "run_accept_task E w = rust_loop (accept_body E) (ee_clock E w, w)"

text \<open>\<open>handle_connection\<close> on the socket: one read, the answer of \<open>A2_Echo\<close>, the end.\<close>

definition serve :: "('m, 'x) echo_env \<Rightarrow> nat \<Rightarrow> ('m, 'x) echo_world \<Rightarrow> ('m, 'x) echo_world" where
  "serve E stream w =
     (case ee_read E stream w of
        (r, w) \<Rightarrow>
          ee_close E stream (case handle_connection r of None \<Rightarrow> w | Some response \<Rightarrow> ee_write E stream response w))"

definition run_connection_task :: "('m, 'x) echo_env \<Rightarrow> nat \<Rightarrow> nat \<Rightarrow> ('m, 'x) echo_world \<Rightarrow> ('m, 'x) echo_world" where
  "run_connection_task E stream queued_at w =
     (let w = w\<lparr>ew_stats := snd (connection_step Opened (elapsed_micros E queued_at w) (ew_stats w))\<rparr>;
          process_start = ee_clock E w;
          w = serve E stream w;
          w = w\<lparr>ew_stats := snd (connection_step Queued (elapsed_micros E process_start w) (ew_stats w))\<rparr>;
          w = w\<lparr>ew_stats := snd (connection_step Processed 0 (ew_stats w))\<rparr>
      in w\<lparr>ew_stats := snd (connection_step Finished 0 (ew_stats w))\<rparr>)"

definition exec_echo :: "('m, 'x) echo_env \<Rightarrow> echo_task \<Rightarrow> ('m, 'x) echo_world \<Rightarrow> ('m, 'x) echo_world option" where
  "exec_echo E t w =
     (case t of
        Accept_task i \<Rightarrow> run_accept_task E w
      | Connection_task stream queued_at \<Rightarrow> Some (run_connection_task E stream queued_at w))"

subsection \<open>The program\<close>

definition submit_accept_tasks :: "('m, 'x) echo_env \<Rightarrow> ('m, 'x) echo_world \<Rightarrow> ('m, 'x) echo_world" where
  "submit_accept_tasks E = fold (\<lambda>i. echo_submit E ''tcp_accept_task'' (Accept_task i)) [0..<10]"

definition monitor_body :: "('m, 'x) echo_env \<Rightarrow> ('m, 'x) echo_world \<Rightarrow> (('m, 'x) echo_world + ('m, 'x) echo_world) option" where
  "monitor_body E w = (if ew_done w then Some (Inr w) else Some (Inl (ee_sleep E w)))"

text \<open>
  One server with 1000 workers; \<open>bound\<close> tells whether the port could be bound, which the
  program expects.
\<close>

definition run_echo_server_demo ::
  "('d, 'q, 'y) demo_env \<Rightarrow> ('m, 'x) echo_env \<Rightarrow> bool \<Rightarrow> ('d, 'q, 'y) demo_world \<Rightarrow> ('m, 'x) echo_world \<Rightarrow>
   (i32 \<times> ('m, 'x) echo_world) outcome option" where
  "run_echo_server_demo S E bound y w =
     (case demo_setup S 1000 1 y of
        None \<Rightarrow> None
      | Some (event_routing_server, y') \<Rightarrow>
          if \<not> bound then Some Panics
          else map_option (\<lambda>w. Returns (0, w))
            (rust_loop (monitor_body E) (submit_accept_tasks E (w\<lparr>ew_stats := ServerStats_new, ew_done := False\<rparr>))))"

subsection \<open>Lemmas\<close>

lemma submit_keeps [simp]:
  "ew_stats (echo_submit E d t w) = ew_stats w" "ew_done (echo_submit E d t w) = ew_done w"
  "ew_ext (echo_submit E d t w) = ew_ext w"
  by (simp_all add: echo_submit_def)

lemma count_accept_simps [simp]:
  "accept_count (count_accept t s) = accept_count s + 1" "current_connections (count_accept t s) = current_connections s + 1"
  "completed_requests (count_accept t s) = completed_requests s"
  by (simp_all add: count_accept_def connection_accepted_def)

lemma submit_accept_done [simp]: "ew_done (submit_accept_tasks E w) = ew_done w"
proof -
  have "ew_done (fold (\<lambda>i. echo_submit E d (Accept_task i)) is w) = ew_done w" for d "is"
    by (induction "is" arbitrary: w) simp_all
  then show ?thesis by (simp add: submit_accept_tasks_def)
qed

text \<open>
  The results of \<open>accept\<close> in the order they come, as a function of the rest of the world. No
  other task changes queue, statistics or flag meanwhile.
\<close>

locale accept_script =
  fixes E :: "('m, 'x) echo_env" and script :: "'x \<Rightarrow> accept_result list"
  assumes accept_next: "script (ew_ext w) = r # rs \<Longrightarrow>
      \<exists>w'. ee_accept E w = Some (r, w') \<and> script (ew_ext w') = rs \<and>
        ew_tasks w' = ew_tasks w \<and> ew_stats w' = ew_stats w \<and> ew_done w' = ew_done w"
    and sleep_script: "script (ew_ext (ee_sleep E w)) = script (ew_ext w)"
    and sleep_same: "ew_tasks (ee_sleep E w) = ew_tasks w \<and> ew_stats (ee_sleep E w) = ew_stats w \<and> ew_done (ee_sleep E w) = ew_done w"

text \<open>The accepted streams of a script, and the streams of the connection tasks in a queue.\<close>

fun streams :: "accept_result list \<Rightarrow> nat list" where
  "streams [] = []"
| "streams (Accepted s # rs) = s # streams rs"
| "streams (_ # rs) = streams rs"

fun connection_of :: "echo_task \<Rightarrow> nat option" where
  "connection_of (Connection_task s _) = Some s"
| "connection_of (Accept_task _) = None"

definition queued :: "('m \<Rightarrow> echo_task wrapped_task tracked_task list) \<Rightarrow> ('m, 'x) echo_world \<Rightarrow> nat option list" where
  "queued waiting w = map (\<lambda>t. connection_of (wrapped_fn (tt_task t))) (waiting (fst (ew_tasks w)))"

locale accept_client = manage_task "ee_tasks E" waiting limit + accept_script E script
  for E :: "('m, 'x) echo_env" and waiting limit and script :: "'x \<Rightarrow> accept_result list"
begin

definition room :: "('m, 'x) echo_world \<Rightarrow> nat" where
  "room w = limit (fst (ew_tasks w)) - length (waiting (fst (ew_tasks w)))"

text \<open>A submission is queued if there is room, and counted in any case.\<close>

lemma echo_submit_queue:
  "queued waiting (echo_submit E d t w) = queued waiting w @ (if 0 < room w then [connection_of t] else [])"
  "room (echo_submit E d t w) = room w - 1"
  "total_tasks (snd (ew_tasks (echo_submit E d t w))) = total_tasks (snd (ew_tasks w)) + 1"
proof -
  obtain m st where m: "ew_tasks w = (m, st)" by fastforce
  have "waiting (fst (ew_tasks (echo_submit E d t w))) =
      waiting m @ (if 0 < room w then [TrackedTask_new (ee_uuid E w) (ee_clock E w) (Wrapped t) d] else []) \<and>
      limit (fst (ew_tasks (echo_submit E d t w))) = limit m \<and>
      snd (ew_tasks (echo_submit E d t w)) = register_task st"
    using add_room [of m "ee_uuid E w" "ee_clock E w" d "Wrapped t"] add_full [of m "ee_uuid E w" "ee_clock E w" d "Wrapped t"]
    by (cases "length (waiting m) < limit m") (auto simp: echo_submit_def submit_def m room_def Let_def)
  then show "queued waiting (echo_submit E d t w) = queued waiting w @ (if 0 < room w then [connection_of t] else [])"
    "room (echo_submit E d t w) = room w - 1"
    "total_tasks (snd (ew_tasks (echo_submit E d t w))) = total_tasks (snd (ew_tasks w)) + 1"
    by (auto simp: queued_def m room_def TrackedTask_new_def register_task_def)
qed

lemma world_upd [simp]:
  "room (w\<lparr>ew_stats := s\<rparr>) = room w" "queued waiting (w\<lparr>ew_stats := s\<rparr>) = queued waiting w"
  by (simp_all add: room_def queued_def)

lemma same_tasks: "ew_tasks w' = ew_tasks w \<Longrightarrow> room w' = room w \<and> queued waiting w' = queued waiting w"
  by (simp add: room_def queued_def)

text \<open>What the accept loop has done when the first error ends it.\<close>

lemma accept_loop:
  assumes "script (ew_ext w) = rs @ Failed # rs'" and "Failed \<notin> set rs" and "\<not> ew_done w"
  shows "\<exists>w'. rust_loop (accept_body E) (t, w) = Some w' \<and> script (ew_ext w') = rs' \<and>
    queued waiting w' = queued waiting w @ map Some (take (room w) (streams rs)) \<and>
    total_tasks (snd (ew_tasks w')) = total_tasks (snd (ew_tasks w)) + of_nat (length (streams rs)) \<and>
    accept_count (ew_stats w') = accept_count (ew_stats w) + of_nat (length (streams rs)) \<and>
    current_connections (ew_stats w') = current_connections (ew_stats w) + of_nat (length (streams rs)) \<and>
    completed_requests (ew_stats w') = completed_requests (ew_stats w)"
  using assms
proof (induction rs arbitrary: t w)
  case Nil
  from accept_next [of w Failed rs'] Nil obtain w' where a: "ee_accept E w = Some (Failed, w')" "script (ew_ext w') = rs'"
    "ew_tasks w' = ew_tasks w" "ew_stats w' = ew_stats w" by auto
  then have b: "accept_body E (t, w) = Some (Inr w')" using Nil(3) by (simp add: accept_body_def)
  show ?case unfolding rust_loop_break [where body = "accept_body E", OF b] using a by (simp add: queued_def)
next
  case (Cons r rs)
  from accept_next [of w r "rs @ Failed # rs'"] Cons.prems obtain w1 where a: "ee_accept E w = Some (r, w1)"
    "script (ew_ext w1) = rs @ Failed # rs'" and s: "ew_tasks w1 = ew_tasks w" "ew_stats w1 = ew_stats w" "ew_done w1 = ew_done w" by auto
  show ?case
  proof (cases r)
    case (Accepted stream)
    define w2 where "w2 = w1\<lparr>ew_stats := count_accept (elapsed_micros E t w1) (ew_stats w1)\<rparr>"
    define w3 where "w3 = echo_submit E ''connection_handle_task'' (Connection_task stream (ee_clock E w2)) w2"
    have b: "accept_body E (t, w) = Some (Inl (ee_clock E w3, w3))"
      using Cons.prems(3) a by (simp add: accept_body_def Accepted w2_def w3_def Let_def)
    have "script (ew_ext w3) = rs @ Failed # rs'" "\<not> ew_done w3" using a s Cons.prems(3) by (simp_all add: w3_def w2_def)
    from Cons.IH [OF this(1) _ this(2), of "ee_clock E w3"] Cons.prems(2) obtain w' where
      "rust_loop (accept_body E) (ee_clock E w3, w3) = Some w'" "script (ew_ext w') = rs'"
      "queued waiting w' = queued waiting w3 @ map Some (take (room w3) (streams rs))"
      "total_tasks (snd (ew_tasks w')) = total_tasks (snd (ew_tasks w3)) + of_nat (length (streams rs))"
      "accept_count (ew_stats w') = accept_count (ew_stats w3) + of_nat (length (streams rs))"
      "current_connections (ew_stats w') = current_connections (ew_stats w3) + of_nat (length (streams rs))"
      "completed_requests (ew_stats w') = completed_requests (ew_stats w3)" by auto
    moreover have "queued waiting w3 = queued waiting w @ (if 0 < room w then [Some stream] else [])" "room w3 = room w - 1"
      "total_tasks (snd (ew_tasks w3)) = total_tasks (snd (ew_tasks w)) + 1"
      using same_tasks [OF s(1)] s(1) by (simp_all add: w3_def w2_def echo_submit_queue)
    moreover have "accept_count (ew_stats w3) = accept_count (ew_stats w) + 1"
      "current_connections (ew_stats w3) = current_connections (ew_stats w) + 1"
      "completed_requests (ew_stats w3) = completed_requests (ew_stats w)" by (simp_all add: w3_def w2_def s(2))
    ultimately show ?thesis
      unfolding rust_loop_continue [where body = "accept_body E", OF b] by (intro exI [of _ w']) (cases "room w", auto simp: Accepted)
  next
    case WouldBlock
    let ?w = "ee_sleep E w1"
    have b: "accept_body E (t, w) = Some (Inl (t, ?w))" using Cons.prems(3) a by (simp add: accept_body_def WouldBlock)
    have k: "ew_tasks ?w = ew_tasks w" "ew_stats ?w = ew_stats w" "ew_done ?w = ew_done w" using sleep_same [of w1] s by simp_all
    have "script (ew_ext ?w) = rs @ Failed # rs'" using a by (simp add: sleep_script)
    from Cons.IH [OF this, of t] Cons.prems(2,3) show ?thesis
      unfolding rust_loop_continue [where body = "accept_body E", OF b] by (simp add: WouldBlock k same_tasks [OF k(1)])
  next
    case Failed
    with Cons.prems(2) show ?thesis by simp
  qed
qed

end

subsection \<open>A scripted listener\<close>

definition script_env :: "(nat \<times> echo_task wrapped_task tracked_task list, accept_result list) echo_env" where
  "script_env = \<lparr>ee_tasks = task_queue_ops list_queue, ee_uuid = (\<lambda>w. 0), ee_clock = (\<lambda>w. 0),
     ee_accept = (\<lambda>w. case ew_ext w of [] \<Rightarrow> None | r # rs \<Rightarrow> Some (r, w\<lparr>ew_ext := rs\<rparr>)),
     ee_read = (\<lambda>s w. (Inr 1, w)), ee_write = (\<lambda>s r w. w), ee_close = (\<lambda>s w. w), ee_sleep = (\<lambda>w. w)\<rparr>"

interpretation scripted: accept_client script_env snd fst "\<lambda>x. x"
proof (rule accept_client.intro)
  show "manage_task (ee_tasks script_env) snd fst"
    using list_tasks.task_queue_contract by (simp add: script_env_def)
  show "accept_script script_env (\<lambda>x. x)"
    by unfold_locales (auto simp: script_env_def)
qed

text \<open>
  The answer to a connection has been read and written, its three counters moved, and the
  socket is closed; what it leaves open is nothing.
\<close>

lemma connection_task_counts:
  assumes "\<And>w. ew_stats (snd (ee_read E s w)) = ew_stats w" and "\<And>r w. ew_stats (ee_write E s r w) = ew_stats w"
    and "\<And>w. ew_stats (ee_close E s w) = ew_stats w"
  shows "completed_requests (ew_stats (run_connection_task E s q w)) = completed_requests (ew_stats w) + 1 \<and>
    current_connections (ew_stats (run_connection_task E s q w)) = current_connections (ew_stats w) - 1"
proof -
  have "ew_stats (serve E s v) = ew_stats v" for v
    using assms(1) [of v] by (auto simp: serve_def assms(2,3) split: prod.split option.split)
  then show ?thesis by (simp add: run_connection_task_def Let_def)
qed

subsection \<open>Properties\<close>

text \<open>
  C33: An accept task of the echo server works through the results of \<open>accept\<close> up to the first
  error, which ends it. It submits one connection task for every
  accepted stream, in their order, as long as the queue has room; and it counts every one
  of them as accepted, as current and as a registered task, whether the queue took it or
  not. So a connection that is dropped because the queue is full stays in
  \<open>current_connections\<close> and keeps the tasks from ever being complete.
\<close>
theorem accept_task_serves:
  assumes M: "manage_task (ee_tasks E) waiting limit" and S: "accept_script E script"
    and "script (ew_ext w) = rs @ Failed # rs'" and "Failed \<notin> set rs" and "\<not> ew_done w"
    and m: "ew_tasks w = (m, st)" "limit m - length (waiting m) = free"
  shows "\<exists>w'. exec_echo E (Accept_task i) w = Some w' \<and> script (ew_ext w') = rs' \<and>
    queued waiting w' = queued waiting w @ map Some (take free (streams rs)) \<and>
    total_tasks (snd (ew_tasks w')) = total_tasks st + of_nat (length (streams rs)) \<and>
    accept_count (ew_stats w') = accept_count (ew_stats w) + of_nat (length (streams rs)) \<and>
    current_connections (ew_stats w') = current_connections (ew_stats w) + of_nat (length (streams rs)) \<and>
    completed_requests (ew_stats w') = completed_requests (ew_stats w)"
proof -
  have c: "accept_client E waiting limit script" using M S by (rule accept_client.intro)
  have "accept_client.room waiting limit w = free" using m by (simp add: accept_client.room_def [OF c])
  with accept_client.accept_loop [OF c assms(3-5), of "ee_clock E w"] m(1) show ?thesis
    by (simp add: exec_echo_def run_accept_task_def)
qed

theorem accept_task_serves_witness:
  "\<exists>w'. exec_echo script_env (Accept_task 0)
      \<lparr>ew_tasks = ((1, []), TaskStats_new), ew_stats = ServerStats_new, ew_done = False, ew_ext = [Accepted 7, WouldBlock, Accepted 8, Failed]\<rparr> = Some w' \<and>
    queued snd w' = [Some 7] \<and> current_connections (ew_stats w') = 2"
  using accept_task_serves [OF scripted.manage_task_axioms scripted.accept_script_axioms,
      of "\<lparr>ew_tasks = ((1, []), TaskStats_new), ew_stats = ServerStats_new, ew_done = False, ew_ext = [Accepted 7, WouldBlock, Accepted 8, Failed]\<rparr>"
        "[Accepted 7, WouldBlock, Accepted 8]" "[]" "(1, [])" TaskStats_new 1 0]
  by (auto simp: queued_def ServerStats_new_def)

text \<open>
  The echo server never returns: the flag that its last loop tests is not the one its
  servers have, and nothing sets it. It can only panic, when the port is taken.
\<close>
lemma echo_server_runs_forever:
  assumes "\<And>w. ew_done (ee_sleep E w) = ew_done w"
  shows "run_echo_server_demo S E bound y w \<noteq> Some (Returns r)"
proof -
  have "rust_loop (monitor_body E) v = None" if "\<not> ew_done v" for v
    by (rule rust_loop_diverges [where P = "\<lambda>v. \<not> ew_done v", OF _ that]) (simp add: monitor_body_def assms)
  then show ?thesis by (simp add: run_echo_server_demo_def split: option.split)
qed

end
