(* ===== verification/Lib_Tasks.thy ===== *)
theory Lib_Tasks
  imports Containers
begin

text \<open>
  Tasks of \<open>src/lib.rs\<close>: \<open>WorkerStatus\<close>, \<open>TaskState\<close>, \<open>Task\<close>, \<open>TaskEntry\<close> and
  \<open>TaskQueue\<close>. Closures are values of a type \<open>'f\<close>; a fresh \<open>Uuid\<close> and a reading of the
  clock are arguments of the operations that draw them. The locks around the queue are
  taken and released within one operation and are left out.
\<close>

subsection \<open>Data\<close>

type_synonym uuid = "128 word"

datatype WorkerStatus = Initializing | Registering | Running | Blocked | Waiting | Completed

datatype 'f TaskState =
    TS_Pending 'f
  | TS_Running (ts_worker_tid: i32) (ts_start_time: nat) (ts_preempted: bool) (ts_blocked: bool) (ts_state: WorkerStatus)
  | TS_Completed

datatype 'f Task = Function 'f | Shutdown

record 'f TaskEntry =
  te_id :: uuid
  te_state :: "'f TaskState"
  te_priority :: "32 word"
  te_enqueue_time :: nat

definition TaskEntry_new :: "uuid \<Rightarrow> nat \<Rightarrow> 'f \<Rightarrow> 'f TaskEntry" where
  "TaskEntry_new new_v4 now task =
     \<lparr>te_id = new_v4, te_state = TS_Pending task, te_priority = 0, te_enqueue_time = now\<rparr>"

definition is_resumable :: "'f TaskEntry \<Rightarrow> bool" where
  "is_resumable t = (case te_state t of TS_Running _ _ preempted _ _ \<Rightarrow> preempted | _ \<Rightarrow> False)"

subsection \<open>\<open>TaskQueue\<close>\<close>

record ('q, 'f) TaskQueue =
  tq_pending :: 'q
  tq_preempted :: 'q
  tq_in_progress :: "uuid \<Rightarrow> 'f TaskEntry option"

definition TaskQueue_new :: "('q, 'f TaskEntry) queue_ops \<Rightarrow> ('q, 'f) TaskQueue" where
  "TaskQueue_new Q = \<lparr>tq_pending = q_new Q 1024, tq_preempted = q_new Q 1024, tq_in_progress = Map.empty\<rparr>"

definition enqueue :: "('q, 'f TaskEntry) queue_ops \<Rightarrow> 'f TaskEntry \<Rightarrow> ('q, 'f) TaskQueue \<Rightarrow> ('q, 'f) TaskQueue" where
  "enqueue Q task tq =
     (case te_state task of
        TS_Pending _ \<Rightarrow> tq\<lparr>tq_pending := push_or_drop Q task (tq_pending tq)\<rparr>
      | TS_Running _ _ preempted _ _ \<Rightarrow>
          if preempted then tq\<lparr>tq_preempted := push_or_drop Q task (tq_preempted tq)\<rparr>
          else tq\<lparr>tq_in_progress := (tq_in_progress tq)(te_id task \<mapsto> task)\<rparr>
      | TS_Completed \<Rightarrow> tq)"

definition get_next_task ::
  "('q, 'f TaskEntry) queue_ops \<Rightarrow> ('q, 'f) TaskQueue \<Rightarrow> 'f TaskEntry option \<times> ('q, 'f) TaskQueue" where
  "get_next_task Q tq =
     (case q_pop Q (tq_preempted tq) of
        Some (task, q) \<Rightarrow> (Some task, tq\<lparr>tq_preempted := q\<rparr>)
      | None \<Rightarrow>
          (case q_pop Q (tq_pending tq) of
             Some (task, q) \<Rightarrow> (Some task, tq\<lparr>tq_pending := q\<rparr>)
           | None \<Rightarrow> (None, tq)))"

definition mark_in_progress :: "uuid \<Rightarrow> i32 \<Rightarrow> nat \<Rightarrow> ('q, 'f) TaskQueue \<Rightarrow> ('q, 'f) TaskQueue" where
  "mark_in_progress task_id worker_tid now tq =
     (case tq_in_progress tq task_id of
        None \<Rightarrow> tq
      | Some task \<Rightarrow>
          (case te_state task of
             TS_Pending _ \<Rightarrow> tq\<lparr>tq_in_progress := (tq_in_progress tq)(task_id \<mapsto>
               task\<lparr>te_state := TS_Running worker_tid now False False Running\<rparr>)\<rparr>
           | _ \<Rightarrow> tq))"

text \<open>\<open>task_queue.in_progress.remove(&task_id)\<close> of the server.\<close>

definition remove_in_progress :: "uuid \<Rightarrow> ('q, 'f) TaskQueue \<Rightarrow> ('q, 'f) TaskQueue" where
  "remove_in_progress task_id tq = tq\<lparr>tq_in_progress := (tq_in_progress tq)(task_id := None)\<rparr>"

subsection \<open>The queue in use\<close>

text \<open>The operations the executor and the servers make, in any order, with any arguments.\<close>

inductive queue_step ::
  "('q, 'f TaskEntry) queue_ops \<Rightarrow> ('q, 'f) TaskQueue \<Rightarrow> ('q, 'f) TaskQueue \<Rightarrow> bool" for Q where
  add: "queue_step Q tq (enqueue Q (TaskEntry_new u now f) tq)"
| return_failed: "te_state t = TS_Completed \<Longrightarrow> queue_step Q tq (enqueue Q t tq)"
| take_next: "get_next_task Q tq = (t, tq') \<Longrightarrow> queue_step Q tq tq'"
| mark: "queue_step Q tq (mark_in_progress u tid now tq)"
| remove: "queue_step Q tq (remove_in_progress u tq)"

locale entry_queue = array_queue Q items cap
  for Q :: "('q, 'f TaskEntry) queue_ops" and items :: "'q \<Rightarrow> 'f TaskEntry list" and cap :: "'q \<Rightarrow> nat"
begin

text \<open>All tasks the queue still holds, in the order \<open>get_next_task\<close> gives them out.\<close>

definition backlog :: "('q, 'f) TaskQueue \<Rightarrow> 'f TaskEntry list" where
  "backlog tq = items (tq_preempted tq) @ items (tq_pending tq)"

definition pending_only :: "('q, 'f) TaskQueue \<Rightarrow> bool" where
  "pending_only tq \<longleftrightarrow> items (tq_preempted tq) = [] \<and> tq_in_progress tq = Map.empty \<and>
     (\<forall>t \<in> set (items (tq_pending tq)). \<exists>f. te_state t = TS_Pending f)"

lemma get_next_spec:
  "get_next_task Q tq = (t, tq') \<Longrightarrow>
     (case backlog tq of [] \<Rightarrow> t = None \<and> tq' = tq | x # xs \<Rightarrow> t = Some x \<and> backlog tq' = xs) \<and>
     tq_in_progress tq' = tq_in_progress tq"
  by (auto simp: get_next_task_def backlog_def pop_None_iff dest: pop_SomeD split: option.splits list.splits)

lemma get_next_pending:
  "get_next_task Q tq = (t, tq') \<Longrightarrow> items (tq_preempted tq) = [] \<Longrightarrow>
     items (tq_preempted tq') = [] \<and> set (items (tq_pending tq')) \<subseteq> set (items (tq_pending tq))"
  by (auto simp: get_next_task_def pop_None_iff dest: pop_SomeD split: option.splits)

lemma pending_only_new: "pending_only (TaskQueue_new Q)"
  by (simp add: pending_only_def TaskQueue_new_def items_new)

lemma pending_only_enqueue:
  "pending_only tq \<Longrightarrow> pending_only (enqueue Q (TaskEntry_new u now f) tq)"
  by (auto simp: pending_only_def enqueue_def TaskEntry_new_def queue_simps split: if_splits)

lemma pending_only_step:
  assumes "queue_step Q tq tq'" and "pending_only tq"
  shows "pending_only tq'"
  using assms
proof (induction rule: queue_step.induct)
  case (add tq u now f)
  then show ?case by (rule pending_only_enqueue)
next
  case (return_failed t tq)
  then show ?case by (simp add: enqueue_def)
next
  case (take_next tq t tq')
  from get_next_spec [OF take_next(1)] get_next_pending [OF take_next(1)] take_next(2)
  show ?case by (auto simp: pending_only_def)
next
  case (mark tq u tid now)
  then show ?case by (simp add: mark_in_progress_def pending_only_def)
next
  case (remove tq u)
  then show ?case by (simp add: remove_in_progress_def pending_only_def)
qed

lemma pending_only_steps: "(queue_step Q)\<^sup>*\<^sup>* tq tq' \<Longrightarrow> pending_only tq \<Longrightarrow> pending_only tq'"
  by (induction rule: rtranclp_induct) (auto intro: pending_only_step)

end

interpretation list_entries: entry_queue list_queue snd fst
  by unfold_locales

subsection \<open>Properties\<close>

text \<open>
  The map of tasks in progress stays empty for the whole life of a queue: no operation
  the program makes on it, in any order, ever enters a task there, because
  \<open>get_next_task\<close> does not insert the task it gives out and \<open>mark_in_progress\<close> only
  changes entries that are there. So \<open>mark_in_progress\<close> never has an effect, the queue of
  preempted tasks stays empty, and every waiting task is still pending.
\<close>
lemma in_progress_never_used:
  assumes "array_queue Q items cap" and "(queue_step Q)\<^sup>*\<^sup>* (TaskQueue_new Q) tq"
  shows "tq_in_progress tq = Map.empty \<and> mark_in_progress u tid now tq = tq \<and>
    items (tq_preempted tq) = [] \<and> (\<forall>t \<in> set (items (tq_pending tq)). \<exists>f. te_state t = TS_Pending f)"
proof -
  have eq: "entry_queue Q items cap" using assms(1) by (rule entry_queue.intro)
  from entry_queue.pending_only_steps [OF eq assms(2) entry_queue.pending_only_new [OF eq]]
  show ?thesis by (auto simp: entry_queue.pending_only_def [OF eq] mark_in_progress_def)
qed

lemma in_progress_never_used_example:
  "tq_in_progress (mark_in_progress 1 4 0 (enqueue list_queue (TaskEntry_new 1 0 (5::nat)) (TaskQueue_new list_queue))) = Map.empty"
proof -
  have "queue_step list_queue (TaskQueue_new list_queue) (enqueue list_queue (TaskEntry_new 1 0 (5::nat)) (TaskQueue_new list_queue))"
    by (rule queue_step.add)
  then have "(queue_step list_queue)\<^sup>*\<^sup>* (TaskQueue_new list_queue)
      (mark_in_progress 1 4 0 (enqueue list_queue (TaskEntry_new 1 0 (5::nat)) (TaskQueue_new list_queue)))"
    using queue_step.mark [of list_queue] by (meson r_into_rtranclp rtranclp.rtrancl_into_rtrancl)
  from in_progress_never_used [OF list_queue.array_queue_axioms this] show ?thesis by simp
qed

end
