(* ===== verification/Lib_Server.thy ===== *)
theory Lib_Server
  imports Lib_Tasks Umcg_Base Server_Error
begin

text \<open>
  The server of \<open>src/lib.rs\<close>: \<open>Worker\<close>, \<open>WorkerPool\<close> and the event handler of \<open>Server\<close>
  with the context switches it makes, and \<open>try_schedule_tasks\<close>.

  The pool is behind a mutex that the server's thread locks again and again. In one place
  the guard of the lock lives longer than the expression it is written in: the scrutinee
  of an \<open>if let\<close> keeps its temporaries until the end of the statement. The state therefore
  records whether this thread holds the lock, and locking it once more never returns.
  Operations give \<open>None\<close> where they never return.
\<close>

subsection \<open>Workers and the pool\<close>

text \<open>
  The sender of a worker is the sender of the channel made for its thread; channels are
  found by the thread id. The task handle every worker holds is the same executor.
\<close>

record Worker =
  w_id :: usize
  w_tid :: pid_t
  w_status :: WorkerStatus
  w_current_task :: "uuid option"
  w_server_id :: usize

definition Worker_new :: "usize \<Rightarrow> usize \<Rightarrow> pid_t \<Rightarrow> Worker" where
  "Worker_new wid server_id tid =
     \<lparr>w_id = wid, w_tid = tid, w_status = Initializing, w_current_task = None, w_server_id = server_id\<rparr>"

type_synonym pool = "pid_t \<Rightarrow> Worker option"

record ('q, 'f, 'x) lib_world =
  lw_queue :: "('q, 'f) TaskQueue"
  lw_channels :: "pid_t \<Rightarrow> 'f Task mpsc option"
  lw_done :: bool
  lw_ext :: 'x

record ('q, 'f, 'x) lib_server =
  ls_id :: usize
  ls_cpu_id :: usize
  ls_pool :: pool
  ls_total_workers :: nat
  ls_locked :: bool
  ls_world :: "('q, 'f, 'x) lib_world"

text \<open>
  Code outside the sources: the kernel, the queues, the order in which a \<open>HashMap\<close> is
  walked, the clock (nanoseconds), the affinity call, the start of a thread (which gives
  its id) and what other threads do between two steps of this one.
\<close>

record ('q, 'f, 'x) lib_env =
  le_kernel :: "('q, 'f, 'x) lib_world kernel"
  le_queue :: "('q, 'f TaskEntry) queue_ops"
  le_order :: "pool \<Rightarrow> pid_t list"
  le_now :: "('q, 'f, 'x) lib_world \<Rightarrow> nat"
  le_affinity :: "usize \<Rightarrow> ('q, 'f, 'x) lib_world \<Rightarrow> i32 \<times> ('q, 'f, 'x) lib_world"
  le_spawn :: "('q, 'f, 'x) lib_world \<Rightarrow> pid_t \<times> ('q, 'f, 'x) lib_world"
  le_others :: "('q, 'f, 'x) lib_world \<Rightarrow> ('q, 'f, 'x) lib_world"

type_synonym ('q, 'f, 'x) lib_result = "((ServerError + unit) \<times> ('q, 'f, 'x) lib_server) option"

definition add_worker :: "Worker \<Rightarrow> ('q, 'f, 'x) lib_server \<Rightarrow> ('q, 'f, 'x) lib_server option" where
  "add_worker worker s =
     (if ls_locked s then None else Some (s\<lparr>ls_pool := (ls_pool s)(w_tid worker \<mapsto> worker)\<rparr>))"

definition waiting_in :: "pool \<Rightarrow> pid_t \<Rightarrow> bool" where
  "waiting_in p tid = (case p tid of Some w \<Rightarrow> w_status w = Waiting | None \<Rightarrow> False)"

definition get_available_worker ::
  "(pool \<Rightarrow> pid_t list) \<Rightarrow> ('q, 'f, 'x) lib_server \<Rightarrow> Worker option option" where
  "get_available_worker order s =
     (if ls_locked s then None
      else Some (case find (waiting_in (ls_pool s)) (order (ls_pool s)) of None \<Rightarrow> None | Some tid \<Rightarrow> ls_pool s tid))"

definition update_worker_status ::
  "pid_t \<Rightarrow> WorkerStatus \<Rightarrow> uuid option \<Rightarrow> ('q, 'f, 'x) lib_server \<Rightarrow> ('q, 'f, 'x) lib_server option" where
  "update_worker_status tid status task s =
     (if ls_locked s then None
      else Some (case ls_pool s tid of
          None \<Rightarrow> s
        | Some w \<Rightarrow> s\<lparr>ls_pool := (ls_pool s)(tid \<mapsto> w\<lparr>w_status := status, w_current_task := task\<rparr>)\<rparr>))"

definition update_worker_status_keep_task ::
  "pid_t \<Rightarrow> WorkerStatus \<Rightarrow> ('q, 'f, 'x) lib_server \<Rightarrow> ('q, 'f, 'x) lib_server option" where
  "update_worker_status_keep_task tid status s =
     (if ls_locked s then None
      else Some (case ls_pool s tid of
          None \<Rightarrow> s
        | Some w \<Rightarrow> s\<lparr>ls_pool := (ls_pool s)(tid \<mapsto> w\<lparr>w_status := status\<rparr>)\<rparr>))"

definition get_worker_state ::
  "pid_t \<Rightarrow> ('q, 'f, 'x) lib_server \<Rightarrow> (WorkerStatus \<times> uuid option) option option" where
  "get_worker_state tid s =
     (if ls_locked s then None else Some (map_option (\<lambda>w. (w_status w, w_current_task w)) (ls_pool s tid)))"

definition transition_worker_state ::
  "pid_t \<Rightarrow> WorkerStatus \<Rightarrow> uuid option \<Rightarrow> ('q, 'f, 'x) lib_server \<Rightarrow> ('q, 'f, 'x) lib_server option" where
  "transition_worker_state tid new_state task_id s = update_worker_status tid new_state task_id s"

text \<open>
  \<open>Worker::assign_task\<close>: the closure is taken out of the entry, which is left marked
  completed, before the send that may fail; \<open>Inl\<close> hands the entry back.
\<close>

definition assign_task ::
  "'f TaskEntry \<Rightarrow> pid_t \<Rightarrow> ('q, 'f, 'x) lib_server \<Rightarrow> ('f TaskEntry + unit) \<times> ('q, 'f, 'x) lib_server" where
  "assign_task task tid s =
     (case te_state task of
        TS_Pending task_fn \<Rightarrow>
          (case Option.bind (lw_channels (ls_world s) tid) (mpsc_send (Function task_fn)) of
             Some tx \<Rightarrow> (Inr (), s\<lparr>ls_world := (ls_world s)\<lparr>lw_channels := (lw_channels (ls_world s))(tid \<mapsto> tx)\<rparr>\<rparr>)
           | None \<Rightarrow> (Inl (task\<lparr>te_state := TS_Completed\<rparr>), s))
      | _ \<Rightarrow> (Inr (), s))"

definition map_queue ::
  "(('q, 'f) TaskQueue \<Rightarrow> ('q, 'f) TaskQueue) \<Rightarrow> ('q, 'f, 'x) lib_server \<Rightarrow> ('q, 'f, 'x) lib_server" where
  "map_queue g s = s\<lparr>ls_world := (ls_world s)\<lparr>lw_queue := g (lw_queue (ls_world s))\<rparr>\<rparr>"

subsection \<open>Events\<close>

text \<open>The loop over the events of a switch, with the handler as an argument.\<close>

primrec for_events ::
  "(u64 \<Rightarrow> ('q, 'f, 'x) lib_server \<Rightarrow> ('q, 'f, 'x) lib_result) \<Rightarrow> u64 list \<Rightarrow>
   ('q, 'f, 'x) lib_server \<Rightarrow> ('q, 'f, 'x) lib_result" where
  "for_events h [] s = Some (Inr (), s)"
| "for_events h (e # es) s =
     Option.bind (h e s) (\<lambda>(r, s'). case r of Inl err \<Rightarrow> Some (Inl err, s') | Inr _ \<Rightarrow> for_events h es s')"

text \<open>\<open>context_switch_worker\<close>, with the event handler as an argument.\<close>

definition switch_with ::
  "(u64 \<Rightarrow> ('q, 'f, 'x) lib_server \<Rightarrow> ('q, 'f, 'x) lib_result) \<Rightarrow> ('q, 'f, 'x) lib_env \<Rightarrow> pid_t \<Rightarrow>
   ('q, 'f, 'x) lib_server \<Rightarrow> ('q, 'f, 'x) lib_result" where
  "switch_with h E tid s =
     (case sys_umcg_ctl (le_kernel E) 0 Cmd_CtxSwitch tid 0 (Some [0, 0]) 2 (ls_world s) of
        (switch_result, errno, events, w) \<Rightarrow>
          if switch_result \<noteq> 0 then Some (Inl (SystemError errno), s\<lparr>ls_world := w\<rparr>)
          else for_events h (takeWhile (\<lambda>e. e \<noteq> 0) (case events of Some evs \<Rightarrow> evs | None \<Rightarrow> []))
                 (s\<lparr>ls_world := w\<rparr>))"

text \<open>
  A WAKE of a worker that is running: it has completed its task. The next task is
  assigned inside an \<open>if let\<close> whose scrutinee locked the pool, so everything from the
  assignment to the end of the block runs with the lock held.
\<close>

definition assign_locked ::
  "(u64 \<Rightarrow> ('q, 'f, 'x) lib_server \<Rightarrow> ('q, 'f, 'x) lib_result) \<Rightarrow> ('q, 'f, 'x) lib_env \<Rightarrow> pid_t \<Rightarrow>
   'f TaskEntry \<Rightarrow> ('q, 'f, 'x) lib_server \<Rightarrow> ('q, 'f, 'x) lib_server option" where
  "assign_locked h E tid next_task s =
     (case assign_task next_task tid s of
        (Inr _, s1) \<Rightarrow>
          Option.bind (switch_with h E tid s1) (\<lambda>(r, s2).
            case r of Inr _ \<Rightarrow> Some s2 | Inl _ \<Rightarrow> update_worker_status tid Waiting None s2)
      | (Inl failed_task, s1) \<Rightarrow>
          update_worker_status tid Waiting None (map_queue (enqueue (le_queue E) failed_task) s1))"

definition assign_next ::
  "(u64 \<Rightarrow> ('q, 'f, 'x) lib_server \<Rightarrow> ('q, 'f, 'x) lib_result) \<Rightarrow> ('q, 'f, 'x) lib_env \<Rightarrow> pid_t \<Rightarrow>
   'f TaskEntry \<Rightarrow> ('q, 'f, 'x) lib_server \<Rightarrow> ('q, 'f, 'x) lib_server option" where
  "assign_next h E tid next_task s =
     (if ls_locked s then None
      else case ls_pool s tid of
          None \<Rightarrow> Some s
        | Some worker \<Rightarrow>
            Option.bind (assign_locked h E tid next_task (s\<lparr>ls_locked := True\<rparr>))
              (\<lambda>s'. Some (s'\<lparr>ls_locked := False\<rparr>)))"

definition wake_running ::
  "(u64 \<Rightarrow> ('q, 'f, 'x) lib_server \<Rightarrow> ('q, 'f, 'x) lib_result) \<Rightarrow> ('q, 'f, 'x) lib_env \<Rightarrow> pid_t \<Rightarrow>
   uuid option \<Rightarrow> ('q, 'f, 'x) lib_server \<Rightarrow> ('q, 'f, 'x) lib_server option" where
  "wake_running h E tid current_task s =
     Option.bind (update_worker_status tid Waiting None s) (\<lambda>s1.
       case current_task of
         None \<Rightarrow> Some s1
       | Some task_id \<Rightarrow>
           (case get_next_task (le_queue E) (remove_in_progress task_id (lw_queue (ls_world s1))) of
              (None, tq) \<Rightarrow> Some (map_queue (\<lambda>_. tq) s1)
            | (Some next_task, tq) \<Rightarrow>
                Option.bind (update_worker_status tid Running (Some (te_id next_task)) (map_queue (\<lambda>_. tq) s1)) (\<lambda>s2.
                  assign_next h E tid next_task
                    (map_queue (mark_in_progress (te_id next_task) tid (le_now E (ls_world s2))) s2))))"

text \<open>A WAKE of a blocked worker: it goes on with its task; a failed switch is only logged.\<close>

definition wake_blocked ::
  "(u64 \<Rightarrow> ('q, 'f, 'x) lib_server \<Rightarrow> ('q, 'f, 'x) lib_result) \<Rightarrow> ('q, 'f, 'x) lib_env \<Rightarrow> pid_t \<Rightarrow>
   uuid option \<Rightarrow> ('q, 'f, 'x) lib_server \<Rightarrow> ('q, 'f, 'x) lib_server option" where
  "wake_blocked h E tid current_task s =
     Option.bind (update_worker_status tid Running current_task s) (\<lambda>s1.
       Option.bind (switch_with h E tid s1) (\<lambda>(r, s2). Some s2))"

definition handle_wake ::
  "(u64 \<Rightarrow> ('q, 'f, 'x) lib_server \<Rightarrow> ('q, 'f, 'x) lib_result) \<Rightarrow> ('q, 'f, 'x) lib_env \<Rightarrow> pid_t \<Rightarrow>
   ('q, 'f, 'x) lib_server \<Rightarrow> ('q, 'f, 'x) lib_server option" where
  "handle_wake h E tid s =
     (case get_worker_state tid s of
        None \<Rightarrow> None
      | Some None \<Rightarrow> Some s
      | Some (Some (current_status, current_task)) \<Rightarrow>
          (case current_status of
             Running \<Rightarrow> wake_running h E tid current_task s
           | Blocked \<Rightarrow> wake_blocked h E tid current_task s
           | _ \<Rightarrow> Some s))"

definition handle_wait_event :: "pid_t \<Rightarrow> ('q, 'f, 'x) lib_server \<Rightarrow> ('q, 'f, 'x) lib_server option" where
  "handle_wait_event tid s =
     (case get_worker_state tid s of
        None \<Rightarrow> None
      | Some None \<Rightarrow> Some s
      | Some (Some (current_status, _)) \<Rightarrow>
          if current_status \<noteq> Waiting then update_worker_status tid Waiting None s else Some s)"

text \<open>\<open>handle_umcg_event\<close>, with the handler of nested events as an argument.\<close>

definition handle_with ::
  "(u64 \<Rightarrow> ('q, 'f, 'x) lib_server \<Rightarrow> ('q, 'f, 'x) lib_result) \<Rightarrow> ('q, 'f, 'x) lib_env \<Rightarrow> u64 \<Rightarrow>
   ('q, 'f, 'x) lib_server \<Rightarrow> ('q, 'f, 'x) lib_result" where
  "handle_with h E event s =
     (if event_type event \<in> {1, 2, 3, 4}
      then Option.bind
        (if event_type event = 1 then update_worker_status_keep_task (worker_tid event) Blocked s
         else if event_type event = 2 then handle_wake h E (worker_tid event) s
         else if event_type event = 3 then handle_wait_event (worker_tid event) s
         else update_worker_status (worker_tid event) Completed None s)
        (\<lambda>s'. Some (Inr (), s'))
      else Some (Inl (InvalidWorkerEvent (scast (worker_tid event)) event), s))"

subsection \<open>The recursion of handler and context switch\<close>

lemma mono_const [simp]: "mono_option (\<lambda>f. c)"
  by (rule option.const_mono)

lemma mono_for_events [partial_function_mono]:
  assumes "\<And>e s. mono_option (\<lambda>f. h f e s)"
  shows "mono_option (\<lambda>f. for_events (h f) es s)"
proof (induction es arbitrary: s)
  case Nil
  then show ?case by simp
next
  case (Cons e es)
  show ?case
    unfolding for_events.simps
  proof (rule bind_mono)
    show "mono_option (\<lambda>f. h f e s)" by (rule assms)
    show "mono_option (\<lambda>f. case rs of (r, s') \<Rightarrow> case r of Inl err \<Rightarrow> Some (Inl err, s') | Inr _ \<Rightarrow> for_events (h f) es s')" for rs
      using Cons.IH by (cases rs; cases "fst rs") auto
  qed
qed

lemma mono_switch_with [partial_function_mono]:
  assumes "\<And>e s. mono_option (\<lambda>f. h f e s)"
  shows "mono_option (\<lambda>f. switch_with (h f) E tid s)"
proof -
  obtain ret errno events w where
    "sys_umcg_ctl (le_kernel E) 0 Cmd_CtxSwitch tid 0 (Some [0, 0]) 2 (ls_world s) = (ret, errno, events, w)"
    by (metis prod_cases4)
  with mono_for_events [of h, OF assms] show ?thesis by (cases "ret = 0") (simp_all add: switch_with_def)
qed

lemma mono_assign_locked:
  assumes "\<And>e s. mono_option (\<lambda>f. h f e s)"
  shows "mono_option (\<lambda>f. assign_locked (h f) E tid t s)"
proof -
  obtain r s1 where a: "assign_task t tid s = (r, s1)" by fastforce
  show ?thesis
  proof (cases r)
    case (Inl x)
    with a show ?thesis by (simp add: assign_locked_def)
  next
    case (Inr x)
    with a show ?thesis by (simp add: assign_locked_def bind_mono [OF mono_switch_with [of h, OF assms]])
  qed
qed

lemma mono_assign_next:
  assumes "\<And>e s. mono_option (\<lambda>f. h f e s)"
  shows "mono_option (\<lambda>f. assign_next (h f) E tid t s)"
  using bind_mono [OF mono_assign_locked [of h, OF assms] mono_const]
  by (cases "ls_locked s"; cases "ls_pool s tid") (simp_all add: assign_next_def)

lemma mono_wake_running:
  fixes E :: "('q, 'f, 'x) lib_env"
  assumes "\<And>e s. mono_option (\<lambda>f. h f e s)"
  shows "mono_option (\<lambda>f. wake_running (h f) E tid ct s)"
  unfolding wake_running_def
proof (rule bind_mono [OF mono_const])
  fix s1 :: "('q, 'f, 'x) lib_server"
  let ?q = "\<lambda>task_id. get_next_task (le_queue E) (remove_in_progress task_id (lw_queue (ls_world s1)))"
  have an: "mono_option (\<lambda>f. Option.bind u (\<lambda>s2. assign_next (h f) E tid t (g s2)))" for u t g
    by (rule bind_mono [OF mono_const mono_assign_next [of h, OF assms]])
  show "mono_option (\<lambda>f. case ct of None \<Rightarrow> Some s1
       | Some task_id \<Rightarrow>
           (case ?q task_id of
              (None, tq) \<Rightarrow> Some (map_queue (\<lambda>_. tq) s1)
            | (Some next_task, tq) \<Rightarrow>
                Option.bind (update_worker_status tid Running (Some (te_id next_task)) (map_queue (\<lambda>_. tq) s1)) (\<lambda>s2.
                  assign_next (h f) E tid next_task
                    (map_queue (mark_in_progress (te_id next_task) tid (le_now E (ls_world s2))) s2))))"
  proof (cases ct)
    case None
    then show ?thesis by simp
  next
    case (Some task_id)
    with an show ?thesis by (cases "?q task_id"; cases "fst (?q task_id)") simp_all
  qed
qed

lemma mono_handle_wake:
  assumes "\<And>e s. mono_option (\<lambda>f. h f e s)"
  shows "mono_option (\<lambda>f. handle_wake (h f) E tid s)"
proof -
  have wb: "mono_option (\<lambda>f. wake_blocked (h f) E tid ct s)" for ct
    unfolding wake_blocked_def
    by (rule bind_mono [OF mono_const bind_mono [OF mono_switch_with [of h, OF assms] mono_const]])
  show ?thesis
  proof (cases "get_worker_state tid s")
    case None
    then show ?thesis by (simp add: handle_wake_def)
  next
    case (Some x)
    show ?thesis
    proof (cases x)
      case (Some y)
      with \<open>get_worker_state tid s = Some x\<close> wb mono_wake_running [of h, OF assms] show ?thesis
        by (cases y; cases "fst y") (simp_all add: handle_wake_def)
    qed (use Some in \<open>simp add: handle_wake_def\<close>)
  qed
qed

lemma mono_handle_with [partial_function_mono]:
  assumes "\<And>e s. mono_option (\<lambda>f. h f e s)"
  shows "mono_option (\<lambda>f. handle_with (h f) E event s)"
proof (cases "event_type event \<in> {1, 2, 3, 4}")
  case True
  have "mono_option (\<lambda>f. if event_type event = 1 then a else if event_type event = 2 then handle_wake (h f) E tid s
      else if event_type event = 3 then b else c)" for a b c tid
    using mono_handle_wake [of h, OF assms] by (cases "event_type event = 1"; cases "event_type event = 2") simp_all
  from bind_mono [OF this mono_const] show ?thesis by (simp only: handle_with_def True if_True)
next
  case False
  then show ?thesis by (simp add: handle_with_def)
qed

partial_function (option) handle_umcg_event ::
  "('q, 'f, 'x) lib_env \<Rightarrow> u64 \<Rightarrow> ('q, 'f, 'x) lib_server \<Rightarrow> ('q, 'f, 'x) lib_result" where
  "handle_umcg_event E event s = handle_with (\<lambda>e s. handle_umcg_event E e s) E event s"

definition context_switch_worker ::
  "('q, 'f, 'x) lib_env \<Rightarrow> pid_t \<Rightarrow> ('q, 'f, 'x) lib_server \<Rightarrow> ('q, 'f, 'x) lib_result" where
  "context_switch_worker E tid s = switch_with (handle_umcg_event E) E tid s"

subsection \<open>Scheduling\<close>

text \<open>
  \<open>try_schedule_tasks\<close>: the first waiting worker in the order of the map gets the next
  task. The pool's lock is released before the switch.
\<close>

definition schedule_on ::
  "('q, 'f, 'x) lib_env \<Rightarrow> pid_t \<Rightarrow> 'f TaskEntry \<Rightarrow> ('q, 'f, 'x) lib_server \<Rightarrow> ('q, 'f, 'x) lib_result" where
  "schedule_on E tid task s =
     (case assign_task task tid s of
        (Inr _, s1) \<Rightarrow>
          Option.bind (context_switch_worker E tid s1) (\<lambda>(r, s2).
            case r of
              Inr _ \<Rightarrow> Some (Inr (), s2)
            | Inl err \<Rightarrow> Option.bind (update_worker_status tid Waiting None s2) (\<lambda>s3. Some (Inl err, s3)))
      | (Inl failed_task, s1) \<Rightarrow>
          Option.bind (update_worker_status tid Waiting None (map_queue (enqueue (le_queue E) failed_task) s1))
            (\<lambda>s2. Some (Inr (), s2)))"

definition try_schedule_tasks ::
  "('q, 'f, 'x) lib_env \<Rightarrow> ('q, 'f, 'x) lib_server \<Rightarrow> ('q, 'f, 'x) lib_result" where
  "try_schedule_tasks E s =
     (if ls_locked s then None
      else case Option.bind (find (waiting_in (ls_pool s)) (le_order E (ls_pool s))) (ls_pool s) of
          None \<Rightarrow> Some (Inr (), s)
        | Some worker \<Rightarrow>
            (case get_next_task (le_queue E) (lw_queue (ls_world s)) of
               (None, tq) \<Rightarrow> Some (Inr (), map_queue (\<lambda>_. tq) s)
             | (Some task, tq) \<Rightarrow>
                 Option.bind
                   (update_worker_status (w_tid worker) Running (Some (te_id task)) (map_queue (\<lambda>_. tq) s))
                   (\<lambda>s1. schedule_on E (w_tid worker) task
                     (map_queue (mark_in_progress (te_id task) (w_tid worker) (le_now E (ls_world s1))) s1))))"

end
