(* ===== verification/Lib_Events.thy ===== *)
theory Lib_Events
  imports Lib_Server
begin

text \<open>
  What the event handler and the scheduler of \<open>src/lib.rs\<close> keep: the set of workers, their
  identities, the state of the pool's lock, and that only running or blocked workers have
  a task. When the handler returns, and when it locks itself out.
\<close>

subsection \<open>What every step keeps\<close>

text \<open>Each worker is stored under its thread id; only running and blocked workers have a task.\<close>

definition pool_ok :: "pool \<Rightarrow> bool" where
  "pool_ok p \<longleftrightarrow> (\<forall>tid w. p tid = Some w \<longrightarrow> w_tid w = tid \<and>
     (w_current_task w \<noteq> None \<longrightarrow> w_status w = Running \<or> w_status w = Blocked))"

definition same_workers :: "pool \<Rightarrow> pool \<Rightarrow> bool" where
  "same_workers p p' \<longleftrightarrow> dom p' = dom p \<and>
     (\<forall>tid w w'. p tid = Some w \<longrightarrow> p' tid = Some w' \<longrightarrow>
        w_id w' = w_id w \<and> w_tid w' = w_tid w \<and> w_server_id w' = w_server_id w)"

definition keeps :: "('q, 'f, 'x) lib_server \<Rightarrow> ('q, 'f, 'x) lib_server \<Rightarrow> bool" where
  "keeps s s' \<longleftrightarrow> same_workers (ls_pool s) (ls_pool s') \<and> ls_locked s' = ls_locked s \<and>
     ls_id s' = ls_id s \<and> ls_total_workers s' = ls_total_workers s \<and>
     (pool_ok (ls_pool s) \<longrightarrow> pool_ok (ls_pool s'))"

lemma same_workers_refl [simp]: "same_workers p p"
  by (simp add: same_workers_def)

lemma same_workers_domD: "same_workers p p' \<Longrightarrow> dom p' = dom p"
  unfolding same_workers_def by blast

lemma same_workers_eqD:
  "same_workers p p' \<Longrightarrow> p tid = Some w \<Longrightarrow> p' tid = Some w' \<Longrightarrow>
     w_id w' = w_id w \<and> w_tid w' = w_tid w \<and> w_server_id w' = w_server_id w"
  unfolding same_workers_def by blast

lemma same_workers_trans:
  assumes "same_workers p p'" and "same_workers p' p''"
  shows "same_workers p p''"
  unfolding same_workers_def
proof (intro conjI allI impI)
  show "dom p'' = dom p" using assms [THEN same_workers_domD] by (rule trans [rotated])
next
  fix tid w w''
  assume w: "p tid = Some w" and w'': "p'' tid = Some w''"
  from w have "tid \<in> dom p'" unfolding same_workers_domD [OF assms(1)] by (rule domI)
  then obtain w' where w': "p' tid = Some w'" by blast
  show "w_id w'' = w_id w" "w_tid w'' = w_tid w" "w_server_id w'' = w_server_id w"
    using same_workers_eqD [OF assms(1) w w'] same_workers_eqD [OF assms(2) w' w''] by simp_all
qed

lemma keeps_refl [simp]: "keeps s s"
  by (simp add: keeps_def)

lemma keeps_trans [trans]: "keeps s s' \<Longrightarrow> keeps s' s'' \<Longrightarrow> keeps s s''"
  unfolding keeps_def using same_workers_trans by metis

lemma keeps_world [simp]:
  "keeps s (s\<lparr>ls_world := w\<rparr>)" "keeps s (map_queue g s)"
  by (simp_all add: keeps_def map_queue_def)

lemma keeps_set_status:
  assumes "ls_pool s tid = Some w" and "st \<in> {Running, Blocked} \<or> task = None"
  shows "keeps s (s\<lparr>ls_pool := (ls_pool s)(tid \<mapsto> w\<lparr>w_status := st, w_current_task := task\<rparr>)\<rparr>)"
  using assms by (auto simp: keeps_def same_workers_def pool_ok_def)

lemma keeps_update_no_task: "update_worker_status tid st None s = Some s' \<Longrightarrow> keeps s s'"
  by (auto simp: update_worker_status_def intro!: keeps_set_status split: if_splits option.splits)

lemma keeps_update_running: "update_worker_status tid Running task s = Some s' \<Longrightarrow> keeps s s'"
  by (auto simp: update_worker_status_def intro!: keeps_set_status split: if_splits option.splits)

lemmas keeps_update = keeps_update_no_task keeps_update_running

lemma keeps_update_block:
  assumes "update_worker_status_keep_task tid Blocked s = Some s'"
  shows "keeps s s'"
proof (cases "ls_pool s tid")
  case None
  with assms show ?thesis by (auto simp: update_worker_status_keep_task_def split: if_splits)
next
  case (Some w)
  from keeps_set_status [OF Some, of Blocked "w_current_task w"] Some assms show ?thesis
    by (auto simp: update_worker_status_keep_task_def split: if_splits)
qed

lemma keeps_assign: "assign_task t tid s = (r, s') \<Longrightarrow> keeps s s'"
  by (auto simp: assign_task_def split: TaskState.splits option.splits)

lemma assign_locked_flag: "assign_task t tid s = (r, s') \<Longrightarrow> ls_locked s' = ls_locked s"
  by (auto simp: assign_task_def split: TaskState.splits option.splits)

subsection \<open>The handler keeps it\<close>

definition keeping :: "(u64 \<Rightarrow> ('q, 'f, 'x) lib_server \<Rightarrow> ('q, 'f, 'x) lib_result) \<Rightarrow> bool" where
  "keeping h \<longleftrightarrow> (\<forall>e s r s'. h e s = Some (r, s') \<longrightarrow> keeps s s')"

lemma keeping_for_events:
  "keeping h \<Longrightarrow> for_events h es s = Some (r, s') \<Longrightarrow> keeps s s'"
proof (induction es arbitrary: s)
  case (Cons e es)
  from Cons.prems(2) obtain r1 s1 where h: "h e s = Some (r1, s1)"
    and rest: "(case r1 of Inl err \<Rightarrow> Some (Inl err, s1) | Inr _ \<Rightarrow> for_events h es s1) = Some (r, s')"
    by (auto simp: bind_eq_Some_conv)
  from h Cons.prems(1) have "keeps s s1" by (auto simp: keeping_def)
  also have "keeps s1 s'" using rest Cons by (cases r1) auto
  finally show ?case .
qed simp

lemma keeping_switch:
  assumes "keeping h" and "switch_with h E tid s = Some (r, s')"
  shows "keeps s s'"
proof -
  obtain ret errno events w where c:
    "sys_umcg_ctl (le_kernel E) 0 Cmd_CtxSwitch tid 0 (Some [0, 0]) 2 (ls_world s) = (ret, errno, events, w)"
    by (metis prod_cases4)
  have "keeps s (s\<lparr>ls_world := w\<rparr>)" by simp
  moreover have "keeps (s\<lparr>ls_world := w\<rparr>) s'"
    using assms c by (auto simp: switch_with_def intro: keeping_for_events split: if_splits)
  ultimately show ?thesis by (rule keeps_trans)
qed

lemma keeping_assign_locked:
  assumes "keeping h" and "assign_locked h E tid t s = Some s'"
  shows "keeps s s'"
proof -
  obtain r s1 where a: "assign_task t tid s = (r, s1)" by fastforce
  note s1 = keeps_assign [OF a]
  show ?thesis
  proof (cases r)
    case (Inl failed)
    with a assms(2) have "update_worker_status tid Waiting None (map_queue (enqueue (le_queue E) failed) s1) = Some s'"
      by (simp add: assign_locked_def)
    from keeps_update(1) [OF this] s1 show ?thesis using keeps_trans keeps_world(2) by blast
  next
    case (Inr u)
    with a assms(2) obtain r2 s2 where sw: "switch_with h E tid s1 = Some (r2, s2)"
      and rest: "(case r2 of Inr _ \<Rightarrow> Some s2 | Inl _ \<Rightarrow> update_worker_status tid Waiting None s2) = Some s'"
      by (auto simp: assign_locked_def bind_eq_Some_conv)
    have "keeps s2 s'" using rest by (cases r2) (auto intro: keeps_update)
    with s1 keeping_switch [OF assms(1) sw] show ?thesis using keeps_trans by blast
  qed
qed

lemma keeping_assign_next:
  assumes "keeping h" and "assign_next h E tid t s = Some s'"
  shows "keeps s s'"
proof (cases "ls_pool s tid")
  case None
  with assms(2) show ?thesis by (auto simp: assign_next_def split: if_splits)
next
  case (Some w)
  with assms(2) obtain s1 where l: "\<not> ls_locked s" "assign_locked h E tid t (s\<lparr>ls_locked := True\<rparr>) = Some s1"
    "s' = s1\<lparr>ls_locked := False\<rparr>"
    by (auto simp: assign_next_def bind_eq_Some_conv split: if_splits)
  from keeping_assign_locked [OF assms(1) l(2)] l show ?thesis by (auto simp: keeps_def)
qed

lemma keeping_wake_running:
  assumes h: "keeping h" and w: "wake_running h E tid ct s = Some s'"
  shows "keeps s s'"
proof -
  from w obtain s1 where s1: "update_worker_status tid Waiting None s = Some s1"
    and rest: "(case ct of None \<Rightarrow> Some s1
       | Some task_id \<Rightarrow>
           (case get_next_task (le_queue E) (remove_in_progress task_id (lw_queue (ls_world s1))) of
              (None, tq) \<Rightarrow> Some (map_queue (\<lambda>_. tq) s1)
            | (Some next_task, tq) \<Rightarrow>
                Option.bind (update_worker_status tid Running (Some (te_id next_task)) (map_queue (\<lambda>_. tq) s1)) (\<lambda>s2.
                  assign_next h E tid next_task
                    (map_queue (mark_in_progress (te_id next_task) tid (le_now E (ls_world s2))) s2)))) = Some s'"
    unfolding wake_running_def bind_eq_Some_conv by blast
  note k1 = keeps_update(1) [OF s1]
  show ?thesis
  proof (cases ct)
    case None
    with rest k1 show ?thesis by simp
  next
    case (Some task_id)
    obtain n tq where q: "get_next_task (le_queue E) (remove_in_progress task_id (lw_queue (ls_world s1))) = (n, tq)"
      by fastforce
    have "keeps s1 s'"
    proof (cases n)
      case None
      with rest Some q show ?thesis by auto
    next
      case next_task: (Some t)
      with rest Some q obtain s2 where
        s2: "update_worker_status tid Running (Some (te_id t)) (map_queue (\<lambda>_. tq) s1) = Some s2"
        and an: "assign_next h E tid t (map_queue (mark_in_progress (te_id t) tid (le_now E (ls_world s2))) s2) = Some s'"
        by (auto simp: bind_eq_Some_conv)
      have "keeps s1 s2" by (rule keeps_trans [OF keeps_world(2) keeps_update(2) [OF s2]])
      moreover have "keeps s2 s'" by (rule keeps_trans [OF keeps_world(2) keeping_assign_next [OF h an]])
      ultimately show ?thesis by (rule keeps_trans)
    qed
    with k1 show ?thesis by (rule keeps_trans)
  qed
qed

lemma keeping_wake:
  assumes h: "keeping h" and w: "handle_wake h E tid s = Some s'"
  shows "keeps s s'"
proof -
  have b: "wake_blocked h E tid ct s = Some s' \<Longrightarrow> keeps s s'" for ct
    by (auto simp: wake_blocked_def bind_eq_Some_conv
        intro: keeps_trans [OF keeps_update(2) keeping_switch [OF h]])
  show ?thesis
    using w keeping_wake_running [OF h] b
    by (auto simp: handle_wake_def split: option.splits WorkerStatus.splits)
qed

lemma keeps_wait_event: "handle_wait_event tid s = Some s' \<Longrightarrow> keeps s s'"
  by (auto simp: handle_wait_event_def intro: keeps_update_no_task split: if_splits option.splits)

lemma handle_with_cases:
  assumes "handle_with h E e s = Some (r, s')"
  obtains (block) "update_worker_status_keep_task (worker_tid e) Blocked s = Some s'"
    | (wake) "handle_wake h E (worker_tid e) s = Some s'"
    | (wait) "handle_wait_event (worker_tid e) s = Some s'"
    | (exit) "update_worker_status (worker_tid e) Completed None s = Some s'"
    | (invalid) "s' = s"
proof (cases "event_type e \<in> {1, 2, 3, 4}")
  case True
  let ?act = "if event_type e = 1 then update_worker_status_keep_task (worker_tid e) Blocked s
         else if event_type e = 2 then handle_wake h E (worker_tid e) s
         else if event_type e = 3 then handle_wait_event (worker_tid e) s
         else update_worker_status (worker_tid e) Completed None s"
  from assms have "Option.bind ?act (\<lambda>s'. Some (Inr (), s')) = Some (r, s')"
    unfolding handle_with_def if_P [OF True] .
  then have "?act = Some s'" unfolding bind_eq_Some_conv by (elim exE conjE) (simp only: option.inject prod.inject)
  with block wake wait exit show thesis
    by (cases "event_type e = 1"; cases "event_type e = 2"; cases "event_type e = 3") simp_all
next
  case False
  from assms have "s' = s" unfolding handle_with_def if_not_P [OF False] by simp
  then show thesis by (rule invalid)
qed

lemma keeping_handle_with:
  assumes "keeping h" and "handle_with h E e s = Some (r, s')"
  shows "keeps s s'"
  using assms(2)
  by (cases rule: handle_with_cases)
     (auto intro: keeps_update_block keeping_wake [OF assms(1)] keeps_wait_event keeps_update_no_task)

lemma handle_umcg_event_keeps:
  assumes "handle_umcg_event E e s = Some (r, s')"
  shows "keeps s s'"
proof -
  have "keeps s (snd (r, s'))"
  proof (rule handle_umcg_event.raw_induct [where P = "\<lambda>E e s q. keeps s (snd q)", OF _ assms])
    fix f :: "('a, 'b, 'c) lib_env \<Rightarrow> u64 \<Rightarrow> ('a, 'b, 'c) lib_server \<Rightarrow> ('a, 'b, 'c) lib_result" and E e s q
    assume IH: "\<And>E e s q. f E e s = Some q \<Longrightarrow> keeps s (snd q)"
      and eq: "handle_with (f E) E e s = Some q"
    have "keeping (f E)" unfolding keeping_def using IH by (metis snd_conv)
    from keeping_handle_with [OF this, of E e s] eq show "keeps s (snd q)" by (cases q) auto
  qed
  then show ?thesis by simp
qed

end
