(* ===== verification/Lib_Handler.thy ===== *)
theory Lib_Handler
  imports Lib_Events
begin

text \<open>
  The properties of the event handler and of the scheduler of \<open>src/lib.rs\<close>: what they
  keep, when they return, what one scheduling step does, and the self-deadlock of the
  handler when it assigns the next task to a worker it found running.
\<close>

subsection \<open>With the pool locked\<close>

lemma locked_pool:
  assumes "ls_locked s"
  shows "update_worker_status tid st task s = None" "update_worker_status_keep_task tid st s = None"
    "get_worker_state tid s = None"
  using assms by (simp_all add: update_worker_status_def update_worker_status_keep_task_def get_worker_state_def)

lemma locked_handle_with:
  assumes "ls_locked s"
  shows "handle_with h E e s = None \<or> (\<exists>err. handle_with h E e s = Some (Inl err, s))"
proof (cases "event_type e \<in> {1, 2, 3, 4}")
  case True
  then show ?thesis
    unfolding handle_with_def if_P [OF True]
    by (simp add: locked_pool [OF assms] handle_wake_def handle_wait_event_def)
next
  case False
  then show ?thesis unfolding handle_with_def if_not_P [OF False] by simp
qed

lemma locked_handle:
  "ls_locked s \<Longrightarrow> handle_umcg_event E e s = None \<or> (\<exists>err. handle_umcg_event E e s = Some (Inl err, s))"
  unfolding handle_umcg_event.simps [of E e s] by (rule locked_handle_with)

text \<open>A context switch that succeeds and reports nothing, from the world \<open>w\<close>.\<close>

definition switch_quiet :: "('q, 'f, 'x) lib_env \<Rightarrow> pid_t \<Rightarrow> ('q, 'f, 'x) lib_world \<Rightarrow> bool" where
  "switch_quiet E tid w =
     (case sys_umcg_ctl (le_kernel E) 0 Cmd_CtxSwitch tid 0 (Some [0, 0]) 2 w of
        (ret, _, events, _) \<Rightarrow> ret = 0 \<and> takeWhile (\<lambda>e. e \<noteq> 0) (case events of Some evs \<Rightarrow> evs | None \<Rightarrow> []) = [])"

lemma locked_switch:
  assumes "ls_locked s"
  shows "(switch_quiet E tid (ls_world s) \<longrightarrow> (\<exists>w. switch_with (handle_umcg_event E) E tid s = Some (Inr (), s\<lparr>ls_world := w\<rparr>))) \<and>
    (\<not> switch_quiet E tid (ls_world s) \<longrightarrow>
       switch_with (handle_umcg_event E) E tid s = None \<or>
       (\<exists>err s'. switch_with (handle_umcg_event E) E tid s = Some (Inl err, s') \<and> ls_locked s'))"
proof -
  obtain ret errno events w where c:
    "sys_umcg_ctl (le_kernel E) 0 Cmd_CtxSwitch tid 0 (Some [0, 0]) 2 (ls_world s) = (ret, errno, events, w)"
    by (metis prod_cases4)
  let ?evs = "takeWhile (\<lambda>e. e \<noteq> 0) (case events of Some evs \<Rightarrow> evs | None \<Rightarrow> [])"
  have l: "ls_locked (s\<lparr>ls_world := w\<rparr>)" using assms by simp
  show ?thesis
  proof (cases ?evs)
    case Nil
    with c l show ?thesis by (auto simp: switch_quiet_def switch_with_def)
  next
    case (Cons e es)
    from locked_handle [OF l, of E e] Cons c l show ?thesis
      by (auto simp: switch_quiet_def switch_with_def)
  qed
qed

lemma locked_assign_None_iff:
  assumes "ls_locked s" and "te_state t = TS_Pending f" and "lw_channels (ls_world s) tid = Some tx"
  shows "assign_locked (handle_umcg_event E) E tid t s = None \<longleftrightarrow>
    \<not> (mpsc_rx tx \<and> switch_quiet E tid ((ls_world s)\<lparr>lw_channels := (lw_channels (ls_world s))(tid \<mapsto>
        tx\<lparr>mpsc_buf := mpsc_buf tx @ [Function f]\<rparr>)\<rparr>))"
proof (cases "mpsc_rx tx")
  case False
  with assms have "assign_task t tid s = (Inl (t\<lparr>te_state := TS_Completed\<rparr>), s)"
    by (simp add: assign_task_def mpsc_send_def)
  with False assms(1) show ?thesis by (simp add: assign_locked_def locked_pool map_queue_def)
next
  case True
  let ?s = "s\<lparr>ls_world := (ls_world s)\<lparr>lw_channels := (lw_channels (ls_world s))(tid \<mapsto>
        tx\<lparr>mpsc_buf := mpsc_buf tx @ [Function f]\<rparr>)\<rparr>\<rparr>"
  from True assms have a: "assign_task t tid s = (Inr (), ?s)" by (simp add: assign_task_def mpsc_send_def)
  have l: "ls_locked ?s" using assms(1) by simp
  from locked_switch [OF l, of E tid] show ?thesis
    using True by (auto simp: assign_locked_def a locked_pool)
qed

subsection \<open>When the handler returns\<close>

text \<open>No context switch reports a WAKE: workers wake up while others run, and are reported to a waiting server.\<close>

definition no_wake_kernel :: "'w kernel \<Rightarrow> bool" where
  "no_wake_kernel K \<longleftrightarrow> (\<forall>args buf w. a_cmd args = cmd_u64 Cmd_CtxSwitch \<longrightarrow>
     (\<forall>e \<in> set (sr_written (K args buf w)). event_type e \<noteq> event_u64 Ev_Wake))"

lemma unlocked_pool:
  assumes "\<not> ls_locked s"
  obtains s' where "update_worker_status tid st task s = Some s'" and "\<not> ls_locked s'"
    and "ls_world s' = ls_world s" and "ls_id s' = ls_id s"
  using assms by (auto simp: update_worker_status_def split: option.splits)

lemma handle_not_wake:
  assumes "event_type e \<noteq> event_u64 Ev_Wake" and "\<not> ls_locked s"
  shows "\<exists>r s'. handle_with h E e s = Some (r, s') \<and> \<not> ls_locked s'"
proof (cases "event_type e \<in> {1, 2, 3, 4}")
  case True
  have b: "\<exists>s'. update_worker_status_keep_task tid Blocked s = Some s' \<and> \<not> ls_locked s'" for tid
    using assms(2) by (auto simp: update_worker_status_keep_task_def split: option.splits)
  have u: "\<exists>s'. update_worker_status tid st None s = Some s' \<and> \<not> ls_locked s'" for tid st
    using unlocked_pool [OF assms(2), of tid st None] by metis
  have w: "\<exists>s'. handle_wait_event tid s = Some s' \<and> \<not> ls_locked s'" for tid
    using u [of tid Waiting] assms(2) by (auto simp: handle_wait_event_def get_worker_state_def split: option.splits)
  from assms(1) have n: "event_type e \<noteq> 2" by simp
  show ?thesis
    unfolding handle_with_def if_P [OF True]
    using b [of "worker_tid e"] u [of "worker_tid e" Completed] w [of "worker_tid e"] n
    by (cases "event_type e = 1"; cases "event_type e = 3") auto
next
  case False
  with assms(2) show ?thesis unfolding handle_with_def if_not_P [OF False] by simp
qed

lemma for_events_not_wake:
  assumes "\<forall>e \<in> set es. event_type e \<noteq> event_u64 Ev_Wake" and "\<not> ls_locked s"
  shows "\<exists>r s'. for_events (handle_umcg_event E) es s = Some (r, s') \<and> \<not> ls_locked s'"
  using assms
proof (induction es arbitrary: s)
  case (Cons e es)
  from Cons.prems handle_not_wake [of e s "handle_umcg_event E" E] obtain r s1 where
    h: "handle_umcg_event E e s = Some (r, s1)" and l: "\<not> ls_locked s1"
    unfolding handle_umcg_event.simps [of E e s] by auto
  from Cons.IH [OF _ l] Cons.prems h l show ?case by (cases r) auto
qed simp

lemma set_overwrite: "set (overwrite ws buf) \<subseteq> set ws \<union> set buf"
  by (auto simp: overwrite_def dest!: in_set_takeD in_set_dropD)

lemma switch_returns:
  assumes "no_wake_kernel (le_kernel E)" and "\<not> ls_locked s"
  shows "\<exists>r s'. switch_with (handle_umcg_event E) E tid s = Some (r, s') \<and> \<not> ls_locked s'"
proof -
  let ?args = "\<lparr>a_nr = SYS_UMCG_CTL, a_flags = 0, a_cmd = cmd_u64 Cmd_CtxSwitch, a_next_tid = scast tid,
    a_timeout = 0, a_event_sz = scast (2 :: i32)\<rparr>"
  let ?r = "le_kernel E ?args (Some [0, 0]) (ls_world s)"
  let ?evs = "takeWhile (\<lambda>e. e \<noteq> 0) (overwrite (sr_written ?r) [0, 0])"
  have "\<forall>e \<in> set (sr_written ?r). event_type e \<noteq> event_u64 Ev_Wake"
    using assms(1) [unfolded no_wake_kernel_def, rule_format, of ?args] by auto
  then have "\<forall>e \<in> set ?evs. event_type e \<noteq> event_u64 Ev_Wake"
    using set_overwrite [of "sr_written ?r" "[0, 0]"] by (fastforce dest: set_takeWhileD)
  from for_events_not_wake [OF this, of "s\<lparr>ls_world := sr_world ?r\<rparr>" E] assms(2)
  show ?thesis
    by (auto simp: switch_with_def sys_umcg_ctl_def umcg_syscall_def Let_def)
qed

lemma handle_wake_eq:
  assumes "event_type e = event_u64 Ev_Wake"
  shows "handle_umcg_event E e s =
    Option.bind (handle_wake (handle_umcg_event E) E (worker_tid e) s) (\<lambda>s'. Some (Inr (), s'))"
  using assms by (simp add: handle_umcg_event.simps [of E e s] handle_with_def)

text \<open>A WAKE of a running worker that holds a task, while another task is waiting.\<close>

definition completes_with_next :: "('q, 'f, 'x) lib_env \<Rightarrow> u64 \<Rightarrow> ('q, 'f, 'x) lib_server \<Rightarrow> bool" where
  "completes_with_next E e s \<longleftrightarrow> event_type e = event_u64 Ev_Wake \<and>
     (\<exists>w task_id. ls_pool s (worker_tid e) = Some w \<and> w_status w = Running \<and> w_current_task w = Some task_id \<and>
        fst (get_next_task (le_queue E) (remove_in_progress task_id (lw_queue (ls_world s)))) \<noteq> None)"

lemma wake_running_returns:
  assumes "\<not> ls_locked s"
    and "\<And>task_id. ct = Some task_id \<Longrightarrow> fst (get_next_task (le_queue E) (remove_in_progress task_id (lw_queue (ls_world s)))) = None"
  shows "\<exists>s'. wake_running h E tid ct s = Some s' \<and> \<not> ls_locked s'"
proof -
  from unlocked_pool [OF assms(1), of tid Waiting None] obtain s1 where
    s1: "update_worker_status tid Waiting None s = Some s1" "\<not> ls_locked s1" "ls_world s1 = ls_world s" by metis
  show ?thesis
  proof (cases ct)
    case None
    with s1 show ?thesis by (simp add: wake_running_def)
  next
    case (Some task_id)
    with assms(2) obtain tq where
      "get_next_task (le_queue E) (remove_in_progress task_id (lw_queue (ls_world s1))) = (None, tq)"
      using s1(3) by (metis prod.collapse)
    with Some s1 show ?thesis by (simp add: wake_running_def map_queue_def)
  qed
qed

lemma handler_returns_unless:
  assumes "no_wake_kernel (le_kernel E)" and "\<not> ls_locked s" and "\<not> completes_with_next E e s"
  shows "\<exists>r s'. handle_umcg_event E e s = Some (r, s') \<and> \<not> ls_locked s'"
proof (cases "event_type e = event_u64 Ev_Wake")
  case False
  from handle_not_wake [OF this assms(2), of "handle_umcg_event E" E] show ?thesis
    unfolding handle_umcg_event.simps [of E e s] .
next
  case True
  let ?tid = "worker_tid e" and ?h = "handle_umcg_event E"
  have b: "\<exists>s'. wake_blocked ?h E ?tid ct s = Some s' \<and> \<not> ls_locked s'" for ct
  proof -
    from unlocked_pool [OF assms(2), of ?tid Running ct] obtain s1 where
      "update_worker_status ?tid Running ct s = Some s1" "\<not> ls_locked s1" by metis
    with switch_returns [OF assms(1), of s1 ?tid] show ?thesis by (auto simp: wake_blocked_def)
  qed
  have "\<exists>s'. handle_wake ?h E ?tid s = Some s' \<and> \<not> ls_locked s'"
  proof (cases "ls_pool s ?tid")
    case None
    with assms(2) show ?thesis by (simp add: handle_wake_def get_worker_state_def)
  next
    case (Some w)
    have "\<exists>s'. wake_running ?h E ?tid (w_current_task w) s = Some s' \<and> \<not> ls_locked s'" if "w_status w = Running"
      by (rule wake_running_returns [OF assms(2)])
         (use assms(3) True Some that in \<open>auto simp: completes_with_next_def\<close>)
    with b [of "w_current_task w"] Some assms(2) show ?thesis
      by (cases "w_status w") (simp_all add: handle_wake_def get_worker_state_def)
  qed
  then show ?thesis by (auto simp: handle_wake_eq [OF True])
qed

lemma schedule_on_returns:
  assumes "no_wake_kernel (le_kernel E)" and "\<not> ls_locked s"
  shows "\<exists>r s'. schedule_on E tid task s = Some (r, s') \<and> \<not> ls_locked s' \<and> keeps s s'"
proof -
  obtain r s1 where a: "assign_task task tid s = (r, s1)" by fastforce
  have k1: "keeps s s1" by (rule keeps_assign [OF a])
  then have l1: "\<not> ls_locked s1" using assms(2) by (simp add: keeps_def)
  show ?thesis
  proof (cases r)
    case (Inl failed)
    let ?s = "map_queue (enqueue (le_queue E) failed) s1"
    have "\<not> ls_locked ?s" using l1 by (simp add: map_queue_def)
    from unlocked_pool [OF this, of tid Waiting None] obtain s2 where
      u: "update_worker_status tid Waiting None ?s = Some s2" "\<not> ls_locked s2" by metis
    from keeps_trans [OF k1 keeps_trans [OF keeps_world(2) keeps_update_no_task [OF u(1)]]]
    show ?thesis using Inl a u by (simp add: schedule_on_def)
  next
    case (Inr x)
    from switch_returns [OF assms(1) l1, of tid] obtain r2 s2 where
      sw: "context_switch_worker E tid s1 = Some (r2, s2)" "\<not> ls_locked s2" by (auto simp: context_switch_worker_def)
    have "keeping (handle_umcg_event E)" using handle_umcg_event_keeps by (auto simp: keeping_def)
    from keeping_switch [OF this, of E tid s1 r2 s2] sw(1) have k2: "keeps s s2"
      using keeps_trans [OF k1] by (simp add: context_switch_worker_def)
    from unlocked_pool [OF sw(2), of tid Waiting None] obtain s3 where
      u: "update_worker_status tid Waiting None s2 = Some s3" "\<not> ls_locked s3" by metis
    from keeps_trans [OF k2 keeps_update_no_task [OF u(1)]] k2 show ?thesis
      using Inr a sw u by (cases r2) (simp_all add: schedule_on_def)
  qed
qed

lemma lib_try_schedule_returns:
  assumes "no_wake_kernel (le_kernel E)" and "\<not> ls_locked s"
  shows "\<exists>r s'. try_schedule_tasks E s = Some (r, s') \<and> \<not> ls_locked s' \<and> keeps s s'"
proof (cases "Option.bind (find (waiting_in (ls_pool s)) (le_order E (ls_pool s))) (ls_pool s)")
  case None
  with assms(2) show ?thesis by (simp add: try_schedule_tasks_def)
next
  case (Some worker)
  obtain t tq where q: "get_next_task (le_queue E) (lw_queue (ls_world s)) = (t, tq)" by fastforce
  let ?s = "map_queue (\<lambda>_. tq) s"
  have l: "\<not> ls_locked ?s" using assms(2) by (simp add: map_queue_def)
  show ?thesis
  proof (cases t)
    case None
    with Some q assms(2) l show ?thesis by (simp add: try_schedule_tasks_def)
  next
    case task: (Some t)
    from unlocked_pool [OF l, of "w_tid worker" Running "Some (te_id t)"] obtain s1 where
      u: "update_worker_status (w_tid worker) Running (Some (te_id t)) ?s = Some s1" "\<not> ls_locked s1" by metis
    let ?s2 = "map_queue (mark_in_progress (te_id t) (w_tid worker) (le_now E (ls_world s1))) s1"
    have k: "keeps s ?s2"
      by (rule keeps_trans [OF keeps_world(2) keeps_trans [OF keeps_update_running [OF u(1)] keeps_world(2)]])
    have "\<not> ls_locked ?s2" using u(2) by (simp add: map_queue_def)
    from schedule_on_returns [OF assms(1) this, of "w_tid worker" t] obtain r s' where
      "schedule_on E (w_tid worker) t ?s2 = Some (r, s')" "\<not> ls_locked s'" "keeps ?s2 s'" by blast
    with keeps_trans [OF k] Some q task u assms(2) show ?thesis by (auto simp: try_schedule_tasks_def)
  qed
qed

subsection \<open>A concrete server\<close>

text \<open>
  List queues, workers walked in the order of a fixed list, and a kernel whose context
  switches report that the worker blocked.
\<close>

type_synonym demo_queue = "nat \<times> nat TaskEntry list"

definition lib_env_of :: "(demo_queue, nat, unit) lib_world kernel \<Rightarrow> (demo_queue, nat, unit) lib_env" where
  "lib_env_of K = \<lparr>le_kernel = K, le_queue = list_queue, le_order = (\<lambda>p. filter (\<lambda>t. p t \<noteq> None) [4, 9]),
     le_now = (\<lambda>w. 0), le_affinity = (\<lambda>c w. (0, w)), le_spawn = (\<lambda>w. (4, w)), le_others = (\<lambda>w. w)\<rparr>"

lemma lib_env_of_simps [simp]:
  "le_kernel (lib_env_of K) = K" "le_queue (lib_env_of K) = list_queue"
  "le_now (lib_env_of K) w = 0" "le_spawn (lib_env_of K) w = (4, w)" "le_others (lib_env_of K) w = w"
  "le_order (lib_env_of K) p = filter (\<lambda>t. p t \<noteq> None) [4, 9]" "le_affinity (lib_env_of K) c w = (0, w)"
  by (simp_all add: lib_env_of_def)

definition block_kernel :: "'w kernel" where
  "block_kernel = (\<lambda>args buf w. \<lparr>sr_ret = 0, sr_errno = 0,
     sr_written = (if a_cmd args = 6 then [worker_id_of (ucast (a_next_tid args)) OR event_u64 Ev_Block] else []),
     sr_world = w\<rparr>)"

lemma block_kernel_no_wake: "no_wake_kernel block_kernel"
  by (auto simp: no_wake_kernel_def block_kernel_def simp del: event_u64.simps)

definition lib_demo :: "WorkerStatus \<Rightarrow> uuid option \<Rightarrow> nat TaskEntry list \<Rightarrow> nat Task mpsc \<Rightarrow> (demo_queue, nat, unit) lib_server" where
  "lib_demo st ct ts tx = \<lparr>ls_id = 0, ls_cpu_id = 0,
     ls_pool = [4 \<mapsto> \<lparr>w_id = 0, w_tid = 4, w_status = st, w_current_task = ct, w_server_id = 0\<rparr>],
     ls_total_workers = 1, ls_locked = False,
     ls_world = \<lparr>lw_queue = \<lparr>tq_pending = (10, ts), tq_preempted = (10, []), tq_in_progress = Map.empty\<rparr>,
       lw_channels = [4 \<mapsto> tx], lw_done = False, lw_ext = ()\<rparr>\<rparr>"

lemma wake_4: "event_type 130 = event_u64 Ev_Wake" "worker_tid 130 = 4"
  by (simp_all add: event_type_def worker_tid_def UMCG_WORKER_ID_SHIFT_def)

lemma wake_running_None_iff:
  assumes wake: "event_type e = event_u64 Ev_Wake" and w: "ls_pool s (worker_tid e) = Some w"
    and running: "w_status w = Running" and task: "w_current_task w = Some task_id" and free: "\<not> ls_locked s"
    and nxt: "get_next_task (le_queue E) (remove_in_progress task_id (lw_queue (ls_world s))) = (Some t, tq)"
    and fn: "te_state t = TS_Pending f" and tx: "lw_channels (ls_world s) (worker_tid e) = Some tx"
  shows "handle_umcg_event E e s = None \<longleftrightarrow>
    \<not> (mpsc_rx tx \<and> switch_quiet E (worker_tid e)
        ((ls_world s)\<lparr>lw_queue := mark_in_progress (te_id t) (worker_tid e) (le_now E ((ls_world s)\<lparr>lw_queue := tq\<rparr>)) tq,
           lw_channels := (lw_channels (ls_world s))(worker_tid e \<mapsto> tx\<lparr>mpsc_buf := mpsc_buf tx @ [Function f]\<rparr>)\<rparr>))"
proof -
  let ?tid = "worker_tid e" and ?h = "handle_umcg_event E"
  let ?s = "s\<lparr>ls_pool := (ls_pool s)(?tid \<mapsto> w\<lparr>w_status := Running, w_current_task := Some (te_id t)\<rparr>),
    ls_world := (ls_world s)\<lparr>lw_queue := mark_in_progress (te_id t) ?tid (le_now E ((ls_world s)\<lparr>lw_queue := tq\<rparr>)) tq\<rparr>,
    ls_locked := True\<rparr>"
  have "handle_umcg_event E e s = None \<longleftrightarrow> assign_locked ?h E ?tid t ?s = None"
    using w running task free nxt
    by (simp add: handle_wake_eq [OF wake] handle_wake_def get_worker_state_def wake_running_def
        update_worker_status_def assign_next_def map_queue_def bind_eq_None_conv)
  also have "\<dots> \<longleftrightarrow> \<not> (mpsc_rx tx \<and> switch_quiet E ?tid
        ((ls_world ?s)\<lparr>lw_channels := (lw_channels (ls_world ?s))(?tid \<mapsto> tx\<lparr>mpsc_buf := mpsc_buf tx @ [Function f]\<rparr>)\<rparr>))"
    by (rule locked_assign_None_iff) (use fn tx in simp_all)
  finally show ?thesis by simp
qed

subsection \<open>Properties\<close>

text \<open>
  The event handler locks itself out when it finds the next task for a worker that was
  running. The pool's guard is held from the \<open>if let\<close> on, so every further access to the
  pool, by the handling of any event the context switch reports, by the reaction to a
  failed switch or to a failed send, waits for a lock its own thread holds. The handler
  returns exactly if the worker's channel is connected and the context switch succeeds
  without reporting a single event; in every other case it never returns.
\<close>
lemma wake_running_deadlock:
  assumes wake: "event_type e = event_u64 Ev_Wake" and w: "ls_pool s (worker_tid e) = Some w"
    and running: "w_status w = Running" and task: "w_current_task w = Some task_id" and free: "\<not> ls_locked s"
    and nxt: "get_next_task (le_queue E) (remove_in_progress task_id (lw_queue (ls_world s))) = (Some t, tq)"
    and fn: "te_state t = TS_Pending f" and tx: "lw_channels (ls_world s) (worker_tid e) = Some tx"
  shows "handle_umcg_event E e s = None \<longleftrightarrow>
    \<not> (mpsc_rx tx \<and> switch_quiet E (worker_tid e)
        ((ls_world s)\<lparr>lw_queue := mark_in_progress (te_id t) (worker_tid e) (le_now E ((ls_world s)\<lparr>lw_queue := tq\<rparr>)) tq,
           lw_channels := (lw_channels (ls_world s))(worker_tid e \<mapsto> tx\<lparr>mpsc_buf := mpsc_buf tx @ [Function f]\<rparr>)\<rparr>))"
  by (rule wake_running_None_iff [OF assms])

lemma wake_running_deadlock_example:
  "handle_umcg_event (lib_env_of block_kernel) 130
     (lib_demo Running (Some 1) [TaskEntry_new 2 0 7] mpsc_channel) = None"
proof -
  let ?s = "lib_demo Running (Some 1) [TaskEntry_new 2 0 7] mpsc_channel" and ?E = "lib_env_of block_kernel"
  let ?tq = "\<lparr>tq_pending = (10, []), tq_preempted = (10, []), tq_in_progress = Map.empty\<rparr>"
  have quiet: "\<not> switch_quiet ?E 4 w" for w
    using event_word_nonzero [of 4 Ev_Block]
    by (simp add: switch_quiet_def sys_umcg_ctl_def umcg_syscall_def block_kernel_def Let_def overwrite_def
        del: event_word_nonzero)
  have nxt: "get_next_task (le_queue ?E) (remove_in_progress 1 (lw_queue (ls_world ?s))) = (Some (TaskEntry_new 2 0 7), ?tq)"
    by (simp add: lib_demo_def remove_in_progress_def get_next_task_def)
  show ?thesis
    using wake_running_deadlock [OF wake_4(1) _ _ _ _ nxt, unfolded wake_4(2),
        where f = 7 and tx = mpsc_channel
          and w = "\<lparr>w_id = 0, w_tid = 4, w_status = Running, w_current_task = Some 1, w_server_id = 0\<rparr>"] quiet
    by (simp add: lib_demo_def TaskEntry_new_def)
qed

text \<open>
  C25: In every other situation the handler returns, if context switches report no WAKE:
  for any event, unless it is the WAKE of a running worker that holds a task while
  another task is queued, \<open>handle_umcg_event\<close> returns with the lock of the pool free.
\<close>
theorem handler_returns:
  assumes "no_wake_kernel (le_kernel E)" and "\<not> ls_locked s" and "\<not> completes_with_next E e s"
  shows "\<exists>r s'. handle_umcg_event E e s = Some (r, s') \<and> \<not> ls_locked s'"
  using assms by (rule handler_returns_unless)

theorem handler_returns_witness:
  "\<exists>r s'. handle_umcg_event (lib_env_of block_kernel) 130 (lib_demo Blocked (Some 1) [] mpsc_channel) = Some (r, s') \<and> \<not> ls_locked s'"
  by (rule handler_returns) (simp_all add: block_kernel_no_wake completes_with_next_def wake_4 lib_demo_def)

text \<open>
  C26: Whatever the kernel does, a call of \<open>handle_umcg_event\<close> that returns has neither added
  nor removed a worker nor changed a worker's identity, has left the lock of the pool as
  it found it, and has kept the invariant of the pool: every worker is stored under its
  thread id, and only running or blocked workers have a current task.
\<close>
theorem handler_keeps_pool:
  assumes "handle_umcg_event E e s = Some (r, s')"
  shows "dom (ls_pool s') = dom (ls_pool s) \<and> ls_locked s' = ls_locked s \<and>
    (\<forall>tid w w'. ls_pool s tid = Some w \<longrightarrow> ls_pool s' tid = Some w' \<longrightarrow>
       w_id w' = w_id w \<and> w_tid w' = w_tid w \<and> w_server_id w' = w_server_id w) \<and>
    (pool_ok (ls_pool s) \<longrightarrow> pool_ok (ls_pool s'))"
  using handle_umcg_event_keeps [OF assms] unfolding keeps_def same_workers_def by blast

theorem handler_keeps_pool_witness:
  "\<exists>s'. handle_umcg_event (lib_env_of block_kernel) 131 (lib_demo Running (Some 1) [] mpsc_channel) = Some (Inr (), s')
     \<and> dom (ls_pool s') = {4} \<and> pool_ok (ls_pool s')"
proof -
  let ?s = "lib_demo Running (Some 1) [] mpsc_channel"
  have ev: "event_type 131 = 3" "worker_tid 131 = 4"
    by (simp_all add: event_type_def worker_tid_def UMCG_WORKER_ID_SHIFT_def)
  have h: "handle_umcg_event (lib_env_of block_kernel) 131 ?s = Some (Inr (), lib_demo Waiting None [] mpsc_channel)"
    by (simp add: handle_umcg_event.simps [of _ 131] handle_with_def ev handle_wait_event_def get_worker_state_def
        update_worker_status_def lib_demo_def)
  have "pool_ok (ls_pool ?s)" by (simp add: pool_ok_def lib_demo_def)
  with handler_keeps_pool [OF h] h show ?thesis by (auto simp: lib_demo_def)
qed

lemma switch_result_cases:
  "Option.bind c (\<lambda>(r, s2). case r of Inr _ \<Rightarrow> Some (Inr (), s2)
      | Inl err \<Rightarrow> Option.bind (u s2) (\<lambda>s3. Some (Inl err, s3))) =
   (case c of None \<Rightarrow> None | Some (Inr _, s') \<Rightarrow> Some (Inr (), s')
      | Some (Inl err, s') \<Rightarrow> map_option (Pair (Inl err)) (u s'))"
proof (cases c)
  case (Some rs)
  obtain r s2 where rs: "rs = (r, s2)" by (cases rs)
  show ?thesis unfolding Some rs by (cases r; cases "u s2") simp_all
qed simp



end
