(* ===== verification/Lib_Run.thy ===== *)
theory Lib_Run
  imports Lib_Handler
begin

text \<open>
  The life of a server of \<open>src/lib.rs\<close>: creation, start and registration of its workers,
  the main loop (\<open>run_server\<close>) and the shutdown.
\<close>

subsection \<open>Creation and tasks\<close>

definition Server_new ::
  "('q, 'f TaskEntry) queue_ops \<Rightarrow> nat \<Rightarrow> usize \<Rightarrow> usize \<Rightarrow> 'x \<Rightarrow> ('q, 'f, 'x) lib_server" where
  "Server_new Q worker_count server_id cpu_id x =
     \<lparr>ls_id = server_id, ls_cpu_id = cpu_id, ls_pool = Map.empty, ls_total_workers = worker_count, ls_locked = False,
      ls_world = \<lparr>lw_queue = TaskQueue_new Q, lw_channels = Map.empty, lw_done = False, lw_ext = x\<rparr>\<rparr>"

text \<open>\<open>add_task\<close> is called by other threads on the state they share with the server.\<close>

definition add_task ::
  "('q, 'f TaskEntry) queue_ops \<Rightarrow> uuid \<Rightarrow> nat \<Rightarrow> 'f Task \<Rightarrow> ('q, 'f, 'x) lib_world \<Rightarrow> ('q, 'f, 'x) lib_world" where
  "add_task Q new_v4 now task w =
     (case task of
        Function f \<Rightarrow> w\<lparr>lw_queue := enqueue Q (TaskEntry_new new_v4 now f) (lw_queue w)\<rparr>
      | Shutdown \<Rightarrow> w\<lparr>lw_done := True\<rparr>)"

subsection \<open>Registration of the workers\<close>

text \<open>
  One round of \<open>wait_for_worker_registration\<close>. \<open>elapsed().unwrap()\<close> panics if the clock went
  back; the buffer is not cleared between two waits.
\<close>

definition registration_body ::
  "('q, 'f, 'x) lib_env \<Rightarrow> nat \<Rightarrow> usize \<Rightarrow> u64 list \<times> ('q, 'f, 'x) lib_server \<Rightarrow>
   ((u64 list \<times> ('q, 'f, 'x) lib_server) + ((ServerError + u64) \<times> ('q, 'f, 'x) lib_server) outcome) option" where
  "registration_body E start worker_id = (\<lambda>(events, s).
     let now = le_now E (ls_world s) in
     if now < start then Some (Inr Panics)
     else if now - start > unat WORKER_REGISTRATION_TIMEOUT_MS * 1000000
     then Some (Inr (Returns (Inl (WorkerRegistrationTimeout worker_id), s)))
     else case umcg_wait_retry (le_kernel E) 0 (Some events) (of_nat EVENT_BUFFER_SIZE) (ls_world s) of
         None \<Rightarrow> None
       | Some (ret, errno, events', w) \<Rightarrow>
           let evs = (case events' of Some evs \<Rightarrow> evs | None \<Rightarrow> []); s1 = s\<lparr>ls_world := w\<rparr> in
           if ret \<noteq> 0 then Some (Inr (Returns (Inl (WorkerRegistrationFailed worker_id ret), s1)))
           else if event_type (evs ! 0) = event_u64 Ev_Wake then Some (Inr (Returns (Inr (evs ! 0), s1)))
           else Some (Inl (evs, s1)))"

definition wait_for_worker_registration ::
  "('q, 'f, 'x) lib_env \<Rightarrow> usize \<Rightarrow> ('q, 'f, 'x) lib_server \<Rightarrow>
   ((ServerError + u64) \<times> ('q, 'f, 'x) lib_server) outcome option" where
  "wait_for_worker_registration E worker_id s =
     rust_loop (registration_body E (le_now E (ls_world s)) worker_id) (replicate EVENT_BUFFER_SIZE 0, s)"

text \<open>
  One iteration of \<open>initialize_workers\<close>: the worker's channel and thread, its entry in the
  pool, and the wait for its first wake event. The computation of the worker's number is
  checked for overflow.
\<close>

definition initialize_worker ::
  "('q, 'f, 'x) lib_env \<Rightarrow> nat \<Rightarrow> ('q, 'f, 'x) lib_server \<Rightarrow>
   ((ServerError + unit) \<times> ('q, 'f, 'x) lib_server) outcome option" where
  "initialize_worker E i s =
     (if 2 ^ 64 \<le> unat (ls_id s) * ls_total_workers s + i then Some Panics
      else let worker_id = of_nat (unat (ls_id s) * ls_total_workers s + i) in
        (case le_spawn E (ls_world s) of
           (tid, w) \<Rightarrow>
             Option.bind (add_worker (Worker_new worker_id (ls_id s) tid)
                (s\<lparr>ls_world := w\<lparr>lw_channels := (lw_channels w)(tid \<mapsto> mpsc_channel)\<rparr>\<rparr>)) (\<lambda>s1.
             Option.bind (update_worker_status tid Registering None s1) (\<lambda>s2.
               case wait_for_worker_registration E worker_id s2 of
                 None \<Rightarrow> None
               | Some Panics \<Rightarrow> Some Panics
               | Some (Returns (Inl err, s3)) \<Rightarrow> Some (Returns (Inl err, s3))
               | Some (Returns (Inr _, s3)) \<Rightarrow>
                   map_option (\<lambda>s4. Returns (Inr (), s4)) (update_worker_status tid Waiting None s3)))))"

primrec initialize_from ::
  "('q, 'f, 'x) lib_env \<Rightarrow> nat list \<Rightarrow> ('q, 'f, 'x) lib_server \<Rightarrow>
   ((ServerError + unit) \<times> ('q, 'f, 'x) lib_server) outcome option" where
  "initialize_from E [] s = Some (Returns (Inr (), s))"
| "initialize_from E (i # is) s =
     (case initialize_worker E i s of
        Some (Returns (Inr _, s')) \<Rightarrow> initialize_from E is s'
      | r \<Rightarrow> r)"

definition initialize_workers ::
  "('q, 'f, 'x) lib_env \<Rightarrow> ('q, 'f, 'x) lib_server \<Rightarrow>
   ((ServerError + unit) \<times> ('q, 'f, 'x) lib_server) outcome option" where
  "initialize_workers E s = initialize_from E [0..<ls_total_workers s] s"

subsection \<open>Shutdown and the main loop\<close>

definition send_shutdown :: "'f Task mpsc \<Rightarrow> 'f Task mpsc" where
  "send_shutdown tx = (case mpsc_send Shutdown tx of None \<Rightarrow> tx | Some tx' \<Rightarrow> tx')"

definition initiate_shutdown ::
  "('q, 'f, 'x) lib_env \<Rightarrow> ('q, 'f, 'x) lib_server \<Rightarrow> ('q, 'f, 'x) lib_server option" where
  "initiate_shutdown E s =
     (if ls_locked s then None
      else case sys_umcg_ctl (le_kernel E) 0 Cmd_Unregister 0 0 None 0
          ((ls_world s)\<lparr>lw_done := True,
             lw_channels := (\<lambda>tid. if tid \<in> dom (ls_pool s)
               then map_option send_shutdown (lw_channels (ls_world s) tid) else lw_channels (ls_world s) tid)\<rparr>) of
        (unreg_result, _, _, w) \<Rightarrow> Some (s\<lparr>ls_world := w\<rparr>))"

text \<open>The events of one wait: an error of the handler is logged, one of the scheduler ends the server.\<close>

primrec process_events ::
  "('q, 'f, 'x) lib_env \<Rightarrow> u64 list \<Rightarrow> ('q, 'f, 'x) lib_server \<Rightarrow> ('q, 'f, 'x) lib_result" where
  "process_events E [] s = Some (Inr (), s)"
| "process_events E (e # es) s =
     Option.bind (handle_umcg_event E e s) (\<lambda>(_, s1).
     Option.bind (try_schedule_tasks E s1) (\<lambda>(r, s2).
       case r of Inl err \<Rightarrow> Some (Inl err, s2) | Inr _ \<Rightarrow> process_events E es s2))"

definition server_loop_body ::
  "('q, 'f, 'x) lib_env \<Rightarrow> ('q, 'f, 'x) lib_server \<Rightarrow>
   (('q, 'f, 'x) lib_server + (ServerError + unit) \<times> ('q, 'f, 'x) lib_server) option" where
  "server_loop_body E s =
     (if lw_done (ls_world s) then Some (Inr (Inr (), s))
      else Option.bind (try_schedule_tasks E s) (\<lambda>(r, s1).
        case r of
          Inl err \<Rightarrow> Some (Inr (Inl err, s1))
        | Inr _ \<Rightarrow>
            (case sys_umcg_ctl (le_kernel E) 0 Cmd_Wait 0 100000000 (Some (replicate 6 0)) 6 (ls_world s1) of
               (ret, errno, events, w) \<Rightarrow>
                 if ret \<noteq> 0 \<and> errno \<noteq> ETIMEDOUT then Some (Inr (Inl (SystemError errno), s1\<lparr>ls_world := w\<rparr>))
                 else Option.bind
                   (process_events E (takeWhile (\<lambda>e. e \<noteq> 0) (case events of Some evs \<Rightarrow> evs | None \<Rightarrow> []))
                      (s1\<lparr>ls_world := w\<rparr>))
                   (\<lambda>(r, s2). case r of
                      Inl err \<Rightarrow> Some (Inr (Inl err, s2))
                    | Inr _ \<Rightarrow> Some (Inl (s2\<lparr>ls_world := le_others E (ls_world s2)\<rparr>))))))"

text \<open>\<open>run_server\<close>; an error of the loop returns without the shutdown.\<close>

definition run_server ::
  "('q, 'f, 'x) lib_env \<Rightarrow> ('q, 'f, 'x) lib_server \<Rightarrow>
   ((ServerError + unit) \<times> ('q, 'f, 'x) lib_server) outcome option" where
  "run_server E s =
     (case set_cpu_affinity (le_affinity E) (ls_cpu_id s) (ls_world s) of
        (_, w0) \<Rightarrow>
     (case sys_umcg_ctl (le_kernel E) 0 Cmd_RegisterServer 0 0 None 0 w0 of
        (reg_result, _, _, w1) \<Rightarrow>
          if reg_result \<noteq> 0 then Some (Returns (Inl (RegistrationFailed reg_result), s\<lparr>ls_world := w1\<rparr>))
          else (case initialize_workers E (s\<lparr>ls_world := w1\<rparr>) of
                  Some (Returns (Inr _, s1)) \<Rightarrow>
                    (case rust_loop (server_loop_body E) s1 of
                       None \<Rightarrow> None
                     | Some (Inl err, s2) \<Rightarrow> Some (Returns (Inl err, s2))
                     | Some (Inr _, s2) \<Rightarrow> map_option (\<lambda>s3. Returns (Inr (), s3)) (initiate_shutdown E s2))
                | r \<Rightarrow> r)))"

text \<open>The thread \<open>Server::start\<close> spawns: it counts itself ready before it runs.\<close>

definition server_start ::
  "('q, 'f, 'x) lib_env \<Rightarrow> usize \<Rightarrow> ('q, 'f, 'x) lib_server \<Rightarrow>
   usize \<times> ((ServerError + unit) \<times> ('q, 'f, 'x) lib_server) outcome option" where
  "server_start E ready_counter s = (ready_counter + 1, run_server E s)"

subsection \<open>Registration succeeds\<close>

text \<open>After the first \<open>n\<close> workers: as many entries as channels, all waiting, numbered in order.\<close>

definition registered :: "nat \<Rightarrow> ('q, 'f, 'x) lib_server \<Rightarrow> bool" where
  "registered n s \<longleftrightarrow> \<not> ls_locked s \<and> dom (lw_channels (ls_world s)) = dom (ls_pool s) \<and>
     finite (dom (ls_pool s)) \<and> card (dom (ls_pool s)) = n \<and>
     (\<forall>tid w. ls_pool s tid = Some w \<longrightarrow> w_tid w = tid \<and> w_status w = Waiting \<and> w_current_task w = None \<and>
        w_server_id w = ls_id s) \<and>
     w_id ` ran (ls_pool s) = (\<lambda>i. of_nat (unat (ls_id s) * ls_total_workers s + i)) ` {0..<n}"

text \<open>
  Every wait reports a worker awake, and up to \<open>limit\<close> threads get fresh ids.
\<close>

locale lib_registering =
  fixes E :: "('q, 'f, 'x) lib_env" and limit :: nat
  assumes wait_ok: "a_cmd args = cmd_u64 Cmd_Wait \<Longrightarrow> sr_ret (le_kernel E args buf w) = 0"
    and wait_wake: "a_cmd args = cmd_u64 Cmd_Wait \<Longrightarrow>
       \<exists>t ts. sr_written (le_kernel E args buf w) = (worker_id_of t OR event_u64 Ev_Wake) # ts"
    and kernel_channels: "dom (lw_channels (sr_world (le_kernel E args buf w))) = dom (lw_channels w)"
    and spawn_fresh: "card (dom (lw_channels w)) < limit \<Longrightarrow> le_spawn E w = (tid, w') \<Longrightarrow>
       tid \<notin> dom (lw_channels w) \<and> dom (lw_channels w') = dom (lw_channels w)"
begin

lemma wait_retry_wake:
  assumes "length evs = 2"
  obtains errno t es w' where "umcg_wait_retry (le_kernel E) wid (Some evs) sz w =
      Some (0, errno, Some ((worker_id_of t OR event_u64 Ev_Wake) # es), w')"
    and "dom (lw_channels w') = dom (lw_channels w)"
proof -
  obtain args errno where cmd: "a_cmd args = cmd_u64 Cmd_Wait"
    and r: "umcg_wait_retry (le_kernel E) wid (Some evs) sz w =
      Some (0, errno, Some (overwrite (sr_written (le_kernel E args (Some evs) w)) evs), sr_world (le_kernel E args (Some evs) w))"
    using wait_retry_success [where K = "le_kernel E" and w = w, OF wait_ok] by metis
  obtain t ts where ts: "sr_written (le_kernel E args (Some evs) w) = (worker_id_of t OR event_u64 Ev_Wake) # ts"
    using wait_wake [OF cmd] by blast
  have "overwrite (x # xs) evs = x # tl (overwrite (x # xs) evs)" for x xs
    using assms by (cases evs) (simp_all add: overwrite_def)
  with r ts show thesis using kernel_channels that by metis
qed

lemma registration_returns:
  obtains e w where "wait_for_worker_registration E wid s = Some (Returns (Inr e, s\<lparr>ls_world := w\<rparr>))"
    and "dom (lw_channels w) = dom (lw_channels (ls_world s))"
proof -
  have "length (replicate EVENT_BUFFER_SIZE (0 :: u64)) = 2" by (simp add: EVENT_BUFFER_SIZE_def)
  from wait_retry_wake [OF this, where wid = 0 and sz = "of_nat EVENT_BUFFER_SIZE" and w = "ls_world s"] obtain errno t es w where
    r: "umcg_wait_retry (le_kernel E) 0 (Some (replicate EVENT_BUFFER_SIZE 0)) (of_nat EVENT_BUFFER_SIZE) (ls_world s) =
      Some (0, errno, Some ((worker_id_of t OR event_u64 Ev_Wake) # es), w)"
    and d: "dom (lw_channels w) = dom (lw_channels (ls_world s))" by metis
  have "wait_for_worker_registration E wid s =
      Some (Returns (Inr (worker_id_of t OR event_u64 Ev_Wake), s\<lparr>ls_world := w\<rparr>))"
    unfolding wait_for_worker_registration_def
    by (rule rust_loop_break) (simp add: registration_body_def r Let_def del: event_u64.simps)
  then show thesis using d by (rule that)
qed

lemma initialize_one:
  assumes "registered n s" and "unat (ls_id s) * ls_total_workers s + n < 2 ^ 64" and "n < limit"
  obtains s' where "initialize_worker E n s = Some (Returns (Inr (), s'))" and "registered (Suc n) s'"
    and "ls_id s' = ls_id s" and "ls_total_workers s' = ls_total_workers s"
proof -
  let ?wid = "of_nat (unat (ls_id s) * ls_total_workers s + n) :: usize"
  obtain tid w where sp: "le_spawn E (ls_world s) = (tid, w)" by fastforce
  let ?w = "Worker_new ?wid (ls_id s) tid"
  let ?s2 = "s\<lparr>ls_world := w\<lparr>lw_channels := (lw_channels w)(tid \<mapsto> mpsc_channel)\<rparr>,
    ls_pool := (ls_pool s)(tid \<mapsto> ?w\<lparr>w_status := Registering, w_current_task := None\<rparr>)\<rparr>"
  obtain e w3 where reg: "wait_for_worker_registration E ?wid ?s2 = Some (Returns (Inr e, ?s2\<lparr>ls_world := w3\<rparr>))"
    and d3: "dom (lw_channels w3) = dom (lw_channels (ls_world ?s2))"
    using registration_returns [where wid = ?wid and s = ?s2] by metis
  let ?s' = "s\<lparr>ls_world := w3, ls_pool := (ls_pool s)(tid \<mapsto> ?w\<lparr>w_status := Waiting, w_current_task := None\<rparr>)\<rparr>"
  from assms(1) have free: "\<not> ls_locked s" by (simp add: registered_def)
  have eq: "initialize_worker E n s = Some (Returns (Inr (), ?s'))"
    using assms(2) sp free reg
    by (simp add: initialize_worker_def Let_def add_worker_def update_worker_status_def Worker_new_def)
  from spawn_fresh [OF _ sp] assms(1,3) have new: "tid \<notin> dom (ls_pool s)" "dom (lw_channels w) = dom (ls_pool s)"
    by (simp_all add: registered_def)
  have ran: "ran ((ls_pool s)(tid \<mapsto> x)) = insert x (ran (ls_pool s))" for x
    using new(1) by (intro ran_map_upd) auto
  have dom: "dom (lw_channels w3) = insert tid (dom (ls_pool s))" using d3 new(2) by simp
  have "registered (Suc n) ?s'"
    using assms(1) new dom unfolding registered_def
    by (simp add: ran Worker_new_def atLeast0_lessThan_Suc del: of_nat_add of_nat_mult)
  from that [OF eq this] show thesis by simp
qed

lemma initialize_from_registers:
  assumes "registered m s" and "unat (ls_id s) * ls_total_workers s + (m + k) \<le> 2 ^ 64" and "m + k \<le> limit"
  shows "\<exists>s'. initialize_from E [m..<m + k] s = Some (Returns (Inr (), s')) \<and> registered (m + k) s' \<and>
    ls_id s' = ls_id s \<and> ls_total_workers s' = ls_total_workers s"
  using assms
proof (induction k arbitrary: m s)
  case (Suc k)
  from Suc.prems(2,3) have "unat (ls_id s) * ls_total_workers s + m < 2 ^ 64" "m < limit" by simp_all
  from initialize_one [OF Suc.prems(1) this] obtain s1 where
    s1: "initialize_worker E m s = Some (Returns (Inr (), s1))" "registered (Suc m) s1"
      "ls_id s1 = ls_id s" "ls_total_workers s1 = ls_total_workers s" by metis
  from Suc.IH [OF s1(2)] s1(3,4) Suc.prems(2,3) obtain s' where
    "initialize_from E [Suc m..<Suc m + k] s1 = Some (Returns (Inr (), s'))" "registered (Suc m + k) s'"
    "ls_id s' = ls_id s1" "ls_total_workers s' = ls_total_workers s1" by auto
  moreover have "[m..<m + Suc k] = m # [Suc m..<Suc m + k]" by (simp add: upt_conv_Cons del: upt_Suc)
  ultimately show ?case using s1 by (simp del: upt_Suc)
qed simp

end

subsection \<open>What the main loop keeps\<close>

lemma keeping_handler: "keeping (handle_umcg_event E)"
  using handle_umcg_event_keeps by (auto simp: keeping_def)

lemma schedule_on_keeps:
  assumes "schedule_on E tid t s = Some (r, s')"
  shows "keeps s s'"
proof -
  obtain ra s1 where a: "assign_task t tid s = (ra, s1)" by fastforce
  note k1 = keeps_assign [OF a]
  show ?thesis
  proof (cases ra)
    case (Inl failed)
    with assms a have "update_worker_status tid Waiting None (map_queue (enqueue (le_queue E) failed) s1) = Some s'"
      by (auto simp: schedule_on_def bind_eq_Some_conv)
    from keeps_trans [OF k1 keeps_trans [OF keeps_world(2) keeps_update_no_task [OF this]]] show ?thesis by simp
  next
    case (Inr x)
    with assms a obtain r2 s2 where sw: "switch_with (handle_umcg_event E) E tid s1 = Some (r2, s2)"
      and rest: "(case r2 of Inr _ \<Rightarrow> Some (Inr (), s2)
        | Inl err \<Rightarrow> Option.bind (update_worker_status tid Waiting None s2) (\<lambda>s3. Some (Inl err, s3))) = Some (r, s')"
      by (auto simp: schedule_on_def context_switch_worker_def bind_eq_Some_conv)
    note k2 = keeps_trans [OF k1 keeping_switch [OF keeping_handler sw]]
    from rest k2 show ?thesis
      by (auto simp: bind_eq_Some_conv intro: keeps_trans [OF k2 keeps_update_no_task] split: sum.splits)
  qed
qed

lemma try_schedule_keeps:
  assumes "try_schedule_tasks E s = Some (r, s')"
  shows "keeps s s'"
proof (cases "Option.bind (find (waiting_in (ls_pool s)) (le_order E (ls_pool s))) (ls_pool s)")
  case None
  with assms show ?thesis by (auto simp: try_schedule_tasks_def split: if_splits)
next
  case (Some worker)
  obtain t tq where q: "get_next_task (le_queue E) (lw_queue (ls_world s)) = (t, tq)" by fastforce
  show ?thesis
  proof (cases t)
    case None
    with Some q assms show ?thesis by (auto simp: try_schedule_tasks_def keeps_world split: if_splits)
  next
    case task: (Some t)
    with Some q assms obtain s1 where
      u: "update_worker_status (w_tid worker) Running (Some (te_id t)) (map_queue (\<lambda>_. tq) s) = Some s1"
      and c: "schedule_on E (w_tid worker) t
        (map_queue (mark_in_progress (te_id t) (w_tid worker) (le_now E (ls_world s1))) s1) = Some (r, s')"
      by (auto simp: try_schedule_tasks_def bind_eq_Some_conv split: if_splits)
    show ?thesis
      by (rule keeps_trans [OF keeps_world(2) keeps_trans [OF keeps_update_running [OF u]
            keeps_trans [OF keeps_world(2) schedule_on_keeps [OF c]]]])
  qed
qed

lemma process_events_keeps: "process_events E es s = Some (r, s') \<Longrightarrow> keeps s s'"
proof (induction es arbitrary: s)
  case (Cons e es)
  from Cons.prems obtain r1 s1 r2 s2 where h: "handle_umcg_event E e s = Some (r1, s1)"
    and t: "try_schedule_tasks E s1 = Some (r2, s2)"
    and rest: "(case r2 of Inl err \<Rightarrow> Some (Inl err, s2) | Inr _ \<Rightarrow> process_events E es s2) = Some (r, s')"
    by (auto simp: bind_eq_Some_conv)
  note k = keeps_trans [OF handle_umcg_event_keeps [OF h] try_schedule_keeps [OF t]]
  from rest k Cons.IH [of s2] show ?case by (auto split: sum.splits intro: keeps_trans [OF k])
qed simp

lemma server_loop_body_keeps:
  assumes "server_loop_body E s = Some res"
  shows "keeps s (case res of Inl s' \<Rightarrow> s' | Inr (_, s') \<Rightarrow> s')"
proof (cases "lw_done (ls_world s)")
  case True
  with assms show ?thesis by (auto simp: server_loop_body_def)
next
  case False
  with assms obtain r1 s1 where t: "try_schedule_tasks E s = Some (r1, s1)"
    by (auto simp: server_loop_body_def bind_eq_Some_conv)
  note k1 = try_schedule_keeps [OF t]
  obtain ret errno events w where c:
    "sys_umcg_ctl (le_kernel E) 0 Cmd_Wait 0 100000000 (Some (replicate 6 0)) 6 (ls_world s1) = (ret, errno, events, w)"
    by (metis prod_cases4)
  note k2 = keeps_trans [OF k1 keeps_world(1) [of s1 w]]
  let ?evs = "takeWhile (\<lambda>e. e \<noteq> 0) (case events of Some evs \<Rightarrow> evs | None \<Rightarrow> [])"
  consider err where "r1 = Inl err" | "r1 = Inr ()" by (cases r1) auto
  then show ?thesis
  proof cases
    case 1
    with assms False t k1 show ?thesis by (auto simp: server_loop_body_def)
  next
    case 2
    show ?thesis
    proof (cases "ret \<noteq> 0 \<and> errno \<noteq> ETIMEDOUT")
      case True
      with 2 assms False t c k2 show ?thesis by (auto simp: server_loop_body_def)
    next
      case ok: False
      with 2 assms False t c obtain r2 s2 where p: "process_events E ?evs (s1\<lparr>ls_world := w\<rparr>) = Some (r2, s2)"
        and rest: "(case r2 of Inl err \<Rightarrow> Some (Inr (Inl err, s2))
            | Inr _ \<Rightarrow> Some (Inl (s2\<lparr>ls_world := le_others E (ls_world s2)\<rparr>))) = Some res"
        by (auto simp: server_loop_body_def bind_eq_Some_conv)
      note k3 = keeps_trans [OF k2 process_events_keeps [OF p]]
      from rest k3 keeps_trans [OF k3 keeps_world(1)] show ?thesis by (cases r2) auto
    qed
  qed
qed

lemma server_loop_iter_keeps:
  "loop_iter (server_loop_body E) n s = Some s' \<Longrightarrow> keeps s s'"
proof (induction n arbitrary: s)
  case (Suc n)
  then obtain s1 where b: "server_loop_body E s = Some (Inl s1)" and i: "loop_iter (server_loop_body E) n s1 = Some s'"
    by (auto split: option.splits sum.splits)
  from server_loop_body_keeps [OF b] Suc.IH [OF i] show ?case by (auto intro: keeps_trans)
qed simp

lemma server_loop_result_keeps:
  assumes "rust_loop (server_loop_body E) s = Some (r, s')"
  shows "keeps s s'"
proof -
  from assms obtain n s1 where i: "loop_iter (server_loop_body E) n s = Some s1"
    and b: "server_loop_body E s1 = Some (Inr (r, s'))" by (auto simp: rust_loop_Some_iff)
  from keeps_trans [OF server_loop_iter_keeps [OF i]] server_loop_body_keeps [OF b] show ?thesis by simp
qed

definition registration_result ::
  "('q, 'f, 'x) lib_env \<Rightarrow> usize \<Rightarrow> ('q, 'f, 'x) lib_server \<Rightarrow> ServerError + u64 \<Rightarrow> ('q, 'f, 'x) lib_server \<Rightarrow> bool" where
  "registration_result E wid s r s' \<longleftrightarrow> (\<exists>w. s' = s\<lparr>ls_world := w\<rparr> \<and>
    (case r of
       Inr e \<Rightarrow> event_type e = event_u64 Ev_Wake
     | Inl err \<Rightarrow> (\<exists>ret. ret \<noteq> 0 \<and> err = WorkerRegistrationFailed wid ret) \<or>
         (err = WorkerRegistrationTimeout wid \<and> le_now E w > le_now E (ls_world s) + 5000000000)))"

lemma registration_step:
  assumes "registration_body E (le_now E (ls_world s)) wid (evs, s\<lparr>ls_world := w\<rparr>) = Some res"
  shows "(case res of Inl p \<Rightarrow> \<exists>w. snd p = s\<lparr>ls_world := w\<rparr> | Inr Panics \<Rightarrow> True
    | Inr (Returns (r, s')) \<Rightarrow> registration_result E wid s r s')"
proof -
  let ?r = "umcg_wait_retry (le_kernel E) 0 (Some evs) (of_nat EVENT_BUFFER_SIZE) w"
  have timeout: "registration_result E wid s (Inl (WorkerRegistrationTimeout wid)) (s\<lparr>ls_world := w\<rparr>)"
    if "le_now E w - le_now E (ls_world s) > 5000000000"
    unfolding registration_result_def using that by (intro exI [of _ w]) simp
  have failed: "registration_result E wid s (Inl (WorkerRegistrationFailed wid ret)) (s\<lparr>ls_world := w'\<rparr>)"
    if "ret \<noteq> 0" for ret w'
    unfolding registration_result_def using that by (intro exI [of _ w']) simp
  have woken: "registration_result E wid s (Inr e) (s\<lparr>ls_world := w'\<rparr>)" if "event_type e = event_u64 Ev_Wake" for e w'
    unfolding registration_result_def using that by (intro exI [of _ w']) simp
  have more: "\<exists>wa. s\<lparr>ls_world := w'\<rparr> = s\<lparr>ls_world := wa\<rparr>" for w' by blast
  show ?thesis
  proof (cases ?r)
    case None
    with assms timeout show ?thesis
      by (auto simp: registration_body_def Let_def WORKER_REGISTRATION_TIMEOUT_MS_def split: if_splits)
  next
    case (Some q)
    then obtain ret errno evs' w' where q: "?r = Some (ret, errno, evs', w')" by (cases q) auto
    show ?thesis
      using assms timeout failed woken more
      by (auto simp: registration_body_def q Let_def WORKER_REGISTRATION_TIMEOUT_MS_def simp del: event_u64.simps
          split: if_splits)
  qed
qed

lemma shutdown_state:
  assumes "\<not> ls_locked s"
  shows "\<exists>w. initiate_shutdown E s = Some (s\<lparr>ls_world := w\<rparr>)"
  using assms by (auto simp: initiate_shutdown_def split: prod.splits)

lemma new_registered:
  "dom (lw_channels w) = {} \<Longrightarrow> registered 0 (Server_new Q n sid cpu x\<lparr>ls_world := w\<rparr>)"
  by (simp add: registered_def Server_new_def)

lemma initialize_new:
  assumes E: "lib_registering E limit" and w: "dom (lw_channels w) = {}"
    and n: "unat sid * n + n \<le> 2 ^ 64" "n \<le> limit"
  shows "\<exists>s'. initialize_workers E (Server_new Q n sid cpu x\<lparr>ls_world := w\<rparr>) = Some (Returns (Inr (), s')) \<and>
    registered n s' \<and> ls_id s' = sid \<and> ls_total_workers s' = n"
  using lib_registering.initialize_from_registers [OF E new_registered [OF w], of Q n sid cpu x n] n
  by (auto simp: initialize_workers_def Server_new_def)

lemma registered_pool_ok: "registered n s \<Longrightarrow> pool_ok (ls_pool s)"
  by (auto simp: registered_def pool_ok_def)

lemma registered_same_workers:
  assumes "registered n s" and "keeps s s'"
  shows "card (dom (ls_pool s')) = n" and "\<not> ls_locked s'" and "pool_ok (ls_pool s')"
  using assms registered_pool_ok [OF assms(1)] unfolding registered_def keeps_def
  by (metis same_workers_domD)+

subsection \<open>A concrete start\<close>

text \<open>Threads 4 and 5 are started; every wait reports the thread that was started last.\<close>

definition reg_kernel :: "('q, 'f, pid_t) lib_world kernel" where
  "reg_kernel = (\<lambda>args buf w. \<lparr>sr_ret = 0, sr_errno = 0,
     sr_written = (if a_cmd args = cmd_u64 Cmd_Wait then [worker_id_of (lw_ext w) OR event_u64 Ev_Wake] else []),
     sr_world = w\<rparr>)"

definition spawn_two :: "('q, 'f, pid_t) lib_world \<Rightarrow> pid_t \<times> ('q, 'f, pid_t) lib_world" where
  "spawn_two w = (let tid = (if lw_channels w 4 = None then 4 else 5) in (tid, w\<lparr>lw_ext := tid\<rparr>))"

definition reg_env :: "(demo_queue, nat, pid_t) lib_env" where
  "reg_env = \<lparr>le_kernel = reg_kernel, le_queue = list_queue, le_order = (\<lambda>p. filter (\<lambda>t. p t \<noteq> None) [4, 5]),
     le_now = (\<lambda>w. 0), le_affinity = (\<lambda>c w. (0, w)), le_spawn = spawn_two, le_others = (\<lambda>w. w\<lparr>lw_done := True\<rparr>)\<rparr>"

interpretation two_workers: lib_registering reg_env 2
proof
  fix w w' :: "(demo_queue, nat, pid_t) lib_world" and tid
  assume c: "card (dom (lw_channels w)) < 2" and sp: "le_spawn reg_env w = (tid, w')"
  have "\<not> {4, 5} \<subseteq> dom (lw_channels w)"
  proof
    assume "{4, 5 :: pid_t} \<subseteq> dom (lw_channels w)"
    from card_mono [OF _ this] c show False by simp
  qed
  with sp show "tid \<notin> dom (lw_channels w) \<and> dom (lw_channels w') = dom (lw_channels w)"
    by (auto simp: reg_env_def spawn_two_def Let_def split: if_splits)
qed (auto simp: reg_env_def reg_kernel_def)


lemma reg_env_simps [simp]:
  "le_kernel reg_env = reg_kernel" "le_queue reg_env = list_queue" "le_now reg_env w = 0" "le_spawn reg_env = spawn_two"
  "le_others reg_env w = w\<lparr>lw_done := True\<rparr>" "le_affinity reg_env c w = (0, w)"
  "le_order reg_env p = filter (\<lambda>t. p t \<noteq> None) [4, 5]"
  by (simp_all add: reg_env_def)

lemma reg_wait:
  "wait_for_worker_registration reg_env wid s =
     Some (Returns (Inr (worker_id_of (lw_ext (ls_world s)) OR event_u64 Ev_Wake), s))"
  unfolding wait_for_worker_registration_def
  by (rule rust_loop_break)
     (simp add: registration_body_def umcg_wait_retry_def umcg_wait_retry_body_def sys_umcg_ctl_def umcg_syscall_def
        reg_kernel_def Let_def loop_simps EVENT_BUFFER_SIZE_def overwrite_def del: event_u64.simps)

text \<open>A server whose only worker, thread 4, is registered and waits.\<close>

definition reg_done :: "bool \<Rightarrow> (demo_queue, nat, pid_t) lib_server" where
  "reg_done d = Server_new list_queue 1 0 0 0\<lparr>
     ls_pool := [4 \<mapsto> \<lparr>w_id = 0, w_tid = 4, w_status = Waiting, w_current_task = None, w_server_id = 0\<rparr>],
     ls_world := \<lparr>lw_queue = TaskQueue_new list_queue, lw_channels = [4 \<mapsto> mpsc_channel], lw_done = d, lw_ext = 4\<rparr>\<rparr>"

lemma reg_initialize: "initialize_workers reg_env (Server_new list_queue 1 0 0 0) = Some (Returns (Inr (), reg_done False))"
  by (simp add: initialize_workers_def initialize_worker_def Server_new_def spawn_two_def Let_def add_worker_def
      update_worker_status_def Worker_new_def reg_wait reg_done_def)

lemma replicate_6: "replicate 6 x = [x, x, x, x, x, x]"
  by (simp add: eval_nat_numeral)

lemma reg_iteration: "server_loop_body reg_env (reg_done False) = Some (Inl (reg_done True))"
proof -
  have e: "worker_id_of 4 OR 2 = (130 :: u64)" by (simp add: worker_id_of_def UMCG_WORKER_ID_SHIFT_def)
  have t: "try_schedule_tasks reg_env (reg_done False) = Some (Inr (), reg_done False)"
    by (simp add: try_schedule_tasks_def reg_done_def Server_new_def waiting_in_def get_next_task_def TaskQueue_new_def
        map_queue_def)
  have h: "handle_umcg_event reg_env 130 (reg_done False) = Some (Inr (), reg_done False)"
    by (simp add: handle_wake_eq [OF wake_4(1)] wake_4(2) handle_wake_def get_worker_state_def reg_done_def Server_new_def)
  have w: "reg_done False\<lparr>ls_world := ls_world (reg_done False)\<rparr> = reg_done False" by simp
  have c: "sys_umcg_ctl reg_kernel 0 Cmd_Wait 0 100000000 (Some [0, 0, 0, 0, 0, 0]) 6 (ls_world (reg_done False)) =
      (0, 0, Some [130, 0, 0, 0, 0, 0], ls_world (reg_done False))"
    by (simp add: sys_umcg_ctl_def umcg_syscall_def reg_kernel_def Let_def overwrite_def e reg_done_def eval_nat_numeral)
  have "\<not> lw_done (ls_world (reg_done False))" by (simp add: reg_done_def)
  then show ?thesis
    by (simp add: server_loop_body_def t c w h replicate_6) (simp add: reg_done_def)
qed

subsection \<open>Properties\<close>

text \<open>
  C18: Registration of a new server's workers succeeds, if every wait reports a worker
  awake and threads get fresh ids: \<open>initialize_workers\<close> returns \<open>Ok\<close> with exactly
  \<open>total_workers\<close> workers in the pool, each stored under its thread id, waiting, without a
  task, and their numbers are \<open>id * total_workers + i\<close> for the \<open>i\<close> below \<open>total_workers\<close>, one
  worker for each (no number used twice).
\<close>
theorem initialize_workers_complete:
  assumes E: "lib_registering E limit" and n: "unat sid * n + n \<le> 2 ^ 64" "n \<le> limit"
  shows "\<exists>s'. initialize_workers E (Server_new Q n sid cpu x) = Some (Returns (Inr (), s')) \<and>
    \<not> ls_locked s' \<and> card (dom (ls_pool s')) = n \<and>
    (\<forall>tid w. ls_pool s' tid = Some w \<longrightarrow>
       w_tid w = tid \<and> w_status w = Waiting \<and> w_current_task w = None \<and> w_server_id w = sid) \<and>
    w_id ` ran (ls_pool s') = (\<lambda>i. of_nat (unat sid * n + i)) ` {0..<n} \<and>
    inj_on (\<lambda>i. of_nat (unat sid * n + i) :: usize) {0..<n}"
proof -
  let ?s = "Server_new Q n sid cpu x"
  have "dom (lw_channels (ls_world ?s)) = {}" by (simp add: Server_new_def)
  from initialize_new [OF E this n, of Q cpu x] obtain s' where
    "initialize_workers E ?s = Some (Returns (Inr (), s'))" "registered n s'" "ls_id s' = sid" "ls_total_workers s' = n"
    by auto
  moreover have "inj_on (\<lambda>i. of_nat (unat sid * n + i) :: usize) {0..<n}"
  proof (rule inj_onI)
    fix i j assume ij: "i \<in> {0..<n}" "j \<in> {0..<n}"
      and eq: "(of_nat (unat sid * n + i) :: usize) = of_nat (unat sid * n + j)"
    from ij n(1) have "unat sid * n + i < 2 ^ 64" "unat sid * n + j < 2 ^ 64" by auto
    with arg_cong [OF eq, of unat] show "i = j" by (simp only: unat_of_nat len_of_numeral_defs mod_less) (simp add: unat_of_nat)
  qed
  ultimately show ?thesis unfolding registered_def by auto
qed

theorem initialize_workers_complete_witness:
  "\<exists>s'. initialize_workers reg_env (Server_new list_queue 2 3 0 0) = Some (Returns (Inr (), s')) \<and>
     w_id ` ran (ls_pool s') = {6, 7}"
proof -
  have "(\<lambda>i. of_nat (6 + i) :: usize) ` {0..<2} = {6, 7}" by (simp add: numeral_2_eq_2 atLeast0_lessThan_Suc insert_commute)
  with initialize_workers_complete [OF two_workers.lib_registering_axioms, of 3 2 list_queue 0 0] show ?thesis by auto
qed

text \<open>
  What \<open>wait_for_worker_registration\<close> may report, whatever the kernel does. It returns
  an event only if its type is WAKE; it reports failure only with the nonzero result of a
  wait; and it reports a timeout only if more than five seconds have passed since it was
  called. It changes nothing of the server but the world.
\<close>
lemma registration_outcome:
  assumes "wait_for_worker_registration E wid s = Some (Returns (r, s'))"
  shows "\<exists>w. s' = s\<lparr>ls_world := w\<rparr> \<and>
    (case r of
       Inr e \<Rightarrow> event_type e = event_u64 Ev_Wake
     | Inl err \<Rightarrow> (\<exists>ret. ret \<noteq> 0 \<and> err = WorkerRegistrationFailed wid ret) \<or>
         (err = WorkerRegistrationTimeout wid \<and> le_now E w > le_now E (ls_world s) + 5000000000))"
proof -
  let ?P = "\<lambda>p. \<exists>w. snd p = s\<lparr>ls_world := w\<rparr>"
  have "\<forall>r1 s1. Returns (r, s') = Returns (r1, s1) \<longrightarrow> registration_result E wid s r1 s1"
  proof (rule rust_loop_invariant [OF assms [unfolded wait_for_worker_registration_def], where P = ?P])
    show "?P (replicate EVENT_BUFFER_SIZE 0, s)" by (intro exI [of _ "ls_world s"]) simp
  next
    fix p p' assume "?P p" "registration_body E (le_now E (ls_world s)) wid p = Some (Inl p')"
    then show "?P p'" using registration_step [where evs = "fst p"] by (cases p) fastforce
  next
    fix p q assume "?P p" "registration_body E (le_now E (ls_world s)) wid p = Some (Inr q)"
    then show "\<forall>r1 s1. q = Returns (r1, s1) \<longrightarrow> registration_result E wid s r1 s1"
      using registration_step [where evs = "fst p"] by (cases p) fastforce
  qed
  then show ?thesis by (simp add: registration_result_def)
qed

lemma registration_outcome_example:
  "\<exists>e s'. wait_for_worker_registration reg_env 7 (Server_new list_queue 1 0 0 4) = Some (Returns (Inr e, s')) \<and>
     event_type e = event_u64 Ev_Wake"
proof -
  obtain e w where r: "wait_for_worker_registration reg_env 7 (Server_new list_queue 1 0 0 4) =
      Some (Returns (Inr e, Server_new list_queue 1 0 0 4\<lparr>ls_world := w\<rparr>))"
    using two_workers.registration_returns [of 7 "Server_new list_queue 1 0 0 4"] by metis
  from registration_outcome [OF r] r show ?thesis by auto
qed

text \<open>
  C16: The main loop of \<open>run_server\<close> never loses a worker: from a pool in good order with a
  free lock, at the head of every iteration, and also when the loop is left (by \<open>done\<close> or
  by an error), the pool has the same workers with the same identities, its lock is free,
  each worker is stored under its thread id, and only running or blocked workers have a
  task. This holds for every kernel and every queue.
\<close>
theorem server_loop_safe:
  assumes "pool_ok (ls_pool s)" and "\<not> ls_locked s"
    and "loop_iter (server_loop_body E) n s = Some s' \<or> rust_loop (server_loop_body E) s = Some (r, s')"
  shows "pool_ok (ls_pool s') \<and> \<not> ls_locked s' \<and> dom (ls_pool s') = dom (ls_pool s) \<and>
    (\<forall>tid w w'. ls_pool s tid = Some w \<longrightarrow> ls_pool s' tid = Some w' \<longrightarrow>
       w_id w' = w_id w \<and> w_tid w' = w_tid w \<and> w_server_id w' = w_server_id w)"
proof -
  from assms(3) have "keeps s s'" using server_loop_iter_keeps server_loop_result_keeps by blast
  with assms(1,2) show ?thesis unfolding keeps_def same_workers_def by blast
qed

theorem server_loop_safe_witness:
  "\<exists>s'. loop_iter (server_loop_body (lib_env_of block_kernel)) 1 (lib_demo Waiting None [] mpsc_channel) = Some s' \<and>
     pool_ok (ls_pool s') \<and> dom (ls_pool s') = {4}"
proof -
  let ?s = "lib_demo Waiting None [] mpsc_channel" and ?E = "lib_env_of block_kernel"
  have "loop_iter (server_loop_body ?E) 1 ?s = Some ?s"
    by (simp add: server_loop_body_def try_schedule_tasks_def lib_demo_def waiting_in_def get_next_task_def map_queue_def
        sys_umcg_ctl_def umcg_syscall_def block_kernel_def Let_def eval_nat_numeral)
  moreover have "pool_ok (ls_pool ?s)" "\<not> ls_locked ?s" "dom (ls_pool ?s) = {4}"
    by (simp_all add: lib_demo_def pool_ok_def)
  ultimately show ?thesis using server_loop_safe [of ?s ?E 1 ?s] by auto
qed

text \<open>
  \<open>initiate_shutdown\<close> sets \<open>done\<close> and sends \<open>Shutdown\<close> once to every worker of the pool
  whose receiver is alive, behind the tasks already in its channel; channels of threads
  outside the pool are left alone. The unregistering system call is made also if a send
  failed.
\<close>
lemma lib_shutdown_reaches_workers:
  assumes "\<not> ls_locked s"
    and "\<And>args buf w. a_cmd args = cmd_u64 Cmd_Unregister \<Longrightarrow> sr_world (le_kernel E args buf w) = w"
  shows "\<exists>s'. initiate_shutdown E s = Some s' \<and> lw_done (ls_world s') \<and> ls_pool s' = ls_pool s \<and>
    (\<forall>tid tx. lw_channels (ls_world s) tid = Some tx \<longrightarrow>
       lw_channels (ls_world s') tid = Some (if tid \<in> dom (ls_pool s) \<and> mpsc_rx tx
         then tx\<lparr>mpsc_buf := mpsc_buf tx @ [Shutdown]\<rparr> else tx))"
  using assms
  by (auto simp: initiate_shutdown_def sys_umcg_ctl_def umcg_syscall_def Let_def send_shutdown_def mpsc_send_def
      simp del: cmd_u64.simps)

text \<open>
  A whole run of a server: if every wait during registration reports a worker awake
  and the server's thread ends with \<open>Ok\<close>, then all its workers had been registered, and
  its pool, with a free lock and in good order, still has exactly \<open>total_workers\<close>
  workers. A thread that ends with an error, ends so after registration, or because the
  kernel refused to register the server.
\<close>
lemma run_server_complete:
  assumes E: "lib_registering E limit" and n: "unat sid * n + n \<le> 2 ^ 64" "n \<le> limit"
    and aff: "\<And>c w. dom (lw_channels (snd (le_affinity E c w))) = dom (lw_channels w)"
    and run: "run_server E (Server_new Q n sid cpu x) = Some (Returns (r, s'))"
  shows "(\<exists>ret. ret \<noteq> 0 \<and> r = Inl (RegistrationFailed ret) \<and> dom (ls_pool s') = {}) \<or>
    card (dom (ls_pool s')) = n \<and> \<not> ls_locked s' \<and> pool_ok (ls_pool s')"
proof -
  let ?s = "Server_new Q n sid cpu x"
  obtain a w0 where a: "set_cpu_affinity (le_affinity E) (ls_cpu_id ?s) (ls_world ?s) = (a, w0)" by fastforce
  obtain ret errno evs w1 where c: "sys_umcg_ctl (le_kernel E) 0 Cmd_RegisterServer 0 0 None 0 w0 = (ret, errno, evs, w1)"
    by (metis prod_cases4)
  show ?thesis
  proof (cases "ret = 0")
    case False
    with run a c show ?thesis by (auto simp: run_server_def Server_new_def)
  next
    case True
    from a have "w0 = snd (le_affinity E (ls_cpu_id ?s) (ls_world ?s))"
      by (auto simp: set_cpu_affinity_def split: prod.splits)
    with aff have "dom (lw_channels w0) = {}" by (simp add: Server_new_def)
    moreover from c obtain args where "w1 = sr_world (le_kernel E args None w0)"
      by (auto simp: sys_umcg_ctl_def umcg_syscall_def Let_def)
    ultimately have "dom (lw_channels w1) = {}" using lib_registering.kernel_channels [OF E] by metis
    from initialize_new [OF E this n, of Q cpu x] obtain s1 where
      i: "initialize_workers E (?s\<lparr>ls_world := w1\<rparr>) = Some (Returns (Inr (), s1))" "registered n s1" by blast
    from run a c True i(1) obtain r2 s2 where l: "rust_loop (server_loop_body E) s1 = Some (r2, s2)"
      and e: "(case r2 of Inl err \<Rightarrow> Some (Returns (Inl err, s2))
        | Inr _ \<Rightarrow> map_option (\<lambda>s3. Returns (Inr (), s3)) (initiate_shutdown E s2)) = Some (Returns (r, s'))"
      by (auto simp: run_server_def split: option.splits)
    note k = registered_same_workers [OF i(2) server_loop_result_keeps [OF l]]
    from shutdown_state [OF k(2), of E] obtain w where "initiate_shutdown E s2 = Some (s2\<lparr>ls_world := w\<rparr>)" by blast
    with e k show ?thesis by (auto split: sum.splits)
  qed
qed

lemma run_server_complete_example:
  "\<exists>s'. run_server reg_env (Server_new list_queue 1 0 0 0) = Some (Returns (Inr (), s')) \<and>
     card (dom (ls_pool s')) = 1 \<and> pool_ok (ls_pool s')"
proof -
  have "\<exists>s'. run_server reg_env (Server_new list_queue 1 0 0 0) = Some (Returns (Inr (), s'))"
  proof -
    have l: "rust_loop (server_loop_body reg_env) (reg_done False) = Some (Inr (), reg_done True)"
      by (simp add: rust_loop_continue [where body = "server_loop_body reg_env", OF reg_iteration]) (simp add: rust_loop_break server_loop_body_def reg_done_def)
    have "\<not> ls_locked (reg_done True)" by (simp add: reg_done_def Server_new_def)
    with l shutdown_state [of "reg_done True" reg_env] reg_initialize show ?thesis
      by (auto simp: run_server_def set_cpu_affinity_def sys_umcg_ctl_def umcg_syscall_def reg_kernel_def Let_def)
  qed
  then obtain s' where r: "run_server reg_env (Server_new list_queue 1 0 0 0) = Some (Returns (Inr (), s'))" by blast
  from run_server_complete [OF two_workers.lib_registering_axioms _ _ _ r] show ?thesis
    using r by (auto simp: reg_env_def)
qed

end
