(* ===== verification/Task_Stats.thy ===== *)
theory Task_Stats
  imports Containers
begin

text \<open>
  \<open>src/task_stats.rs\<close>: the completion statistics of the executor of \<open>src/lib.rs\<close>. A
  concurrent map records for every registered task whether it has completed, so that
  completing a task twice counts once. Each operation is one atomic step of some thread:
  the guard of \<open>get_mut\<close> is held over the test, the write and the count.
\<close>

subsection \<open>Operations\<close>

type_synonym task_id = "128 word"

record 'd task_stats =
  completed_tasks :: 'd
  total_tasks :: usize
  completed_count :: usize

definition TaskStats_new :: "('d, task_id, bool) dash_ops \<Rightarrow> 'd task_stats" where
  "TaskStats_new D = \<lparr>completed_tasks = dm_new D, total_tasks = 0, completed_count = 0\<rparr>"

definition register_task :: "('d, task_id, bool) dash_ops \<Rightarrow> task_id \<Rightarrow> 'd task_stats \<Rightarrow> 'd task_stats" where
  "register_task D task_id s =
     s\<lparr>completed_tasks := dm_insert D task_id False (completed_tasks s), total_tasks := total_tasks s + 1\<rparr>"

definition mark_completed :: "('d, task_id, bool) dash_ops \<Rightarrow> task_id \<Rightarrow> 'd task_stats \<Rightarrow> 'd task_stats" where
  "mark_completed D task_id s =
     (case dm_get D (completed_tasks s) task_id of
        None \<Rightarrow> s
      | Some entry \<Rightarrow>
          if \<not> entry
          then s\<lparr>completed_tasks := dm_write D task_id True (completed_tasks s),
                 completed_count := completed_count s + 1\<rparr>
          else s)"

definition all_tasks_completed :: "'d task_stats \<Rightarrow> bool" where
  "all_tasks_completed s \<longleftrightarrow> completed_count s = total_tasks s \<and> total_tasks s > 0"

subsection \<open>Interleavings\<close>

text \<open>
  What a history of registrations (of fresh ids) and completions leads to; \<open>R\<close> is the set
  of registered tasks, \<open>F\<close> the set of those that were completed after being registered.
\<close>

inductive stats_reach :: "('d, task_id, bool) dash_ops \<Rightarrow> 'd task_stats \<Rightarrow> task_id set \<Rightarrow> task_id set \<Rightarrow> bool"
  for D where
  start: "stats_reach D (TaskStats_new D) {} {}"
| register: "stats_reach D s R F \<Longrightarrow> i \<notin> R \<Longrightarrow> stats_reach D (register_task D i s) (insert i R) F"
| complete: "stats_reach D s R F \<Longrightarrow> stats_reach D (mark_completed D i s) R (F \<union> ({i} \<inter> R))"

locale stats_client = dash_map D lookup
  for D :: "('d, task_id, bool) dash_ops" and lookup :: "'d \<Rightarrow> task_id \<Rightarrow> bool option"
begin

definition stats_inv :: "'d task_stats \<Rightarrow> task_id set \<Rightarrow> task_id set \<Rightarrow> bool" where
  "stats_inv s R F \<longleftrightarrow> finite R \<and> F \<subseteq> R \<and>
     lookup (completed_tasks s) = (\<lambda>i. if i \<in> R then Some (i \<in> F) else None) \<and>
     total_tasks s = of_nat (card R) \<and> completed_count s = of_nat (card F)"

lemma inv_register: "stats_inv s R F \<Longrightarrow> i \<notin> R \<Longrightarrow> stats_inv (register_task D i s) (insert i R) F"
  by (auto simp: stats_inv_def register_task_def map_simps fun_eq_iff)

lemma inv_complete:
  assumes "stats_inv s R F"
  shows "stats_inv (mark_completed D i s) R (F \<union> ({i} \<inter> R))"
proof (cases "i \<in> R \<and> i \<notin> F")
  case True
  with assms have l: "lookup (completed_tasks s) i = Some False" by (simp add: stats_inv_def)
  have "finite F" using assms finite_subset unfolding stats_inv_def by blast
  with True l assms show ?thesis
    by (auto simp: stats_inv_def mark_completed_def map_simps fun_eq_iff)
next
  case False
  then have "F \<union> ({i} \<inter> R) = F" by auto
  moreover have "mark_completed D i s = s"
    using assms False by (simp add: stats_inv_def mark_completed_def map_simps)
  ultimately show ?thesis using assms by simp
qed

lemma reach_inv: "stats_reach D s R F \<Longrightarrow> stats_inv s R F"
proof (induction rule: stats_reach.induct)
  case start
  then show ?case by (simp add: stats_inv_def TaskStats_new_def map_simps fun_eq_iff)
qed (auto intro: inv_register inv_complete)

lemma completed_iff:
  assumes "stats_reach D s R F" and "card R < 2 ^ 64"
  shows "all_tasks_completed s \<longleftrightarrow> R \<noteq> {} \<and> F = R"
proof -
  from reach_inv [OF assms(1)] have i: "finite R" "F \<subseteq> R"
    "total_tasks s = of_nat (card R)" "completed_count s = of_nat (card F)" by (simp_all add: stats_inv_def)
  have "card F \<le> card R" using i by (simp add: card_mono)
  then have "completed_count s = total_tasks s \<longleftrightarrow> card F = card R"
    using assms(2) by (simp add: i word_unat_eq_iff unat_of_nat)
  moreover have "card F = card R \<longleftrightarrow> F = R" using card_subset_eq [OF i(1,2)] by auto
  moreover have "total_tasks s > 0 \<longleftrightarrow> R \<noteq> {}"
    using assms(2) i by (auto simp: word_less_nat_alt unat_of_nat card_gt_0_iff)
  ultimately show ?thesis by (auto simp: all_tasks_completed_def)
qed

end

interpretation fun_stats: stats_client fun_map "\<lambda>d. d"
  by unfold_locales

subsection \<open>Properties\<close>

text \<open>
  Whatever the interleaving of registrations and completions, with each task id
  registered once, \<open>all_tasks_completed\<close> answers true exactly if at least one task was
  registered and every registered task has completed; and the two counters are the
  number of registered and of completed tasks. Completing a task twice, or completing one
  that is not registered, counts nothing.
\<close>
lemma stats_completion_exact:
  assumes "dash_map D lookup" and "stats_reach D s R F" and "card R < 2 ^ 64"
  shows "(all_tasks_completed s \<longleftrightarrow> R \<noteq> {} \<and> F = R) \<and>
    unat (total_tasks s) = card R \<and> unat (completed_count s) = card F"
proof -
  have sc: "stats_client D lookup" using assms(1) by (rule stats_client.intro)
  from stats_client.reach_inv [OF sc assms(2)] have i: "finite R" "F \<subseteq> R"
    "total_tasks s = of_nat (card R)" "completed_count s = of_nat (card F)"
    by (simp_all add: stats_client.stats_inv_def [OF sc])
  have "card F \<le> card R" using i by (simp add: card_mono)
  with i assms(3) stats_client.completed_iff [OF sc assms(2,3)] show ?thesis by (simp add: unat_of_nat)
qed

lemma stats_completion_exact_example:
  "\<not> all_tasks_completed
     (mark_completed fun_map 7 (mark_completed fun_map 7 (register_task fun_map 8 (register_task fun_map 7 (TaskStats_new fun_map)))))
   \<and> all_tasks_completed
     (mark_completed fun_map 8 (mark_completed fun_map 7 (register_task fun_map 8 (register_task fun_map 7 (TaskStats_new fun_map)))))"
proof -
  let ?s = "register_task fun_map 8 (register_task fun_map 7 (TaskStats_new fun_map))"
  have r: "stats_reach fun_map ?s {8, 7} {}"
    by (intro stats_reach.register stats_reach.start) simp_all
  from stats_reach.complete [OF stats_reach.complete [OF r, of 7], of 7]
  have 1: "stats_reach fun_map (mark_completed fun_map 7 (mark_completed fun_map 7 ?s)) {8, 7} {7}" by simp
  from stats_reach.complete [OF stats_reach.complete [OF r, of 7], of 8]
  have 2: "stats_reach fun_map (mark_completed fun_map 8 (mark_completed fun_map 7 ?s)) {8, 7} {7, 8}"
    by (simp add: insert_commute)
  from stats_completion_exact [OF fun_map.dash_map_axioms 1] stats_completion_exact [OF fun_map.dash_map_axioms 2]
  show ?thesis by auto
qed

end
