(* ===== verification/Lib_Executor.thy ===== *)
theory Lib_Executor
  imports Lib_Run Task_Stats
begin

text \<open>
  The executor of \<open>src/lib.rs\<close>: its servers, the round-robin submission of tasks with
  their completion statistics, start and shutdown, and the demo that waits for its tasks.
\<close>

subsection \<open>\<open>Executor\<close>\<close>

record ExecutorConfig =
  cfg_server_count :: usize
  cfg_worker_count :: usize
  cfg_start_cpu :: usize

definition ExecutorConfig_default :: ExecutorConfig where
  "ExecutorConfig_default = \<lparr>cfg_server_count = 1, cfg_worker_count = 3, cfg_start_cpu = 0\<rparr>"

text \<open>
  A submitted closure is wrapped: the wrapper runs it and then marks its task completed.
  Wrapped closures are pairs of a task id and a closure.
\<close>

type_synonym 'f wrapped = "task_id \<times> 'f"

record ('q, 'f, 'x, 'd) executor =
  ex_servers :: "('q, 'f wrapped, 'x) lib_server list"
  ex_next_server :: usize
  ex_config :: ExecutorConfig
  ex_stats :: "'d task_stats"

text \<open>The number of the cpu is computed with a checked addition for every server.\<close>

definition Executor_new ::
  "('d, task_id, bool) dash_ops \<Rightarrow> ('q, 'f wrapped TaskEntry) queue_ops \<Rightarrow> ExecutorConfig \<Rightarrow> 'x \<Rightarrow>
   ('q, 'f, 'x, 'd) executor outcome" where
  "Executor_new D Q cfg x =
     (if \<exists>i < unat (cfg_server_count cfg). 2 ^ 64 \<le> unat (cfg_start_cpu cfg) + i then Panics
      else Returns
        \<lparr>ex_servers = map (\<lambda>i. Server_new Q (unat (cfg_worker_count cfg)) (of_nat i) (cfg_start_cpu cfg + of_nat i) x)
           [0..<unat (cfg_server_count cfg)],
         ex_next_server = 0, ex_config = cfg, ex_stats = TaskStats_new D\<rparr>)"

text \<open>
  \<open>submit\<close>: the counter wraps; with no server the remainder panics. The lock of the
  server's pool is taken to count the workers for the log: \<open>None\<close> while it is held.
\<close>

definition submit ::
  "('d, task_id, bool) dash_ops \<Rightarrow> ('q, 'f wrapped TaskEntry) queue_ops \<Rightarrow> task_id \<Rightarrow> uuid \<Rightarrow> nat \<Rightarrow> 'f \<Rightarrow>
   ('q, 'f, 'x, 'd) executor \<Rightarrow> ('q, 'f, 'x, 'd) executor outcome option" where
  "submit D Q task_id new_v4 now f ex =
     (if cfg_server_count (ex_config ex) = 0 then Some Panics
      else let server_idx = unat (ex_next_server ex mod cfg_server_count (ex_config ex));
               ex1 = ex\<lparr>ex_stats := register_task D task_id (ex_stats ex), ex_next_server := ex_next_server ex + 1\<rparr>
           in if server_idx < length (ex_servers ex)
              then let server = ex_servers ex ! server_idx in
                if ls_locked server then None
                else Some (Returns (ex1\<lparr>ex_servers := (ex_servers ex)[server_idx :=
                  server\<lparr>ls_world := add_task Q new_v4 now (Function (task_id, f)) (ls_world server)\<rparr>]\<rparr>))
              else Some (Returns ex1))"

text \<open>\<open>TaskHandle::submit\<close> submits to its executor and sleeps; the sleep lets others run.\<close>

definition TaskHandle_submit ::
  "('d, task_id, bool) dash_ops \<Rightarrow> ('q, 'f wrapped TaskEntry) queue_ops \<Rightarrow>
   (('q, 'f, 'x, 'd) executor \<Rightarrow> ('q, 'f, 'x, 'd) executor) \<Rightarrow> task_id \<Rightarrow> uuid \<Rightarrow> nat \<Rightarrow> 'f \<Rightarrow>
   ('q, 'f, 'x, 'd) executor \<Rightarrow> ('q, 'f, 'x, 'd) executor outcome option" where
  "TaskHandle_submit D Q sleep task_id new_v4 now f ex =
     map_option (\<lambda>r. case r of Panics \<Rightarrow> Panics | Returns ex' \<Rightarrow> Returns (sleep ex')) (submit D Q task_id new_v4 now f ex)"

text \<open>The wrapped closure: a closure that panics or hangs is never marked.\<close>

definition run_wrapped ::
  "('d, task_id, bool) dash_ops \<Rightarrow> ('f \<Rightarrow> ('q, 'f, 'x, 'd) executor \<Rightarrow> ('q, 'f, 'x, 'd) executor outcome option) \<Rightarrow>
   'f wrapped \<Rightarrow> ('q, 'f, 'x, 'd) executor \<Rightarrow> ('q, 'f, 'x, 'd) executor outcome option" where
  "run_wrapped D call = (\<lambda>(task_id, f) ex.
     case call f ex of
       None \<Rightarrow> None
     | Some Panics \<Rightarrow> Some Panics
     | Some (Returns ex') \<Rightarrow> Some (Returns (ex'\<lparr>ex_stats := mark_completed D task_id (ex_stats ex')\<rparr>)))"

text \<open>The wait of \<open>start\<close> for the ready counter; \<open>others\<close> is what happens to it during a sleep.\<close>

definition wait_ready :: "(usize \<Rightarrow> usize) \<Rightarrow> usize \<Rightarrow> usize \<Rightarrow> usize option" where
  "wait_ready others total_servers =
     rust_loop (\<lambda>server_ready. if server_ready < total_servers then Some (Inl (others server_ready)) else Some (Inr server_ready))"

definition executor_start :: "(usize \<Rightarrow> usize) \<Rightarrow> ('q, 'f, 'x, 'd) executor \<Rightarrow> usize option" where
  "executor_start others ex = wait_ready others (of_nat (length (ex_servers ex))) 0"

definition executor_all_tasks_completed :: "('q, 'f, 'x, 'd) executor \<Rightarrow> bool" where
  "executor_all_tasks_completed ex = all_tasks_completed (ex_stats ex)"

definition get_completion_stats :: "('q, 'f, 'x, 'd) executor \<Rightarrow> usize \<times> usize" where
  "get_completion_stats ex = (completed_count (ex_stats ex), total_tasks (ex_stats ex))"

definition executor_shutdown ::
  "('q, 'f wrapped TaskEntry) queue_ops \<Rightarrow> ('q, 'f, 'x, 'd) executor \<Rightarrow> ('q, 'f, 'x, 'd) executor" where
  "executor_shutdown Q ex =
     ex\<lparr>ex_servers := map (\<lambda>server. server\<lparr>ls_world := add_task Q 0 0 Shutdown (ls_world server)\<rparr>) (ex_servers ex)\<rparr>"

text \<open>
  The wait of \<open>run_dynamic_task_demo\<close>: until all tasks are completed, at most thirty
  seconds; \<open>others\<close> is what happens during a sleep and \<open>elapsed\<close> the time since the start.
\<close>

definition demo_wait_body ::
  "('q, 'f wrapped TaskEntry) queue_ops \<Rightarrow> ('y \<Rightarrow> nat) \<Rightarrow>
   (('q, 'f, 'x, 'd) executor \<times> 'y \<Rightarrow> ('q, 'f, 'x, 'd) executor \<times> 'y) \<Rightarrow> ('q, 'f, 'x, 'd) executor \<times> 'y \<Rightarrow>
   (('q, 'f, 'x, 'd) executor \<times> 'y + i32 \<times> ('q, 'f, 'x, 'd) executor) option" where
  "demo_wait_body Q elapsed others = (\<lambda>(ex, y).
     if executor_all_tasks_completed ex then Some (Inr (0, executor_shutdown Q ex))
     else if elapsed y > 30 * 1000000000 then Some (Inr (1, executor_shutdown Q ex))
     else Some (Inl (others (ex, y))))"

definition demo_wait ::
  "('q, 'f wrapped TaskEntry) queue_ops \<Rightarrow> ('y \<Rightarrow> nat) \<Rightarrow>
   (('q, 'f, 'x, 'd) executor \<times> 'y \<Rightarrow> ('q, 'f, 'x, 'd) executor \<times> 'y) \<Rightarrow> ('q, 'f, 'x, 'd) executor \<times> 'y \<Rightarrow>
   (i32 \<times> ('q, 'f, 'x, 'd) executor) option" where
  "demo_wait Q elapsed others = rust_loop (demo_wait_body Q elapsed others)"

subsection \<open>Many submissions\<close>

record 'f submission =
  sub_task :: task_id
  sub_entry :: uuid
  sub_time :: nat
  sub_fn :: 'f

primrec submit_all ::
  "('d, task_id, bool) dash_ops \<Rightarrow> ('q, 'f wrapped TaskEntry) queue_ops \<Rightarrow> 'f submission list \<Rightarrow>
   ('q, 'f, 'x, 'd) executor \<Rightarrow> ('q, 'f, 'x, 'd) executor outcome option" where
  "submit_all D Q [] ex = Some (Returns ex)"
| "submit_all D Q (t # ts) ex =
     (case submit D Q (sub_task t) (sub_entry t) (sub_time t) (sub_fn t) ex of
        Some (Returns ex') \<Rightarrow> submit_all D Q ts ex'
      | r \<Rightarrow> r)"

definition entry_of :: "'f submission \<Rightarrow> 'f wrapped TaskEntry" where
  "entry_of t = TaskEntry_new (sub_entry t) (sub_time t) (sub_task t, sub_fn t)"

text \<open>The submissions server \<open>i\<close> of \<open>n\<close> gets.\<close>

definition share :: "nat \<Rightarrow> nat \<Rightarrow> 'a list \<Rightarrow> 'a list" where
  "share n i ts = map (\<lambda>j. ts ! j) (filter (\<lambda>j. j mod n = i) [0..<length ts])"

lemma share_Nil [simp]: "share n i [] = []"
  by (simp add: share_def)

lemma share_snoc: "share n i (ts @ [t]) = (if length ts mod n = i then share n i ts @ [t] else share n i ts)"
proof -
  have "map (\<lambda>j. (ts @ [t]) ! j) (filter (\<lambda>j. j mod n = i) [0..<length ts]) = share n i ts"
    unfolding share_def by (rule map_cong) (auto simp: nth_append)
  then show ?thesis by (simp add: share_def [of n i "ts @ [t]"])
qed

lemma mod_next_iff:
  assumes "i < (n :: nat)"
  shows "(k + (n - i)) mod n = 0 \<longleftrightarrow> k mod n = i"
proof -
  have "(k + (n - i)) mod n = (k mod n + (n - i)) mod n" by (rule mod_add_left_eq [symmetric])
  also have "\<dots> = 0 \<longleftrightarrow> k mod n = i"
  proof (cases "k mod n < i")
    case True
    with assms have "k mod n + (n - i) < n" "0 < k mod n + (n - i)" by simp_all
    with True assms show ?thesis by simp
  next
    case False
    have "k mod n < n" using assms by simp
    with False assms have eq: "k mod n + (n - i) = (k mod n - i) + n" "k mod n - i < n" by linarith+
    have "(k mod n + (n - i)) mod n = k mod n - i" unfolding eq(1) by (simp only: mod_add_self2 mod_less [OF eq(2)])
    then show ?thesis using False by simp
  qed
  finally show ?thesis .
qed

lemma length_share: "i < n \<Longrightarrow> length (share n i ts) = (length ts + n - 1 - i) div n"
proof (induction ts rule: rev_induct)
  case (snoc t ts)
  define a where "a = length ts + n - 1 - i"
  have s: "length (ts @ [t]) + n - 1 - i = Suc a" "Suc a = length ts + (n - i)"
    using snoc.prems by (simp_all add: a_def)
  have "Suc a mod n = 0 \<longleftrightarrow> length ts mod n = i" unfolding s(2) by (rule mod_next_iff [OF snoc.prems])
  moreover have "length (share n i ts) = a div n" using snoc by (simp add: a_def)
  ultimately show ?case unfolding s(1) by (simp add: share_snoc div_Suc)
qed simp

lemma share_room:
  assumes "0 < n" and "length ts < c * n"
  shows "length (share n (length ts mod n) ts) < c"
proof -
  let ?k = "length ts"
  have i: "?k mod n < n" using assms(1) by simp
  have "?k div n * n + ?k mod n = ?k" by simp
  then have "?k + n - 1 - ?k mod n = (n - 1) + ?k div n * n" using assms(1) by linarith
  moreover have "((n - 1) + ?k div n * n) div n = ?k div n"
    using assms(1) div_mult_self1 [of n "n - 1" "?k div n"] by simp
  ultimately have "length (share n (?k mod n) ts) = ?k div n" using length_share [OF i, of ts] by simp
  also have "\<dots> < c" using assms by (simp add: less_mult_imp_div_less)
  finally show ?thesis .
qed

locale executor_client = entry_queue Q items cap
  for Q :: "('q, 'f wrapped TaskEntry) queue_ops" and items :: "'q \<Rightarrow> 'f wrapped TaskEntry list" and cap :: "'q \<Rightarrow> nat"
begin

definition holds :: "'f submission list \<Rightarrow> ('q, 'f wrapped, 'x) lib_server \<Rightarrow> bool" where
  "holds ts s \<longleftrightarrow> \<not> ls_locked s \<and> items (tq_pending (lw_queue (ls_world s))) = map entry_of ts \<and>
     cap (tq_pending (lw_queue (ls_world s))) = 1024"

definition balanced :: "nat \<Rightarrow> 'f submission list \<Rightarrow> ('q, 'f, 'x, 'd) executor \<Rightarrow> bool" where
  "balanced n ts ex \<longleftrightarrow> length (ex_servers ex) = n \<and> unat (cfg_server_count (ex_config ex)) = n \<and>
     ex_next_server ex = of_nat (length ts) \<and> (\<forall>i < n. holds (share n i ts) (ex_servers ex ! i))"

lemma holds_add:
  assumes "holds ts s" and "length ts < 1024"
  shows "holds (ts @ [t])
    (s\<lparr>ls_world := add_task Q (sub_entry t) (sub_time t) (Function (sub_task t, sub_fn t)) (ls_world s)\<rparr>)"
  using assms
  by (simp add: holds_def add_task_def enqueue_def TaskEntry_new_def entry_of_def queue_simps)

lemma new_balanced:
  assumes "Executor_new D Q cfg x = Returns ex"
  shows "balanced (unat (cfg_server_count cfg)) [] ex"
  using assms by (auto simp: Executor_new_def balanced_def holds_def Server_new_def TaskQueue_new_def items_new cap_new split: if_splits)

lemma submit_balanced:
  assumes b: "balanced n ts ex" and n: "0 < n" and k: "length ts < 1024 * n" "length ts < 2 ^ 64"
  shows "\<exists>ex'. submit D Q (sub_task t) (sub_entry t) (sub_time t) (sub_fn t) ex = Some (Returns ex') \<and>
    balanced n (ts @ [t]) ex' \<and> ex_stats ex' = register_task D (sub_task t) (ex_stats ex)"
proof -
  let ?i = "length ts mod n"
  let ?s = "ex_servers ex ! ?i"
  let ?s' = "?s\<lparr>ls_world := add_task Q (sub_entry t) (sub_time t) (Function (sub_task t, sub_fn t)) (ls_world ?s)\<rparr>"
  from b have len: "length (ex_servers ex) = n" and cnt: "unat (cfg_server_count (ex_config ex)) = n"
    and nxt: "ex_next_server ex = of_nat (length ts)" and h: "\<And>i. i < n \<Longrightarrow> holds (share n i ts) (ex_servers ex ! i)"
    by (auto simp: balanced_def)
  have i: "?i < n" using n by simp
  have idx: "unat (ex_next_server ex mod cfg_server_count (ex_config ex)) = ?i"
    using k(2) by (simp add: unat_mod nxt cnt unat_of_nat)
  have nz: "cfg_server_count (ex_config ex) \<noteq> 0" using cnt n by auto
  have free: "\<not> ls_locked ?s" using h [OF i] by (simp add: holds_def)
  let ?ex = "ex\<lparr>ex_stats := register_task D (sub_task t) (ex_stats ex), ex_next_server := ex_next_server ex + 1,
    ex_servers := (ex_servers ex)[?i := ?s']\<rparr>"
  have "submit D Q (sub_task t) (sub_entry t) (sub_time t) (sub_fn t) ex = Some (Returns ?ex)"
    using i by (simp add: submit_def idx nz free len Let_def)
  moreover have "holds (share n j (ts @ [t])) ((ex_servers ex)[?i := ?s'] ! j)" if "j < n" for j
    using holds_add [OF h [OF i] share_room [OF n k(1)], of t] h [OF that] that len
    by (cases "j = ?i") (simp_all add: share_snoc)
  then have "balanced n (ts @ [t]) ?ex" by (simp add: balanced_def len cnt nxt)
  ultimately show ?thesis by auto
qed

lemma submit_all_balanced:
  assumes "balanced n us ex" and "0 < n" and "length us + length ts \<le> 1024 * n" "length us + length ts < 2 ^ 64"
  shows "\<exists>ex'. submit_all D Q ts ex = Some (Returns ex') \<and> balanced n (us @ ts) ex' \<and>
    ex_stats ex' = fold (register_task D) (map sub_task ts) (ex_stats ex)"
  using assms
proof (induction ts arbitrary: us ex)
  case (Cons t ts)
  from Cons.prems have "length us < 1024 * n" "length us < 2 ^ 64" by simp_all
  from submit_balanced [OF Cons.prems(1,2) this, of D t] obtain ex1 where
    s: "submit D Q (sub_task t) (sub_entry t) (sub_time t) (sub_fn t) ex = Some (Returns ex1)"
    and b: "balanced n (us @ [t]) ex1" and st: "ex_stats ex1 = register_task D (sub_task t) (ex_stats ex)" by blast
  from Cons.IH [OF b Cons.prems(2)] Cons.prems(3,4) s st show ?case by auto
qed simp

end

interpretation list_executor: executor_client list_queue snd fst
  by unfold_locales


subsection \<open>Waiting for completion\<close>

lemma shutdown_done:
  "s \<in> set (ex_servers (executor_shutdown Q ex)) \<Longrightarrow> lw_done (ls_world s)"
  by (auto simp: executor_shutdown_def add_task_def)

lemma shutdown_stats [simp]: "ex_stats (executor_shutdown Q ex) = ex_stats ex"
  by (simp add: executor_shutdown_def)

lemma ready_iter:
  "\<forall>m < n. (others ^^ m) r < lim \<Longrightarrow>
   loop_iter (\<lambda>r. if r < lim then Some (Inl (others r)) else Some (Inr r)) n r = Some ((others ^^ n) r)"
proof (induction n arbitrary: r)
  case (Suc n)
  have "(others ^^ m) (others r) < lim" if "m < n" for m
    using Suc.prems [rule_format, of "Suc m"] that by (simp add: funpow_swap1)
  with Suc.IH [of "others r"] Suc.prems [rule_format, of 0] show ?case by (simp add: funpow_swap1)
qed simp

lemma ready_iter_less:
  "loop_iter (\<lambda>r. if r < lim then Some (Inl (others r)) else Some (Inr r)) n r = Some r' \<Longrightarrow>
   r' = (others ^^ n) r \<and> (\<forall>m < n. (others ^^ m) r < lim)"
proof (induction n arbitrary: r)
  case (Suc n)
  then have r: "r < lim" and i: "loop_iter (\<lambda>r. if r < lim then Some (Inl (others r)) else Some (Inr r)) n (others r) = Some r'"
    by (auto split: if_splits)
  have "(others ^^ m) r < lim" if "m < Suc n" for m
    using Suc.IH [OF i] r that by (cases m) (auto simp: funpow_swap1)
  with Suc.IH [OF i] show ?case by (simp add: funpow_swap1)
qed simp

text \<open>
  \<open>start\<close> returns exactly when the ready counter, as the server threads advance it
  between two looks, has reached the number of servers, and with the first value that
  did; if it never does, \<open>start\<close> never returns.
\<close>
lemma start_waits_for_servers:
  "executor_start others ex = Some r \<longleftrightarrow>
    (\<exists>k. r = (others ^^ k) 0 \<and> of_nat (length (ex_servers ex)) \<le> r \<and>
       (\<forall>m < k. (others ^^ m) 0 < of_nat (length (ex_servers ex))))"
  (is "_ \<longleftrightarrow> ?R")
proof
  let ?t = "of_nat (length (ex_servers ex)) :: usize"
  assume "executor_start others ex = Some r"
  then obtain n where i: "loop_iter (\<lambda>r. if r < ?t then Some (Inl (others r)) else Some (Inr r)) n 0 = Some r" and r: "\<not> r < ?t"
    unfolding executor_start_def wait_ready_def rust_loop_Some_iff by (auto split: if_splits)
  from ready_iter_less [OF i] r show ?R by (intro exI [of _ n]) auto
next
  let ?t = "of_nat (length (ex_servers ex)) :: usize"
  assume ?R
  then obtain k where k: "r = (others ^^ k) 0" "?t \<le> r" "\<forall>m < k. (others ^^ m) 0 < ?t" by blast
  from ready_iter [OF k(3)] k(1,2) show "executor_start others ex = Some r"
    unfolding executor_start_def wait_ready_def rust_loop_Some_iff
    by (intro exI [of _ k] exI [of _ r]) (simp add: not_less)
qed

text \<open>
  The demo's wait ends. If the clock advances between two looks at the statistics,
  whatever the servers do meanwhile, \<open>run_dynamic_task_demo\<close> comes to its end, having told
  every server to shut down; it gives 0 exactly if all tasks were completed, and then
  the two numbers it reports are equal and positive.
\<close>
lemma demo_wait_result:
  assumes "\<And>ex y. elapsed y < elapsed (snd (others (ex, y)))"
  shows "\<exists>code ex'. demo_wait Q elapsed others (ex, y) = Some (code, ex') \<and> code \<in> {0, 1} \<and>
    (code = 0 \<longleftrightarrow> executor_all_tasks_completed ex') \<and>
    (code = 0 \<longrightarrow> fst (get_completion_stats ex') = snd (get_completion_stats ex') \<and> 0 < fst (get_completion_stats ex')) \<and>
    (\<forall>s \<in> set (ex_servers ex'). lw_done (ls_world s))"
proof -
  let ?Q = "\<lambda>(code :: i32, ex'). code \<in> {0, 1} \<and> (code = 0 \<longleftrightarrow> executor_all_tasks_completed ex') \<and>
    (code = 0 \<longrightarrow> fst (get_completion_stats ex') = snd (get_completion_stats ex') \<and> 0 < fst (get_completion_stats ex')) \<and>
    (\<forall>s \<in> set (ex_servers ex'). lw_done (ls_world s))"
  have "\<exists>r. rust_loop (demo_wait_body Q elapsed others) (ex, y) = Some r \<and> ?Q r"
  proof (rule rust_loop_terminates [where P = "\<lambda>_. True" and m = "\<lambda>(ex, y). 30000000001 - elapsed y"])
    fix p :: "('a, 'b, 'c, 'd) executor \<times> 'e"
    obtain ex y where p: "p = (ex, y)" by fastforce
    have "?Q (0, executor_shutdown Q ex)" if "executor_all_tasks_completed ex"
      using that shutdown_done [of _ Q ex] by (auto simp: executor_all_tasks_completed_def all_tasks_completed_def get_completion_stats_def)
    moreover have "?Q (1, executor_shutdown Q ex)" if "\<not> executor_all_tasks_completed ex"
      using that shutdown_done [of _ Q ex] by (auto simp: executor_all_tasks_completed_def)
    moreover have "(case others (ex, y) of (ex, y) \<Rightarrow> 30000000001 - elapsed y) < 30000000001 - elapsed y"
      if "\<not> elapsed y > 30 * 1000000000"
      using assms [where ex = ex and y = y] that by (cases "others (ex, y)") simp
    ultimately show "(\<exists>r. demo_wait_body Q elapsed others p = Some (Inr r) \<and> ?Q r) \<or>
      (\<exists>p'. demo_wait_body Q elapsed others p = Some (Inl p') \<and> True \<and>
        (case p' of (ex, y) \<Rightarrow> 30000000001 - elapsed y) < (case p of (ex, y) \<Rightarrow> 30000000001 - elapsed y))"
      unfolding p demo_wait_body_def
      by (cases "executor_all_tasks_completed ex"; cases "elapsed y > 30 * 1000000000") simp_all
  qed simp
  then show ?thesis by (auto simp: demo_wait_def)
qed

subsection \<open>Properties\<close>

text \<open>
  C19: Tasks are submitted round robin. From a new executor with \<open>n\<close> servers, submitting
  tasks one after the other never fails as long as they are at most 1024 for each server;
  then server \<open>i\<close> has in its pending queue exactly the submissions whose position is \<open>i\<close>
  modulo \<open>n\<close>, in the order of submission, and the numbers of tasks of two servers differ
  by at most one. The statistics have registered every task.
\<close>
theorem submit_round_robin:
  assumes "array_queue Q items cap" and new: "Executor_new D Q cfg x = Returns ex"
    and n: "n = unat (cfg_server_count cfg)" "0 < n" and ts: "length ts \<le> 1024 * n" "length ts < 2 ^ 64"
  shows "\<exists>ex'. submit_all D Q ts ex = Some (Returns ex') \<and> length (ex_servers ex') = n \<and>
    (\<forall>i < n. items (tq_pending (lw_queue (ls_world (ex_servers ex' ! i)))) = map entry_of (share n i ts) \<and>
       length (share n i ts) = (length ts + n - 1 - i) div n) \<and>
    ex_stats ex' = fold (register_task D) (map sub_task ts) (ex_stats ex)"
proof -
  have ec: "executor_client Q items cap" using assms(1) by (intro executor_client.intro entry_queue.intro)
  from executor_client.new_balanced [OF ec new] have "executor_client.balanced items cap n [] ex" by (simp add: n(1))
  from executor_client.submit_all_balanced [OF ec this n(2)] ts obtain ex' where
    "submit_all D Q ts ex = Some (Returns ex')" "executor_client.balanced items cap n ts ex'"
    "ex_stats ex' = fold (register_task D) (map sub_task ts) (ex_stats ex)" by fastforce
  with length_share [of _ n ts] show ?thesis
    unfolding executor_client.balanced_def [OF ec] executor_client.holds_def [OF ec] by auto
qed

theorem submit_round_robin_witness:
  "\<exists>ex ex'. Executor_new fun_map list_queue \<lparr>cfg_server_count = 2, cfg_worker_count = 3, cfg_start_cpu = 0\<rparr> () = Returns ex \<and>
     submit_all fun_map list_queue (map (\<lambda>i. \<lparr>sub_task = of_nat i, sub_entry = of_nat i, sub_time = 0, sub_fn = i\<rparr>) [10, 11, 12]) ex
       = Some (Returns ex') \<and>
     map te_state (snd (tq_pending (lw_queue (ls_world (ex_servers ex' ! 0))))) = [TS_Pending (10, 10), TS_Pending (12, 12 :: nat)]"
proof -
  let ?cfg = "\<lparr>cfg_server_count = 2, cfg_worker_count = 3, cfg_start_cpu = 0\<rparr>"
  let ?ts = "map (\<lambda>i. \<lparr>sub_task = of_nat i, sub_entry = of_nat i, sub_time = 0, sub_fn = i :: nat\<rparr>) [10, 11, 12]"
  obtain ex :: "(nat \<times> nat wrapped TaskEntry list, nat, unit, _) executor" where
    new: "Executor_new fun_map list_queue ?cfg () = Returns ex" by (simp add: Executor_new_def)
  from submit_round_robin [OF list_queue.array_queue_axioms new, of 2 ?ts] obtain ex' where
    s: "submit_all fun_map list_queue ?ts ex = Some (Returns ex')"
    and q: "snd (tq_pending (lw_queue (ls_world (ex_servers ex' ! 0)))) = map entry_of (share 2 0 ?ts)" by auto
  have "filter (\<lambda>j. j mod 2 = 0) [0..<3] = [0, 2 :: nat]" by (simp add: upt_rec)
  then have "share 2 0 ?ts = [?ts ! 0, ?ts ! 2]" by (simp add: share_def)
  with q have "map te_state (snd (tq_pending (lw_queue (ls_world (ex_servers ex' ! 0))))) = [TS_Pending (10, 10), TS_Pending (12, 12)]"
    by (simp add: entry_of_def TaskEntry_new_def)
  with new s show ?thesis by (intro exI conjI)
qed

text \<open>
  The error paths of \<open>submit\<close>. With no server configured it panics. If the chosen
  server's pending queue is full, the call still returns normally: the task is counted in
  the total, the counter of the round robin has advanced, and every queue is as before,
  so the task is in no queue. If that server's thread holds the lock of its pool, the call
  waits for it.
\<close>
lemma submit_errors:
  assumes "array_queue Q items cap" and "idx = unat (ex_next_server ex mod cfg_server_count (ex_config ex))"
  shows "(cfg_server_count (ex_config ex) = 0 \<longrightarrow> submit D Q task_id u now f ex = Some Panics) \<and>
    (cfg_server_count (ex_config ex) \<noteq> 0 \<and> idx < length (ex_servers ex) \<and> ls_locked (ex_servers ex ! idx) \<longrightarrow>
       submit D Q task_id u now f ex = None) \<and>
    (cfg_server_count (ex_config ex) \<noteq> 0 \<and> idx < length (ex_servers ex) \<and> \<not> ls_locked (ex_servers ex ! idx) \<and>
     cap (tq_pending (lw_queue (ls_world (ex_servers ex ! idx)))) \<le>
       length (items (tq_pending (lw_queue (ls_world (ex_servers ex ! idx))))) \<longrightarrow>
       submit D Q task_id u now f ex = Some (Returns (ex\<lparr>ex_stats := register_task D task_id (ex_stats ex),
         ex_next_server := ex_next_server ex + 1\<rparr>)))"
  using array_queue.push_full [OF assms(1)]
  by (auto simp: submit_def assms(2) Let_def add_task_def enqueue_def TaskEntry_new_def push_or_drop_def)

lemma submit_errors_example:
  "\<exists>ex. Executor_new fun_map list_queue \<lparr>cfg_server_count = 0, cfg_worker_count = 3, cfg_start_cpu = 0\<rparr> () = Returns ex \<and>
     submit fun_map list_queue 1 2 0 (7 :: nat) ex = Some Panics"
proof -
  let ?cfg = "\<lparr>cfg_server_count = 0, cfg_worker_count = 3, cfg_start_cpu = 0\<rparr>"
  obtain ex :: "(nat \<times> nat wrapped TaskEntry list, nat, unit, _) executor" where
    new: "Executor_new fun_map list_queue ?cfg () = Returns ex" by (simp add: Executor_new_def)
  then have "cfg_server_count (ex_config ex) = 0" by (auto simp: Executor_new_def)
  with submit_errors [OF list_queue.array_queue_axioms refl, of ex fun_map 1 2 0 7] new show ?thesis by auto
qed

end
