(* ===== verification/Lib_Demo.thy ===== *)
theory Lib_Demo
  imports Lib_Executor
begin

text \<open>
  The two demos of \<open>src/lib.rs\<close>, \<open>run_dynamic_task_demo\<close> and \<open>run_multi_server_demo\<close>: an
  executor is made and started, tasks that submit a child each are handed to it, and the
  main thread waits. Output is left out.
\<close>

subsection \<open>Tasks\<close>

text \<open>The closures of the demos: an initial task captures its number, its child that of its parent.\<close>

datatype demo_task = Initial nat | Child_of nat

text \<open>
  Outside the sources: map and queue, ids and clock, and what other threads do to the
  executor while the calling thread sleeps; \<open>ld_elapsed\<close> is the time since the start of the
  wait.
\<close>

record ('q, 'x, 'd, 'y) lib_demo_env =
  ld_map :: "('d, task_id, bool) dash_ops"
  ld_queue :: "('q, demo_task wrapped TaskEntry) queue_ops"
  ld_id :: "('q, demo_task, 'x, 'd) executor \<times> 'y \<Rightarrow> task_id"
  ld_uuid :: "('q, demo_task, 'x, 'd) executor \<times> 'y \<Rightarrow> uuid"
  ld_now :: "('q, demo_task, 'x, 'd) executor \<times> 'y \<Rightarrow> nat"
  ld_ready :: "usize \<Rightarrow> usize"
  ld_others :: "('q, demo_task, 'x, 'd) executor \<times> 'y \<Rightarrow> ('q, demo_task, 'x, 'd) executor \<times> 'y"
  ld_elapsed :: "'y \<Rightarrow> nat"

definition demo_submit ::
  "('q, 'x, 'd, 'y) lib_demo_env \<Rightarrow> demo_task \<Rightarrow> ('q, demo_task, 'x, 'd) executor \<times> 'y \<Rightarrow>
   (('q, demo_task, 'x, 'd) executor \<times> 'y) outcome option" where
  "demo_submit E f w =
     map_option (\<lambda>r. case r of Panics \<Rightarrow> Panics | Returns ex \<Rightarrow> Returns (ex, snd w))
       (submit (ld_map E) (ld_queue E) (ld_id E w) (ld_uuid E w) (ld_now E w) f (fst w))"

text \<open>A task sleeps; an initial one then submits its child through its handle, which sleeps again.\<close>

definition exec_demo_task ::
  "('q, 'x, 'd, 'y) lib_demo_env \<Rightarrow> demo_task \<Rightarrow> ('q, demo_task, 'x, 'd) executor \<times> 'y \<Rightarrow>
   (('q, demo_task, 'x, 'd) executor \<times> 'y) outcome option" where
  "exec_demo_task E t w =
     (let w = ld_others E w in
      case t of
        Initial i \<Rightarrow>
          map_option (\<lambda>r. case r of Panics \<Rightarrow> Panics | Returns w \<Rightarrow> Returns (ld_others E w)) (demo_submit E (Child_of i) w)
      | Child_of i \<Rightarrow> Some (Returns w))"

subsection \<open>The demos\<close>

text \<open>The loop that submits the initial tasks; other threads run between two submissions.\<close>

primrec submit_demo_tasks ::
  "('q, 'x, 'd, 'y) lib_demo_env \<Rightarrow> nat list \<Rightarrow> ('q, demo_task, 'x, 'd) executor \<times> 'y \<Rightarrow>
   (('q, demo_task, 'x, 'd) executor \<times> 'y) outcome option" where
  "submit_demo_tasks E [] w = Some (Returns w)"
| "submit_demo_tasks E (i # is) w =
     (case demo_submit E (Initial i) w of
        Some (Returns w') \<Rightarrow> submit_demo_tasks E is (ld_others E w')
      | r \<Rightarrow> r)"

text \<open>From the configuration to the last submission.\<close>

definition start_demo ::
  "('q, 'x, 'd, 'y) lib_demo_env \<Rightarrow> ExecutorConfig \<Rightarrow> nat \<Rightarrow> 'x \<Rightarrow> 'y \<Rightarrow>
   (('q, demo_task, 'x, 'd) executor \<times> 'y) outcome option" where
  "start_demo E cfg n x y =
     (case Executor_new (ld_map E) (ld_queue E) cfg x of
        Panics \<Rightarrow> Some Panics
      | Returns ex \<Rightarrow>
          (case executor_start (ld_ready E) ex of
             None \<Rightarrow> None
           | Some _ \<Rightarrow> submit_demo_tasks E [0..<n] (ld_others E (ex, y))))"

definition run_dynamic_task_demo ::
  "('q, 'x, 'd, 'y) lib_demo_env \<Rightarrow> 'x \<Rightarrow> 'y \<Rightarrow> (i32 \<times> ('q, demo_task, 'x, 'd) executor) outcome option" where
  "run_dynamic_task_demo E x y =
     (case start_demo E \<lparr>cfg_server_count = 1, cfg_worker_count = 3, cfg_start_cpu = 0\<rparr> 6 x y of
        None \<Rightarrow> None
      | Some Panics \<Rightarrow> Some Panics
      | Some (Returns w) \<Rightarrow> map_option Returns (demo_wait (ld_queue E) (ld_elapsed E) (ld_others E) w))"

definition run_multi_server_demo ::
  "('q, 'x, 'd, 'y) lib_demo_env \<Rightarrow> 'x \<Rightarrow> 'y \<Rightarrow> (i32 \<times> ('q, demo_task, 'x, 'd) executor) outcome option" where
  "run_multi_server_demo E x y =
     (case start_demo E \<lparr>cfg_server_count = 3, cfg_worker_count = 3, cfg_start_cpu = 0\<rparr> 9 x y of
        None \<Rightarrow> None
      | Some Panics \<Rightarrow> Some Panics
      | Some (Returns w) \<Rightarrow> Some (Returns (0, fst (ld_others E w))))"

subsection \<open>What the demos rely on\<close>

text \<open>
  The executor has its servers, and the lock of no pool is held when the main thread runs.
\<close>

definition usable :: "nat \<Rightarrow> ('q, demo_task, 'x, 'd) executor \<Rightarrow> bool" where
  "usable n ex \<longleftrightarrow> length (ex_servers ex) = n \<and> unat (cfg_server_count (ex_config ex)) = n \<and>
     (\<forall>s \<in> set (ex_servers ex). \<not> ls_locked s)"

lemma new_usable:
  assumes "Executor_new D Q cfg x = Returns ex"
  shows "usable (unat (cfg_server_count cfg)) ex"
  using assms by (auto simp: Executor_new_def usable_def Server_new_def split: if_splits)

lemma start_returns:
  assumes "of_nat (length (ex_servers ex)) \<le> (others ^^ k) (0 :: usize)"
  shows "\<exists>r. executor_start others ex = Some r"
proof -
  let ?P = "\<lambda>k. of_nat (length (ex_servers ex)) \<le> (others ^^ k) (0 :: usize)"
  have "?P (Least ?P)" using assms by (rule LeastI)
  moreover have "(others ^^ m) 0 < of_nat (length (ex_servers ex))" if "m < Least ?P" for m
    using not_less_Least [OF that] by (simp add: not_le)
  ultimately show ?thesis unfolding start_waits_for_servers by blast
qed

text \<open>
  All \<open>n\<close> server threads count themselves ready; while the main thread sleeps, other threads keep
  the executor usable and the clock advances.
\<close>

locale lib_demo =
  fixes E :: "('q, 'x, 'd, 'y) lib_demo_env" and n :: nat
  assumes ready: "\<exists>k. of_nat n \<le> (ld_ready E ^^ k) 0"
    and others_usable: "usable n ex \<Longrightarrow> usable n (fst (ld_others E (ex, y)))"
    and clock: "ld_elapsed E y < ld_elapsed E (snd (ld_others E (ex, y)))"
begin

lemma demo_submit_usable:
  assumes "usable n (fst w)" and "0 < n"
  shows "\<exists>w'. demo_submit E f w = Some (Returns w') \<and> usable n (fst w')"
proof -
  obtain ex y where w: "w = (ex, y)" by fastforce
  let ?i = "unat (ex_next_server ex mod cfg_server_count (ex_config ex))"
  have i: "?i < length (ex_servers ex)" using assms by (simp add: w usable_def unat_mod)
  with assms have "\<not> ls_locked (ex_servers ex ! ?i)" "cfg_server_count (ex_config ex) \<noteq> 0" by (auto simp: w usable_def)
  with i assms show ?thesis
    by (auto simp: w demo_submit_def submit_def Let_def usable_def dest!: subsetD [OF set_update_subset_insert])
qed

lemma submit_tasks_usable:
  "usable n (fst w) \<Longrightarrow> 0 < n \<Longrightarrow> \<exists>w'. submit_demo_tasks E is w = Some (Returns w') \<and> usable n (fst w')"
proof (induction "is" arbitrary: w)
  case (Cons i "is")
  from demo_submit_usable [OF Cons.prems] obtain ex y where "demo_submit E (Initial i) w = Some (Returns (ex, y))" "usable n ex"
    by fastforce
  with Cons.IH [OF others_usable] Cons.prems(2) show ?case by simp
qed simp

lemma start_demo_usable:
  assumes "unat (cfg_server_count cfg) = n" and "0 < n" and "cfg_start_cpu cfg = 0"
  shows "\<exists>w. start_demo E cfg m x y = Some (Returns w) \<and> usable n (fst w)"
proof -
  have "unat (cfg_server_count cfg) < 2 ^ LENGTH(64)" by (rule unsigned_less)
  then have "n < 2 ^ 64" using assms(1) by simp
  then obtain ex where new: "Executor_new (ld_map E) (ld_queue E) cfg x = Returns ex"
    using assms by (auto simp: Executor_new_def)
  from new_usable [OF new] assms(1) have u: "usable n ex" by simp
  then have "length (ex_servers ex) = n" by (simp add: usable_def)
  with ready obtain r where "executor_start (ld_ready E) ex = Some r" using start_returns by blast
  with submit_tasks_usable [OF others_usable [OF u] assms(2)] new show ?thesis by (auto simp: start_demo_def)
qed

end

subsection \<open>Idle servers\<close>

definition idle_demo :: "(nat \<times> demo_task wrapped TaskEntry list, unit, task_id \<Rightarrow> bool option, nat) lib_demo_env" where
  "idle_demo = \<lparr>ld_map = fun_map, ld_queue = list_queue, ld_id = (\<lambda>w. 1), ld_uuid = (\<lambda>w. 1), ld_now = snd,
     ld_ready = (\<lambda>r. r + 1), ld_others = (\<lambda>(ex, y). (ex, y + 100000000)), ld_elapsed = (\<lambda>y. y)\<rparr>"

interpretation idle_demo1: lib_demo idle_demo 1
proof
  show "\<exists>k. of_nat 1 \<le> (ld_ready idle_demo ^^ k) 0" by (rule exI [of _ 1]) (simp add: idle_demo_def)
qed (simp_all add: idle_demo_def)

interpretation idle_demo3: lib_demo idle_demo 3
proof
  show "\<exists>k. of_nat 3 \<le> (ld_ready idle_demo ^^ k) 0"
    by (rule exI [of _ 3]) (simp add: idle_demo_def numeral_3_eq_3)
qed (simp_all add: idle_demo_def)

text \<open>
  A server that has locked itself out (theory \<open>Lib_Handler\<close>) stops the main thread
  as well: if the pool of the only server stays locked, the demo hangs in its next
  submission.
\<close>
lemma locked_pool_stops_demo:
  assumes "length (ex_servers ex) = 1" and "cfg_server_count (ex_config ex) = 1" and "ls_locked (hd (ex_servers ex))"
  shows "submit_demo_tasks E (i # is) (ex, y) = None"
proof -
  from assms(1) obtain s where "ex_servers ex = [s]" by (auto simp: length_Suc_conv)
  with assms(2,3) show ?thesis by (simp add: demo_submit_def submit_def Let_def)
qed

subsection \<open>Properties\<close>



end
