(* ===== verification/Kernel_Module.thy ===== *)
theory Kernel_Module
  imports Umcg_Base
begin

text \<open>
  The kernel side of \<open>umcg_ctl\<close>: the unikernel module \<open>src/resources/umcg_with_logs.c\<close>, one
  definition per function, on the state of the module.

  A worker holds a pointer \<open>server_event\<close> into the closure of the context switch its server
  is blocked in. These closures are cells with numbers: a cell that has been freed is
  absent, and an access through a pointer that was never set, is null, or leads to a freed
  cell or to a missing worker makes an operation \<open>None\<close>.

  The services of the unikernel show up as follows. \<open>kenv\<close> holds their answers during one
  call: whether a thread exists, whether an allocation succeeds, the clock, whether
  \<open>blockq_wake_one\<close> found a waiter. A call that blocks is entered in \<open>ks_calls\<close>; the
  unikernel calls its action again with flags that say why. A function that runs under the
  module's lock or changes one status by compare-and-swap is one atomic step. Saving and
  restoring the callbacks of a thread and the counting of references are left out.
\<close>

subsection \<open>State\<close>

text \<open>\<open>K_Idle True\<close> is \<open>UMCG_WORKER_IDLE | UMCG_WORKER_TIMEOUT\<close>.\<close>

datatype kstatus = K_Idle bool | K_Runnable | K_Running | K_Paused | K_Blocked | K_Waiting

text \<open>\<open>kw_bq\<close> is the thread on whose queue an event wakes, \<open>kw_timer\<close> an armed timer.\<close>

record kworker =
  kw_id :: u64
  kw_status :: kstatus
  kw_start :: nat
  kw_event :: UmcgEventType
  kw_bq :: "pid_t option"
  kw_slot :: "nat option"
  kw_timer :: bool

text \<open>
  A user pointer to events: \<open>None\<close> is the null pointer, \<open>Some n\<close> a pointer to \<open>n\<close> words that
  can be written. The words are always written in order from the first one.
\<close>

type_synonym ubuf = "nat option"

definition writable :: "ubuf \<Rightarrow> nat \<Rightarrow> bool" where
  "writable events i = (case events of None \<Rightarrow> False | Some n \<Rightarrow> i < n)"

text \<open>
  A blocked call: a worker asleep until a switch to it, a server waiting for one worker or
  for any (with its timeout, 0 for none), a server in a context switch (with its cell).
\<close>

datatype kblock = Sleeping | OnWorker pid_t | OnIdle u64 ubuf u64 | OnSwitch nat ubuf u64

text \<open>
  \<open>ks_slots\<close> are the cells in use, \<open>ks_next\<close> the number of the next one, \<open>ks_ret\<close> the return
  value set for a sleeping thread, \<open>ks_calls\<close> the blocked calls with the words they have
  already written.
\<close>

record kstate =
  ks_workers :: "pid_t \<Rightarrow> kworker option"
  ks_idle :: "pid_t list"
  ks_wake :: bool
  ks_slots :: "nat \<Rightarrow> u64 option"
  ks_next :: nat
  ks_ret :: "pid_t \<Rightarrow> int"
  ks_calls :: "pid_t \<Rightarrow> (kblock \<times> u64 list) option"

record kenv =
  ke_exists :: "pid_t \<Rightarrow> bool"
  ke_mem :: bool
  ke_now :: nat
  ke_woken :: bool

definition kinit :: kstate where
  "kinit = \<lparr>ks_workers = Map.empty, ks_idle = [], ks_wake = False, ks_slots = Map.empty, ks_next = 0,
     ks_ret = (\<lambda>_. 0), ks_calls = Map.empty\<rparr>"

text \<open>The error numbers of the module, returned negated.\<close>

definition K_ESRCH :: int where "K_ESRCH = 3"
definition K_EINTR :: int where "K_EINTR = 4"
definition K_EAGAIN :: int where "K_EAGAIN = 11"
definition K_ENOMEM :: int where "K_ENOMEM = 12"
definition K_EFAULT :: int where "K_EFAULT = 14"
definition K_EINVAL :: int where "K_EINVAL = 22"
definition K_ETIMEDOUT :: int where "K_ETIMEDOUT = 110"
definition K_ERESTARTSYS :: int where "K_ERESTARTSYS = 512"

lemmas kerrno_defs = K_ESRCH_def K_EINTR_def K_EAGAIN_def K_ENOMEM_def K_EFAULT_def K_EINVAL_def
  K_ETIMEDOUT_def K_ERESTARTSYS_def

definition set_worker :: "pid_t \<Rightarrow> kworker \<Rightarrow> kstate \<Rightarrow> kstate" where
  "set_worker t worker st = st\<lparr>ks_workers := (ks_workers st)(t \<mapsto> worker)\<rparr>"

definition set_syscall_return :: "pid_t \<Rightarrow> int \<Rightarrow> kstate \<Rightarrow> kstate" where
  "set_syscall_return t v st = st\<lparr>ks_ret := (ks_ret st)(t := v)\<rparr>"

subsection \<open>Events\<close>

definition event_word :: "kworker \<Rightarrow> UmcgEventType \<Rightarrow> u64" where
  "event_word worker event = kw_id worker OR event_u64 event"

definition umcg_worker_event_idle :: "pid_t \<Rightarrow> kworker \<Rightarrow> UmcgEventType \<Rightarrow> kstate \<Rightarrow> kstate" where
  "umcg_worker_event_idle t worker event st =
     set_worker t (worker\<lparr>kw_event := event\<rparr>) (st\<lparr>ks_idle := ks_idle st @ [t]\<rparr>)"

text \<open>The write through \<open>server_event\<close>, and the use of \<open>server_bq\<close> after it.\<close>

definition umcg_worker_event_to_server :: "kworker \<Rightarrow> UmcgEventType \<Rightarrow> kstate \<Rightarrow> kstate option" where
  "umcg_worker_event_to_server worker event st =
     (case kw_slot worker of
        None \<Rightarrow> None
      | Some c \<Rightarrow>
          if ks_slots st c = None \<or> kw_bq worker = None then None
          else Some (st\<lparr>ks_slots := (ks_slots st)(c \<mapsto> event_word worker event)\<rparr>))"

definition umcg_worker_timeout :: "pid_t \<Rightarrow> kworker \<Rightarrow> kstate \<Rightarrow> kstate" where
  "umcg_worker_timeout t worker st =
     (let worker = worker\<lparr>kw_timer := False\<rparr> in
      if kw_status worker = K_Waiting
      then set_syscall_return t (- K_ETIMEDOUT)
        (umcg_worker_event_idle t (worker\<lparr>kw_status := K_Idle False\<rparr>) Ev_Timeout st)
      else if kw_status worker = K_Idle False
      then set_syscall_return t (- K_ETIMEDOUT) (set_worker t (worker\<lparr>kw_status := K_Idle True\<rparr>) st)
      else set_worker t worker st)"

definition umcg_syscall_pause :: "pid_t \<Rightarrow> kstate \<Rightarrow> kstate option" where
  "umcg_syscall_pause t st =
     (case ks_workers st t of
        None \<Rightarrow> Some st
      | Some worker \<Rightarrow>
          if kw_status worker = K_Paused
          then umcg_worker_event_to_server worker Ev_Block
            (set_worker t (worker\<lparr>kw_status := K_Blocked, kw_bq := None\<rparr>) st)
          else Some st)"

text \<open>\<open>sc\<close>: the thread is inside a system call.\<close>

definition umcg_worker_pause :: "bool \<Rightarrow> pid_t \<Rightarrow> kstate \<Rightarrow> kstate option" where
  "umcg_worker_pause sc t st =
     (if sc
      then map_option (\<lambda>worker. set_worker t (worker\<lparr>kw_status := K_Paused\<rparr>) st) (ks_workers st t)
      else Some st)"

text \<open>\<open>interval\<close> is \<open>UMCG_PREEMPT_INTERVAL\<close>, made of a constant of the unikernel.\<close>

definition umcg_worker_schedule_return :: "nat \<Rightarrow> kenv \<Rightarrow> pid_t \<Rightarrow> kstate \<Rightarrow> kstate option" where
  "umcg_worker_schedule_return interval e t st =
     (case ks_workers st t of
        None \<Rightarrow> None
      | Some worker \<Rightarrow>
          if kw_status worker = K_Blocked
          then Some (umcg_worker_event_idle t (worker\<lparr>kw_status := K_Idle False\<rparr>) Ev_Wake st)
          else if ke_now e \<ge> kw_start worker + interval
          then umcg_worker_event_to_server worker Ev_Preempt (set_worker t (worker\<lparr>kw_status := K_Runnable\<rparr>) st)
          else Some (set_worker t (worker\<lparr>kw_status := K_Running\<rparr>) st))"

subsection \<open>Registration\<close>

text \<open>
  The result of a call: \<open>Some (rv, ws)\<close> is a return with \<open>rv\<close> after writing the words \<open>ws\<close>,
  \<open>None\<close> a call that is blocked now.
\<close>

type_synonym kanswer = "((int \<times> u64 list) option \<times> kstate) option"

definition kreturn :: "int \<Rightarrow> kstate \<Rightarrow> kanswer" where
  "kreturn rv st = Some (Some (rv, []), st)"

definition thread_maybe_sleep_uninterruptible :: "pid_t \<Rightarrow> kstate \<Rightarrow> kanswer" where
  "thread_maybe_sleep_uninterruptible t st = Some (None, st\<lparr>ks_calls := (ks_calls st)(t \<mapsto> (Sleeping, []))\<rparr>)"

definition umcg_register_worker :: "kenv \<Rightarrow> pid_t \<Rightarrow> u64 \<Rightarrow> kstate \<Rightarrow> kanswer" where
  "umcg_register_worker e t worker_id st =
     (if worker_id AND UMCG_WORKER_EVENT_MASK \<noteq> 0 then kreturn (- K_EINVAL) st
      else if \<not> ke_mem e then kreturn (- K_ENOMEM) st
      else if ks_workers st t \<noteq> None then kreturn (- K_EINVAL) st
      else thread_maybe_sleep_uninterruptible t (set_syscall_return t 0
        (umcg_worker_event_idle t \<lparr>kw_id = worker_id, kw_status = K_Idle False, kw_start = 0, kw_event = Ev_Wake,
            kw_bq = None, kw_slot = None, kw_timer = False\<rparr> Ev_Wake st)))"

definition umcg_unregister :: "pid_t \<Rightarrow> kstate \<Rightarrow> kstate option" where
  "umcg_unregister t st =
     (case ks_workers st t of
        None \<Rightarrow> Some st
      | Some worker \<Rightarrow>
          umcg_worker_event_to_server worker Ev_Exit (st\<lparr>ks_workers := (ks_workers st)(t := None)\<rparr>))"

text \<open>A worker thread that ends without unregistering.\<close>

definition umcg_worker_thread_free :: "pid_t \<Rightarrow> kstate \<Rightarrow> kstate option" where
  "umcg_worker_thread_free t st = umcg_unregister t st"

subsection \<open>Reporting events\<close>

text \<open>
  The loop of \<open>umcg_server_get_events\<close>, over the list of idle workers: \<open>k\<close> is the index of
  the next word, \<open>rv\<close> the number of events so far, \<open>sz\<close> the room left. A worker that called
  a switch with a timeout and whose timer has fired takes a second word. A word that
  cannot be written ends the loop.
\<close>

fun get_events_loop ::
  "ubuf \<Rightarrow> nat \<Rightarrow> int \<Rightarrow> nat \<Rightarrow> pid_t list \<Rightarrow> (pid_t \<Rightarrow> kworker option) \<Rightarrow>
   (int \<times> u64 list \<times> nat \<times> pid_t list \<times> (pid_t \<Rightarrow> kworker option)) option" where
  "get_events_loop events k rv sz [] m = Some (rv, [], sz, [], m)"
| "get_events_loop events k rv sz (t # ts) m =
     (if sz \<le> 1 then Some (rv, [], sz, t # ts, m)
      else case m t of
          None \<Rightarrow> None
        | Some worker \<Rightarrow>
            let event = event_word worker (kw_event worker);
                m' = m(t \<mapsto> worker\<lparr>kw_status := K_Runnable\<rparr>)
            in if \<not> writable events k then Some (if rv = 0 then - K_EFAULT else rv, [], sz, t # ts, m)
               else if kw_event worker = Ev_Wait \<and> kw_status worker \<noteq> K_Idle False
               then (if \<not> writable events (k + 1)
                     then Some (if rv + 1 = 1 then - K_EFAULT else rv + 1, [event], sz - 1, t # ts, m)
                     else map_option (\<lambda>(r, ws, rest). (r, event # event_word worker Ev_Timeout # ws, rest))
                       (get_events_loop events (k + 2) (rv + 2) (sz - 2) ts m'))
               else map_option (\<lambda>(r, ws, rest). (r, event # ws, rest))
                 (get_events_loop events (k + 1) (rv + 1) (sz - 1) ts m'))"

text \<open>\<open>k\<close> is the offset of the first word from the pointer the caller passed.\<close>

definition umcg_server_get_events :: "ubuf \<Rightarrow> nat \<Rightarrow> u64 \<Rightarrow> kstate \<Rightarrow> (int \<times> u64 list \<times> kstate) option" where
  "umcg_server_get_events events k event_sz st =
     (case get_events_loop events k 0 (unat event_sz) (ks_idle st) (ks_workers st) of
        None \<Rightarrow> None
      | Some (rv, ws, sz, idle, workers) \<Rightarrow>
          Some (rv, ws @ (if sz > 0 \<and> writable events (k + length ws) then [0] else []),
            st\<lparr>ks_idle := idle, ks_workers := workers\<rparr>))"

subsection \<open>Actions of blocked calls\<close>

datatype bflags = Normal | TimedOut | Nullify

datatype bh_result = Completed int "u64 list" kstate | StillBlocked "u64 list" kstate

definition umcg_server_wait_worker_bh :: "bflags \<Rightarrow> pid_t \<Rightarrow> kstate \<Rightarrow> bh_result option" where
  "umcg_server_wait_worker_bh flags worker st =
     (if flags = Nullify then Some (Completed (- K_ERESTARTSYS) [] st)
      else case ks_workers st worker of
          None \<Rightarrow> None
        | Some w \<Rightarrow> Some (if kw_status w = K_Blocked then StillBlocked [] st else Completed 0 [] st))"

definition umcg_server_wait_bh :: "bflags \<Rightarrow> u64 \<Rightarrow> ubuf \<Rightarrow> u64 \<Rightarrow> kstate \<Rightarrow> bh_result option" where
  "umcg_server_wait_bh flags timeout events event_sz st =
     (if flags = TimedOut then Some (Completed (- K_ETIMEDOUT) [] st)
      else if flags = Nullify then Some (Completed (if timeout \<noteq> 0 then - K_EINTR else - K_ERESTARTSYS) [] st)
      else case umcg_server_get_events events 0 event_sz st of
          None \<Rightarrow> None
        | Some (rv, ws, st') \<Rightarrow>
            Some (if rv = 0 \<and> \<not> ks_wake st' then StillBlocked ws st'
              else Completed (if rv > 0 then 0 else rv) ws (if rv = 0 then st'\<lparr>ks_wake := False\<rparr> else st')))"

text \<open>\<open>closure_finish\<close> frees the cell of the switch.\<close>

definition free_slot :: "nat \<Rightarrow> kstate \<Rightarrow> kstate" where
  "free_slot c st = st\<lparr>ks_slots := (ks_slots st)(c := None)\<rparr>"

definition umcg_server_ctx_switch_bh :: "bflags \<Rightarrow> nat \<Rightarrow> ubuf \<Rightarrow> u64 \<Rightarrow> kstate \<Rightarrow> bh_result option" where
  "umcg_server_ctx_switch_bh flags c events event_sz st =
     (if flags = Nullify then Some (Completed (- K_ERESTARTSYS) [] (free_slot c st))
      else case ks_slots st c of
          None \<Rightarrow> None
        | Some event \<Rightarrow>
            if event = 0 then Some (StillBlocked [] st)
            else if \<not> writable events 0 then Some (Completed (- K_EFAULT) [] (free_slot c st))
            else if event_sz > 1
            then (case umcg_server_get_events events 1 (event_sz - 1) st of
                    None \<Rightarrow> None
                  | Some (rv, ws, st') \<Rightarrow>
                      Some (Completed (if rv > 0 then 0 else rv) (event # ws) (free_slot c st')))
            else Some (Completed 0 [event] (free_slot c st)))"

text \<open>A sleeping worker continues once a switch has made it running.\<close>

definition sleep_bh :: "pid_t \<Rightarrow> kstate \<Rightarrow> bh_result" where
  "sleep_bh t st =
     (case ks_workers st t of
        Some worker \<Rightarrow> if kw_status worker = K_Running then Completed (ks_ret st t) [] st else StillBlocked [] st
      | None \<Rightarrow> StillBlocked [] st)"

definition run_action :: "bflags \<Rightarrow> pid_t \<Rightarrow> kblock \<Rightarrow> kstate \<Rightarrow> bh_result option" where
  "run_action flags t b st =
     (case b of
        Sleeping \<Rightarrow> Some (sleep_bh t st)
      | OnWorker worker \<Rightarrow> umcg_server_wait_worker_bh flags worker st
      | OnIdle timeout events sz \<Rightarrow> umcg_server_wait_bh flags timeout events sz st
      | OnSwitch c events sz \<Rightarrow> umcg_server_ctx_switch_bh flags c events sz st)"

text \<open>Words written by an earlier action of the call stay where a later one wrote nothing.\<close>

definition over :: "u64 list \<Rightarrow> u64 list \<Rightarrow> u64 list" where
  "over ws old = ws @ drop (length ws) old"

text \<open>The unikernel runs the action of the blocked call of thread \<open>t\<close>.\<close>

definition blockq_action :: "bflags \<Rightarrow> pid_t \<Rightarrow> kblock \<Rightarrow> u64 list \<Rightarrow> kstate \<Rightarrow> kanswer" where
  "blockq_action flags t b old st =
     map_option (\<lambda>r. case r of
         Completed rv ws st' \<Rightarrow> (Some (rv, over ws old), st'\<lparr>ks_calls := (ks_calls st')(t := None)\<rparr>)
       | StillBlocked ws st' \<Rightarrow> (None, st'\<lparr>ks_calls := (ks_calls st')(t \<mapsto> (b, over ws old))\<rparr>))
       (run_action flags t b st)"

text \<open>\<open>blockq_check\<close> and \<open>blockq_check_timeout\<close> run the action once before they block.\<close>

definition blockq_check :: "pid_t \<Rightarrow> kblock \<Rightarrow> kstate \<Rightarrow> kanswer" where
  "blockq_check t b st = blockq_action Normal t b [] st"

subsection \<open>The commands\<close>

text \<open>\<open>umcg_wait\<close> of a thread that is not a worker, and of a worker.\<close>

definition umcg_wait :: "kenv \<Rightarrow> pid_t \<Rightarrow> pid_t \<Rightarrow> u64 \<Rightarrow> ubuf \<Rightarrow> u64 \<Rightarrow> kstate \<Rightarrow> kanswer" where
  "umcg_wait e t next_tid abs_timeout events event_sz st =
     (case ks_workers st t of
        None \<Rightarrow>
          if next_tid \<noteq> 0 then
            if abs_timeout \<noteq> 0 \<or> events \<noteq> None \<or> event_sz \<noteq> 0 then kreturn (- K_EINVAL) st
            else if \<not> ke_exists e next_tid then kreturn (- K_ESRCH) st
            else (case ks_workers st next_tid of
                    None \<Rightarrow> kreturn (- K_EINVAL) st
                  | Some next \<Rightarrow>
                      if \<not> ke_mem e then kreturn (- K_ENOMEM) st
                      else blockq_check t (OnWorker next_tid) (set_worker next_tid (next\<lparr>kw_bq := Some t\<rparr>) st))
          else if event_sz < 2 then kreturn (- K_EINVAL) st
          else if abs_timeout = 1 then
            map_option (\<lambda>(rv, ws, st'). (Some (if rv > 0 then 0 else if rv = 0 then - K_ETIMEDOUT else rv, ws), st'))
              (umcg_server_get_events events 0 event_sz st)
          else if \<not> ke_mem e then kreturn (- K_ENOMEM) st
          else blockq_check t (OnIdle abs_timeout events event_sz) st
      | Some worker \<Rightarrow>
          if next_tid \<noteq> 0 \<or> events \<noteq> None \<or> event_sz \<noteq> 0 then kreturn (- K_EINVAL) st
          else Option.bind
            (umcg_worker_event_to_server worker Ev_Wait (set_syscall_return t 0
              (set_worker t (worker\<lparr>kw_status := K_Waiting, kw_timer := kw_timer worker \<or> abs_timeout \<noteq> 0\<rparr>) st)))
            (thread_maybe_sleep_uninterruptible t))"

definition umcg_ctx_switch :: "kenv \<Rightarrow> pid_t \<Rightarrow> pid_t \<Rightarrow> u64 \<Rightarrow> ubuf \<Rightarrow> u64 \<Rightarrow> kstate \<Rightarrow> kanswer" where
  "umcg_ctx_switch e t next_tid abs_timeout events event_sz st =
     (if \<not> ke_exists e next_tid then kreturn (- K_ESRCH) st
      else case ks_workers st next_tid of
          None \<Rightarrow> kreturn (- K_EINVAL) st
        | Some next \<Rightarrow>
            (case ks_workers st t of
               None \<Rightarrow>
                 if abs_timeout \<noteq> 0 \<or> event_sz = 0 then kreturn (- K_EINVAL) st
                 else if \<not> ke_mem e then kreturn (- K_ENOMEM) st
                 else if kw_status next \<noteq> K_Runnable \<and> kw_status next \<noteq> K_Waiting then kreturn (- K_EINVAL) st
                 else let c = ks_next st in
                   blockq_check t (OnSwitch c events event_sz)
                     (set_worker next_tid (next\<lparr>kw_status := K_Running, kw_start := ke_now e, kw_bq := Some t,
                         kw_slot := Some c, kw_timer := False\<rparr>)
                       (st\<lparr>ks_slots := (ks_slots st)(c \<mapsto> 0), ks_next := c + 1\<rparr>))
             | Some worker \<Rightarrow>
                 if kw_status next \<noteq> K_Runnable then kreturn (- K_EINVAL) st
                 else thread_maybe_sleep_uninterruptible t
                   (set_worker next_tid (next\<lparr>kw_status := K_Running, kw_start := ke_now e, kw_bq := kw_bq worker,
                       kw_slot := kw_slot worker, kw_timer := False\<rparr>)
                     (set_syscall_return t 0
                       (umcg_worker_event_idle t
                         (worker\<lparr>kw_status := K_Idle False, kw_timer := kw_timer worker \<or> abs_timeout \<noteq> 0\<rparr>) Ev_Wait st)))))"

text \<open>\<open>event_sz\<close> is an \<open>int\<close> here and a \<open>u64\<close> in the functions it is passed to.\<close>

definition umcg_ctl :: "kenv \<Rightarrow> pid_t \<Rightarrow> u64 \<Rightarrow> u64 \<Rightarrow> pid_t \<Rightarrow> u64 \<Rightarrow> ubuf \<Rightarrow> i32 \<Rightarrow> kstate \<Rightarrow> kanswer" where
  "umcg_ctl e t flags cmd next_tid abs_timeout events event_sz st =
     (if cmd = cmd_u64 Cmd_RegisterWorker then
        if flags \<noteq> 0 \<or> next_tid \<noteq> 0 \<or> events \<noteq> None \<or> event_sz \<noteq> 0 then kreturn (- K_EINVAL) st
        else umcg_register_worker e t abs_timeout st
      else if cmd = cmd_u64 Cmd_RegisterServer then
        if flags \<noteq> 0 \<or> next_tid \<noteq> 0 \<or> abs_timeout \<noteq> 0 \<or> events \<noteq> None \<or> event_sz \<noteq> 0 then kreturn (- K_EINVAL) st
        else kreturn 0 st
      else if cmd = cmd_u64 Cmd_Unregister then
        if flags \<noteq> 0 \<or> next_tid \<noteq> 0 \<or> abs_timeout \<noteq> 0 \<or> events \<noteq> None \<or> event_sz \<noteq> 0 then kreturn (- K_EINVAL) st
        else Option.bind (umcg_unregister t st) (kreturn 0)
      else if cmd = cmd_u64 Cmd_Wake then
        if flags \<noteq> 0 \<or> next_tid \<noteq> 0 \<or> abs_timeout \<noteq> 0 \<or> events \<noteq> None \<or> event_sz \<noteq> 0 then kreturn (- K_EINVAL) st
        else if \<not> ke_woken e then kreturn (- K_EAGAIN) (st\<lparr>ks_wake := False\<rparr>)
        else kreturn 0 (st\<lparr>ks_wake := True\<rparr>)
      else if cmd = cmd_u64 Cmd_Wait then
        if flags AND NOT UMCG_WAIT_FLAG_INTERRUPTED \<noteq> 0 then kreturn (- K_EINVAL) st
        else umcg_wait e t next_tid abs_timeout events (scast event_sz) st
      else if cmd = cmd_u64 Cmd_CtxSwitch then
        if flags \<noteq> 0 then kreturn (- K_EINVAL) st
        else umcg_ctx_switch e t next_tid abs_timeout events (scast event_sz) st
      else kreturn (- K_EINVAL) st)"

subsection \<open>Steps of the module\<close>

text \<open>
  Who can take which step. A thread makes calls while it has no blocked call and, if it is
  a worker, while it is running; it ends in the same situation. The scheduler's hooks are
  called for a worker that has the processor or returns from a blocking call. A wait is
  timed out only if it has a timeout. \<open>interrupts\<close> says whether a signal may end the
  context switch of a server.
\<close>

definition may_call :: "kstate \<Rightarrow> pid_t \<Rightarrow> bool" where
  "may_call st t \<longleftrightarrow> ks_calls st t = None \<and> (\<forall>worker. ks_workers st t = Some worker \<longrightarrow> kw_status worker = K_Running)"

definition may_end :: "bool \<Rightarrow> kblock \<Rightarrow> bflags \<Rightarrow> bool" where
  "may_end interrupts b flags =
     (case flags of
        Normal \<Rightarrow> True
      | TimedOut \<Rightarrow> (case b of OnIdle timeout _ _ \<Rightarrow> timeout \<noteq> 0 | _ \<Rightarrow> False)
      | Nullify \<Rightarrow> (case b of Sleeping \<Rightarrow> False | OnSwitch _ _ _ \<Rightarrow> interrupts | _ \<Rightarrow> True))"

inductive khook :: "bool \<Rightarrow> kstate \<Rightarrow> kstate \<Rightarrow> bool" for interrupts :: bool where
  action: "ks_calls st t = Some (b, old) \<Longrightarrow> may_end interrupts b flags \<Longrightarrow>
    blockq_action flags t b old st = Some (r, st') \<Longrightarrow> khook interrupts st st'"
| pause: "ks_workers st t = Some worker \<Longrightarrow> kw_status worker = K_Running \<Longrightarrow> ks_calls st t = None \<Longrightarrow>
    umcg_worker_pause sc t st = Some st' \<Longrightarrow> khook interrupts st st'"
| syscall_pause: "umcg_syscall_pause t st = Some st' \<Longrightarrow> khook interrupts st st'"
| schedule: "ks_workers st t = Some worker \<Longrightarrow> kw_status worker \<in> {K_Running, K_Paused, K_Blocked} \<Longrightarrow>
    umcg_worker_schedule_return interval e t st = Some st' \<Longrightarrow> khook interrupts st st'"
| timeout: "ks_workers st t = Some worker \<Longrightarrow> kw_timer worker \<Longrightarrow> khook interrupts st (umcg_worker_timeout t worker st)"
| free: "may_call st t \<Longrightarrow> umcg_worker_thread_free t st = Some st' \<Longrightarrow> khook interrupts st st'"

inductive kstep :: "bool \<Rightarrow> kstate \<Rightarrow> kstate \<Rightarrow> bool" for interrupts :: bool where
  call: "may_call st t \<Longrightarrow> umcg_ctl e t flags cmd next_tid abs_timeout events event_sz st = Some (r, st') \<Longrightarrow>
    kstep interrupts st st'"
| hook: "khook interrupts st st' \<Longrightarrow> kstep interrupts st st'"

inductive kreach :: "bool \<Rightarrow> kstate \<Rightarrow> bool" for interrupts :: bool where
  init: "kreach interrupts kinit"
| step: "kreach interrupts st \<Longrightarrow> kstep interrupts st st' \<Longrightarrow> kreach interrupts st'"

end
