(* ===== verification/Kernel_Props.thy ===== *)
theory Kernel_Props
  imports Kernel_Module
begin

text \<open>
  What the kernel module of theory \<open>Kernel_Module\<close> guarantees in every reachable state: the
  list of idle workers, the words it reports, and the pointers of running workers into the
  context switches of their servers.
\<close>

subsection \<open>Reported workers\<close>

text \<open>The workers reported by a call become runnable.\<close>

definition runnable :: "pid_t list \<Rightarrow> (pid_t \<Rightarrow> kworker option) \<Rightarrow> pid_t \<Rightarrow> kworker option" where
  "runnable us m t = (if t \<in> set us then map_option (\<lambda>w. w\<lparr>kw_status := K_Runnable\<rparr>) (m t) else m t)"

lemma runnable_Nil [simp]: "runnable [] m = m"
  by (simp add: runnable_def fun_eq_iff)

lemma runnable_Cons:
  "m t = Some w \<Longrightarrow> t \<notin> set us \<Longrightarrow> runnable us (m(t \<mapsto> w\<lparr>kw_status := K_Runnable\<rparr>)) = runnable (t # us) m"
  by (auto simp: runnable_def fun_eq_iff)

text \<open>Every way the loop can end: it took a prefix of the list and wrote within its bounds.\<close>

lemma get_events_loop_result:
  assumes "get_events_loop events k rv sz ts m = Some (r, ws, sz', ts', m')" and "distinct ts"
  shows "\<exists>us. ts = us @ ts' \<and> m' = runnable us m \<and> length ws + sz' = sz \<and> (ws \<noteq> [] \<longrightarrow> writable events (k + length ws - 1))"
  using assms
proof (induction ts arbitrary: k rv sz m ws)
  case Nil
  then show ?case by simp
next
  case (Cons t ts)
  let ?m = "\<lambda>w. m(t \<mapsto> w\<lparr>kw_status := K_Runnable\<rparr>)"
  show ?case
  proof (cases "sz \<le> 1")
    case True
    with Cons.prems show ?thesis by (intro exI [of _ "[]"]) simp
  next
    case sz: False
    with Cons.prems obtain w where w: "m t = Some w" by (cases "m t") auto
    have more: ?thesis if l: "get_events_loop events (k + length evs) rv' (sz - length evs) ts (?m w) = Some (r, ws1, sz', ts', m')"
      and ws: "ws = evs @ ws1" "evs \<noteq> []" "length evs \<le> sz" "writable events (k + length evs - 1)" for evs rv' ws1
    proof -
      from Cons.prems(2) have "distinct ts" by simp
      from Cons.IH [OF l this] obtain us where us: "ts = us @ ts'" "m' = runnable us (?m w)"
        "length ws1 + sz' = sz - length evs" "ws1 \<noteq> [] \<longrightarrow> writable events (k + length evs + length ws1 - 1)" by blast
      have "runnable us (?m w) = runnable (t # us) m" using w Cons.prems(2) us(1) by (intro runnable_Cons) auto
      with us ws show ?thesis by (intro exI [of _ "t # us"]) (cases ws1; simp add: add.assoc)
    qed
    consider (stop) "\<not> writable events k" | (one) "writable events k" "\<not> (kw_event w = Ev_Wait \<and> kw_status w \<noteq> K_Idle False)"
      | (half) "writable events k" "kw_event w = Ev_Wait" "kw_status w \<noteq> K_Idle False" "\<not> writable events (k + 1)"
      | (two) "writable events k" "kw_event w = Ev_Wait" "kw_status w \<noteq> K_Idle False" "writable events (k + 1)" by blast
    then show ?thesis
    proof cases
      case stop
      with Cons.prems sz w show ?thesis by (intro exI [of _ "[]"]) (simp add: Let_def)
    next
      case half
      with Cons.prems sz w show ?thesis by (intro exI [of _ "[]"]) (auto simp: Let_def)
    next
      case one
      with Cons.prems(1) sz w obtain ws1 where
        "get_events_loop events (k + 1) (rv + 1) (sz - 1) ts (?m w) = Some (r, ws1, sz', ts', m')"
        "ws = [event_word w (kw_event w)] @ ws1" by (auto simp: Let_def split: if_splits)
      then show ?thesis using one(1) sz by (intro more [of "[event_word w (kw_event w)]"]) simp_all
    next
      case two
      with Cons.prems(1) sz w obtain ws1 where
        "get_events_loop events (k + 2) (rv + 2) (sz - 2) ts (?m w) = Some (r, ws1, sz', ts', m')"
        "ws = [event_word w (kw_event w), event_word w Ev_Timeout] @ ws1" by (auto simp: Let_def)
      then show ?thesis using two(4) sz
        by (intro more [of "[event_word w (kw_event w), event_word w Ev_Timeout]" "rv + 2"]) (simp_all add: numeral_2_eq_2)
    qed
  qed
qed

text \<open>It ends whenever every worker of the list exists.\<close>

lemma get_events_loop_defined:
  assumes "\<forall>t \<in> set ts. m t \<noteq> None"
  shows "get_events_loop events k rv sz ts m \<noteq> None"
  using assms
proof (induction ts arbitrary: k rv sz m)
  case (Cons t ts)
  from Cons.prems obtain w where w: "m t = Some w" by auto
  have "get_events_loop events k' rv' sz' ts (m(t \<mapsto> w\<lparr>kw_status := K_Runnable\<rparr>)) \<noteq> None" for k' rv' sz'
    using Cons.prems by (intro Cons.IH) auto
  with w show ?case by (auto simp: Let_def simp del: not_None_eq)
qed simp

lemma get_events_result:
  assumes "umcg_server_get_events events k event_sz st = Some (rv, ws, st')" and "distinct (ks_idle st)"
  obtains us where "ks_idle st = us @ ks_idle st'" "st' = st\<lparr>ks_idle := ks_idle st', ks_workers := runnable us (ks_workers st)\<rparr>"
    "length ws \<le> unat event_sz" "ws \<noteq> [] \<longrightarrow> writable events (k + length ws - 1)"
proof -
  from assms(1) obtain ws1 sz idle m where
    l: "get_events_loop events k 0 (unat event_sz) (ks_idle st) (ks_workers st) = Some (rv, ws1, sz, idle, m)"
    and ws: "ws = ws1 @ (if sz > 0 \<and> writable events (k + length ws1) then [0] else [])"
    and st': "st' = st\<lparr>ks_idle := idle, ks_workers := m\<rparr>"
    by (auto simp: umcg_server_get_events_def split: option.splits)
  from get_events_loop_result [OF l assms(2)] obtain us where us: "ks_idle st = us @ idle" "m = runnable us (ks_workers st)"
    "length ws1 + sz = unat event_sz" "ws1 \<noteq> [] \<longrightarrow> writable events (k + length ws1 - 1)" by blast
  show thesis
  proof (rule that)
    show "ws \<noteq> [] \<longrightarrow> writable events (k + length ws - 1)" using us(4) by (auto simp: ws)
  qed (use us st' ws in auto)
qed

lemma get_events_defined:
  assumes "\<forall>t \<in> set (ks_idle st). ks_workers st t \<noteq> None"
  shows "umcg_server_get_events events k event_sz st \<noteq> None"
  using get_events_loop_defined [OF assms] by (auto simp: umcg_server_get_events_def split: option.splits)

subsection \<open>Invariants\<close>

text \<open>
  The idle workers are registered, idle, and listed once; worker ids leave the bits of the
  event type free; a cell in use was allocated and holds no event yet or one that a
  running worker sends.
\<close>

definition idle_inv :: "kstate \<Rightarrow> bool" where
  "idle_inv st \<longleftrightarrow> distinct (ks_idle st) \<and>
     (\<forall>t \<in> set (ks_idle st). \<exists>w b. ks_workers st t = Some w \<and> kw_status w = K_Idle b)"

definition ids_inv :: "kstate \<Rightarrow> bool" where
  "ids_inv st \<longleftrightarrow> (\<forall>t w. ks_workers st t = Some w \<longrightarrow> kw_id w AND UMCG_WORKER_EVENT_MASK = 0)"

definition own_event :: "u64 \<Rightarrow> bool" where
  "own_event v \<longleftrightarrow> (\<exists>i e. v = i OR event_u64 e \<and> i AND UMCG_WORKER_EVENT_MASK = 0 \<and> e \<in> {Ev_Block, Ev_Wait, Ev_Exit, Ev_Preempt})"

definition slots_inv :: "kstate \<Rightarrow> bool" where
  "slots_inv st \<longleftrightarrow> (\<forall>c v. ks_slots st c = Some v \<longrightarrow> c < ks_next st \<and> (v = 0 \<or> own_event v))"

definition kinv :: "kstate \<Rightarrow> bool" where
  "kinv st \<longleftrightarrow> idle_inv st \<and> ids_inv st \<and> slots_inv st"

text \<open>
  The pointers. A worker is attached to a cell while it runs (or is paused in a system
  call) on behalf of the server blocked there. \<open>live\<close> says of the attached workers \<open>A\<close>
  (with their pointer, and whether they have a queue to wake), of the cells \<open>S\<close> and of
  their owners \<open>Ow\<close>, the servers in a context switch: every attached worker can reach its
  cell, which is still empty; an empty cell has exactly one attached worker, any other cell
  none; and a blocked server owns a cell of its own.
\<close>

definition active :: "kstatus \<Rightarrow> bool" where
  "active s \<longleftrightarrow> s = K_Running \<or> s = K_Paused"

definition attach :: "kworker \<Rightarrow> (nat option \<times> bool) option" where
  "attach w = (if active (kw_status w) then Some (kw_slot w, kw_bq w \<noteq> None) else None)"

definition att :: "kstate \<Rightarrow> pid_t \<Rightarrow> (nat option \<times> bool) option" where
  "att st t = Option.bind (ks_workers st t) attach"

definition own :: "kstate \<Rightarrow> pid_t \<Rightarrow> nat option" where
  "own st t = (case ks_calls st t of Some (OnSwitch c events sz, ws) \<Rightarrow> Some c | _ \<Rightarrow> None)"

definition live :: "(pid_t \<Rightarrow> (nat option \<times> bool) option) \<Rightarrow> (nat \<Rightarrow> u64 option) \<Rightarrow> (pid_t \<Rightarrow> nat option) \<Rightarrow> bool" where
  "live A S Ow \<longleftrightarrow>
     (\<forall>t x. A t = Some x \<longrightarrow> (\<exists>c. x = (Some c, True) \<and> S c = Some 0)) \<and>
     (\<forall>t t' x. A t = Some x \<and> A t' = Some x \<longrightarrow> t = t') \<and>
     (\<forall>c. S c = Some 0 \<longrightarrow> (\<exists>t. A t = Some (Some c, True))) \<and>
     (\<forall>t c. Ow t = Some c \<longrightarrow> S c \<noteq> None) \<and>
     (\<forall>t t' c. Ow t = Some c \<and> Ow t' = Some c \<longrightarrow> t = t')"

definition live_inv :: "kstate \<Rightarrow> bool" where
  "live_inv st \<longleftrightarrow> live (att st) (ks_slots st) (own st)"

lemma liveI:
  assumes "\<And>t x. A t = Some x \<Longrightarrow> \<exists>c. x = (Some c, True) \<and> S c = Some 0" and "\<And>t t' x. A t = Some x \<Longrightarrow> A t' = Some x \<Longrightarrow> t = t'"
    and "\<And>c. S c = Some 0 \<Longrightarrow> \<exists>t. A t = Some (Some c, True)" and "\<And>t c. Ow t = Some c \<Longrightarrow> S c \<noteq> None"
    and "\<And>t t' c. Ow t = Some c \<Longrightarrow> Ow t' = Some c \<Longrightarrow> t = t'"
  shows "live A S Ow"
  using assms unfolding live_def by blast

lemma liveD:
  assumes "live A S Ow"
  shows "A t = Some x \<Longrightarrow> \<exists>c. x = (Some c, True) \<and> S c = Some 0" and "A t = Some x \<Longrightarrow> A t' = Some x \<Longrightarrow> t = t'"
    and "S c = Some 0 \<Longrightarrow> \<exists>t. A t = Some (Some c, True)" and "Ow t = Some c \<Longrightarrow> S c \<noteq> None"
    and "Ow t = Some c \<Longrightarrow> Ow t' = Some c \<Longrightarrow> t = t'"
  using assms unfolding live_def by blast+

text \<open>How the three change: an event is sent, a switch starts, a worker hands over, a cell is freed.\<close>

lemma live_send:
  assumes l: "live A S Ow" and t: "A t = Some (Some c, b)" and v: "v \<noteq> 0"
  shows "live (A(t := None)) (S(c \<mapsto> v)) Ow"
proof (rule liveI)
  have tc: "A t = Some (Some c, True)" using liveD(1) [OF l t] t by simp
  show "\<exists>d. x = (Some d, True) \<and> (S(c \<mapsto> v)) d = Some 0" if "(A(t := None)) u = Some x" for u x
  proof -
    from that have u: "u \<noteq> t" "A u = Some x" by (auto split: if_splits)
    from liveD(1) [OF l u(2)] obtain d where d: "x = (Some d, True)" "S d = Some 0" by blast
    have "d \<noteq> c" using liveD(2) [OF l u(2), of t] tc u(1) d(1) by auto
    with d show ?thesis by auto
  qed
  show "u = u'" if "(A(t := None)) u = Some x" "(A(t := None)) u' = Some x" for u u' x
    using that liveD(2) [OF l, of u x u'] by (auto split: if_splits)
  show "\<exists>u. (A(t := None)) u = Some (Some d, True)" if "(S(c \<mapsto> v)) d = Some 0" for d
  proof -
    from that v have "d \<noteq> c" "S d = Some 0" by (auto split: if_splits)
    from liveD(3) [OF l this(2)] obtain u where u: "A u = Some (Some d, True)" by blast
    with tc \<open>d \<noteq> c\<close> have "u \<noteq> t" by auto
    with u show ?thesis by (intro exI [of _ u]) simp
  qed
  show "(S(c \<mapsto> v)) d \<noteq> None" if "Ow u = Some d" for u d using liveD(4) [OF l that] by simp
  show "u = u'" if "Ow u = Some d" "Ow u' = Some d" for u u' d using l that by (rule liveD(5))
qed

lemma live_start:
  assumes l: "live A S Ow" and c: "S c = None" and t: "A t = None" and u: "Ow u = None"
  shows "live (A(t \<mapsto> (Some c, True))) (S(c \<mapsto> 0)) (Ow(u \<mapsto> c))"
proof (rule liveI)
  have n: "A v \<noteq> Some (Some c, y)" "Ow v \<noteq> Some c" for v y using liveD(1) [OF l, of v] liveD(4) [OF l, of v c] c by auto
  show "\<exists>d. x = (Some d, True) \<and> (S(c \<mapsto> 0)) d = Some 0" if "(A(t \<mapsto> (Some c, True))) v = Some x" for v x
    using that liveD(1) [OF l, of v x] by (auto split: if_splits)
  show "v = v'" if "(A(t \<mapsto> (Some c, True))) v = Some x" "(A(t \<mapsto> (Some c, True))) v' = Some x" for v v' x
    using that n liveD(2) [OF l, of v x v'] by (auto split: if_splits)
  show "\<exists>v. (A(t \<mapsto> (Some c, True))) v = Some (Some d, True)" if "(S(c \<mapsto> 0)) d = Some 0" for d
  proof (cases "d = c")
    case False
    with that liveD(3) [OF l, of d] obtain v where "A v = Some (Some d, True)" by auto
    with t show ?thesis by (intro exI [of _ v]) auto
  qed (auto intro: exI [of _ t])
  show "(S(c \<mapsto> 0)) d \<noteq> None" if "(Ow(u \<mapsto> c)) v = Some d" for v d
    using that liveD(4) [OF l, of v d] by (auto split: if_splits)
  show "v = v'" if "(Ow(u \<mapsto> c)) v = Some d" "(Ow(u \<mapsto> c)) v' = Some d" for v v' d
    using that n liveD(5) [OF l, of v d v'] by (auto split: if_splits)
qed

lemma live_handover:
  assumes l: "live A S Ow" and u: "A u = None" and ne: "t \<noteq> u"
  shows "live (A(t := None, u := A t)) S Ow"
proof (rule liveI)
  let ?A = "A(t := None, u := A t)"
  have old: "A (if y = u then t else y) = Some x \<and> y \<noteq> t" if "?A y = Some x" for x y
    using that ne by (auto split: if_splits)
  show "\<exists>d. x = (Some d, True) \<and> S d = Some 0" if "?A v = Some x" for v x
    by (rule liveD(1) [OF l conjunct1 [OF old [OF that]]])
  show "v = v'" if v: "?A v = Some x" "?A v' = Some x" for v v' x
    using liveD(2) [OF l conjunct1 [OF old [OF v(1)]] conjunct1 [OF old [OF v(2)]]] old [OF v(1)] old [OF v(2)]
    by (simp split: if_splits)
  show "\<exists>v. ?A v = Some (Some d, True)" if "S d = Some 0" for d
  proof -
    from liveD(3) [OF l that] obtain v where v: "A v = Some (Some d, True)" by blast
    show ?thesis
    proof (cases "v = t")
      case True
      with v show ?thesis by (intro exI [of _ u]) simp
    next
      case False
      moreover have "v \<noteq> u" using v u by auto
      ultimately show ?thesis using v by (intro exI [of _ v]) simp
    qed
  qed
  show "S d \<noteq> None" if "Ow v = Some d" for v d using l that by (rule liveD(4))
  show "v = v'" if "Ow v = Some d" "Ow v' = Some d" for v v' d using l that by (rule liveD(5))
qed

lemma live_free:
  assumes l: "live A S Ow" and u: "Ow u = Some c" and c: "S c \<noteq> Some 0"
  shows "live A (S(c := None)) (Ow(u := None))"
proof (rule liveI)
  show "\<exists>d. x = (Some d, True) \<and> (S(c := None)) d = Some 0" if "A v = Some x" for v x
    using liveD(1) [OF l that] c by auto
  show "\<exists>v. A v = Some (Some d, True)" if "(S(c := None)) d = Some 0" for d
    using that liveD(3) [OF l, of d] by (auto split: if_splits)
  show "(S(c := None)) d \<noteq> None" if "(Ow(u := None)) v = Some d" for v d
    using that liveD(4) [OF l, of v d] liveD(5) [OF l u, of v] by (auto split: if_splits)
  show "v = v'" if "(Ow(u := None)) v = Some d" "(Ow(u := None)) v' = Some d" for v v' d
    using that liveD(5) [OF l, of v d v'] by (auto split: if_splits)
  show "v = v'" if "A v = Some x" "A v' = Some x" for v v' x using l that by (rule liveD(2))
qed

lemmas kinv_defs = kinv_def idle_inv_def ids_inv_def slots_inv_def

lemma kinv_idleD: "kinv st \<Longrightarrow> ks_workers st t = Some w \<Longrightarrow> \<forall>b. kw_status w \<noteq> K_Idle b \<Longrightarrow> t \<notin> set (ks_idle st)"
  by (fastforce simp: kinv_defs)

lemma kinv_idD: "kinv st \<Longrightarrow> ks_workers st t = Some w \<Longrightarrow> kw_id w AND 31 = 0"
  by (auto simp: kinv_defs)

lemma kinv_cong:
  "ks_workers st = ks_workers st' \<Longrightarrow> ks_idle st = ks_idle st' \<Longrightarrow> ks_slots st = ks_slots st' \<Longrightarrow> ks_next st = ks_next st' \<Longrightarrow>
     kinv st = kinv st'"
  by (simp add: kinv_defs)

text \<open>Frames: the return value, the wake flag, the table of blocked calls.\<close>

lemma kinv_frames [simp]:
  "kinv (set_syscall_return t v st) = kinv st" "kinv (st\<lparr>ks_wake := x\<rparr>) = kinv st" "kinv (st\<lparr>ks_calls := y\<rparr>) = kinv st"
  by (simp_all add: kinv_defs set_syscall_return_def)

lemma att_simps [simp]:
  "att (set_syscall_return t v st) = att st" "att (st\<lparr>ks_wake := x\<rparr>) = att st" "att (st\<lparr>ks_calls := y\<rparr>) = att st"
  "att (st\<lparr>ks_idle := i\<rparr>) = att st" "att (st\<lparr>ks_slots := z\<rparr>) = att st" "att (st\<lparr>ks_next := n\<rparr>) = att st"
  "att (set_worker t w st) = (att st)(t := attach w)" "att (st\<lparr>ks_workers := (ks_workers st)(t := None)\<rparr>) = (att st)(t := None)"
  by (simp_all add: att_def set_syscall_return_def set_worker_def fun_eq_iff)

lemma own_simps [simp]:
  "own (set_syscall_return t v st) = own st" "own (st\<lparr>ks_wake := x\<rparr>) = own st" "own (st\<lparr>ks_idle := i\<rparr>) = own st"
  "own (st\<lparr>ks_slots := z\<rparr>) = own st" "own (st\<lparr>ks_next := n\<rparr>) = own st" "own (set_worker t w st) = own st"
  "own (st\<lparr>ks_workers := m\<rparr>) = own st" "own (st\<lparr>ks_calls := (ks_calls st)(t := None)\<rparr>) = (own st)(t := None)"
  "own (st\<lparr>ks_calls := (ks_calls st)(t \<mapsto> (OnSwitch c ev sz, ws))\<rparr>) = (own st)(t \<mapsto> c)"
  "own (st\<lparr>ks_calls := (ks_calls st)(t \<mapsto> (Sleeping, ws))\<rparr>) = (own st)(t := None)"
  "own (st\<lparr>ks_calls := (ks_calls st)(t \<mapsto> (OnWorker u, ws))\<rparr>) = (own st)(t := None)"
  "own (st\<lparr>ks_calls := (ks_calls st)(t \<mapsto> (OnIdle to ev sz, ws))\<rparr>) = (own st)(t := None)"
  by (simp_all add: own_def set_syscall_return_def set_worker_def fun_eq_iff)

lemma slots_simps [simp]:
  "ks_slots (set_syscall_return t v st) = ks_slots st" "ks_slots (set_worker t w st) = ks_slots st"
  "ks_next (set_worker t w st) = ks_next st" "ks_next (set_syscall_return t v st) = ks_next st"
  "ks_calls (set_worker t w st) = ks_calls st" "ks_calls (set_syscall_return t v st) = ks_calls st"
  "ks_idle (set_worker t w st) = ks_idle st" "ks_idle (set_syscall_return t v st) = ks_idle st"
  "ks_workers (set_syscall_return t v st) = ks_workers st" "ks_workers (set_worker t w st) = (ks_workers st)(t \<mapsto> w)"
  by (simp_all add: set_syscall_return_def set_worker_def)

lemma event_idle_simps [simp]:
  "att (umcg_worker_event_idle t w ev st) = (att st)(t := attach w)" "own (umcg_worker_event_idle t w ev st) = own st"
  "ks_idle (umcg_worker_event_idle t w ev st) = ks_idle st @ [t]"
  "ks_slots (umcg_worker_event_idle t w ev st) = ks_slots st" "ks_calls (umcg_worker_event_idle t w ev st) = ks_calls st"
  by (simp_all add: umcg_worker_event_idle_def attach_def)

lemma attach_inactive [simp]: "\<not> active (kw_status w) \<Longrightarrow> attach w = None"
  by (simp add: attach_def)

lemma active_simps [simp]: "active K_Running" "active K_Paused" "\<not> active (K_Idle b)" "\<not> active K_Runnable" "\<not> active K_Blocked" "\<not> active K_Waiting"
  by (simp_all add: active_def)

lemma set_worker_kinv:
  assumes "kinv st" and "kw_id w' AND 31 = 0" and "t \<in> set (ks_idle st) \<Longrightarrow> \<exists>b. kw_status w' = K_Idle b"
  shows "kinv (set_worker t w' st)"
  using assms by (auto simp: kinv_defs set_worker_def)

lemma event_idle_kinv:
  assumes "kinv st" and "t \<notin> set (ks_idle st)" and "kw_id w AND 31 = 0" and "kw_status w = K_Idle b"
  shows "kinv (umcg_worker_event_idle t w ev st)"
  using assms by (auto simp: kinv_defs umcg_worker_event_idle_def set_worker_def)

text \<open>The idle workers that a call reports.\<close>

lemma get_events_kinv:
  assumes "umcg_server_get_events events k sz st = Some (rv, ws, st')" and "kinv st"
  shows "kinv st'"
proof -
  from assms(2) have "distinct (ks_idle st)" by (simp add: kinv_defs)
  from get_events_result [OF assms(1) this] obtain us where us: "ks_idle st = us @ ks_idle st'"
    "st' = st\<lparr>ks_idle := ks_idle st', ks_workers := runnable us (ks_workers st)\<rparr>" by blast
  have i: "idle_inv (st\<lparr>ks_idle := i, ks_workers := runnable us (ks_workers st)\<rparr>)" if "ks_idle st = us @ i" for i
    using assms(2) that unfolding kinv_def idle_inv_def by (auto simp: runnable_def disjoint_iff)
  have o: "ids_inv (st\<lparr>ks_idle := i, ks_workers := runnable us (ks_workers st)\<rparr>)"
    "slots_inv (st\<lparr>ks_idle := i, ks_workers := runnable us (ks_workers st)\<rparr>)" for i
    using assms(2) by (auto simp: kinv_def ids_inv_def slots_inv_def runnable_def split: if_splits)
  from i [OF us(1)] o [of "ks_idle st'"] show ?thesis unfolding us(2) [symmetric] kinv_def by blast
qed

lemma get_events_frame:
  assumes "umcg_server_get_events events k sz st = Some (rv, ws, st')"
  shows "ks_slots st' = ks_slots st" "ks_next st' = ks_next st" "ks_calls st' = ks_calls st" "ks_wake st' = ks_wake st"
  using assms by (auto simp: umcg_server_get_events_def split: option.splits)

lemma get_events_att:
  assumes ev: "umcg_server_get_events events k sz st = Some (rv, ws, st')" and "kinv st"
  shows "att st' = att st" "own st' = own st"
proof -
  from assms(2) have idle: "idle_inv st" by (simp add: kinv_def)
  then have "distinct (ks_idle st)" by (simp add: idle_inv_def)
  from get_events_result [OF ev this] obtain us where us: "ks_idle st = us @ ks_idle st'"
    "st' = st\<lparr>ks_idle := ks_idle st', ks_workers := runnable us (ks_workers st)\<rparr>" by blast
  show "att st' = att st"
  proof
    fix t
    have "ks_workers st' t = runnable us (ks_workers st) t" by (subst us(2)) simp
    moreover have "\<exists>v b. ks_workers st t = Some v \<and> kw_status v = K_Idle b" if "t \<in> set us"
      using idle us(1) that by (auto simp: idle_inv_def)
    ultimately show "att st' t = att st t" by (auto simp: runnable_def att_def)
  qed
  show "own st' = own st" using get_events_frame(3) [OF ev] by (simp add: own_def fun_eq_iff)
qed

lemma get_events_live:
  assumes "umcg_server_get_events events k sz st = Some (rv, ws, st')" and "kinv st"
  shows "live_inv st' = live_inv st"
  using get_events_att [OF assms] get_events_frame(1) [OF assms(1)] by (simp add: live_inv_def)

text \<open>An active worker that sends an event reaches its cell, and is attached no longer.\<close>

lemma event_word_neq_0 [simp]: "event_word w ev \<noteq> 0"
  by (simp add: event_word_def or_eq_0_iff)

lemma to_server_Some:
  "umcg_worker_event_to_server w ev st = Some st' \<longleftrightarrow>
     (\<exists>c. kw_slot w = Some c \<and> ks_slots st c \<noteq> None \<and> kw_bq w \<noteq> None \<and>
        st' = st\<lparr>ks_slots := (ks_slots st)(c \<mapsto> event_word w ev)\<rparr>)"
  by (auto simp: umcg_worker_event_to_server_def split: option.splits)

lemma to_server_kinv:
  assumes "umcg_worker_event_to_server w ev st = Some st'" and "kinv st" and "kw_id w AND 31 = 0"
    and "ev \<in> {Ev_Block, Ev_Wait, Ev_Exit, Ev_Preempt}"
  shows "kinv st'"
proof -
  have "own_event (event_word w ev)" using assms(3,4) unfolding own_event_def event_word_def by auto
  moreover from assms(1) obtain c where c: "ks_slots st c \<noteq> None"
    "st' = st\<lparr>ks_slots := (ks_slots st)(c \<mapsto> event_word w ev)\<rparr>" by (auto simp: to_server_Some)
  ultimately have "slots_inv st'" using assms(2) by (fastforce simp: kinv_def slots_inv_def)
  with assms(2) show ?thesis by (simp add: c(2) kinv_def idle_inv_def ids_inv_def)
qed

lemma attachD:
  assumes "live_inv st" and "ks_workers st t = Some w" and "active (kw_status w)"
  obtains c where "att st t = Some (Some c, True)" "kw_slot w = Some c" "ks_slots st c = Some 0" "kw_bq w \<noteq> None"
proof -
  have a: "att st t = Some (kw_slot w, kw_bq w \<noteq> None)" using assms(2,3) by (simp add: att_def attach_def)
  with liveD(1) [OF assms(1) [unfolded live_inv_def] a] show thesis by (auto intro: that)
qed

lemma to_server_live:
  assumes l: "live_inv st" and w: "ks_workers st t = Some w" "active (kw_status w)"
    and st1: "att st1 = (att st)(t := None)" "ks_slots st1 = ks_slots st" "own st1 = own st"
  shows "\<exists>st'. umcg_worker_event_to_server w ev st1 = Some st' \<and> live_inv st'"
proof -
  from attachD [OF l w] obtain c where c: "att st t = Some (Some c, True)" "kw_slot w = Some c" "ks_slots st c = Some 0" "kw_bq w \<noteq> None" .
  then have "live ((att st)(t := None)) ((ks_slots st)(c \<mapsto> event_word w ev)) (own st)"
    using l unfolding live_inv_def by (intro live_send) simp_all
  with c st1 show ?thesis by (auto simp: to_server_Some live_inv_def)
qed

lemma to_server_keeps_live:
  assumes "umcg_worker_event_to_server w ev st1 = Some st'" and "live_inv st" and "ks_workers st t = Some w" and "active (kw_status w)"
    and "att st1 = (att st)(t := None)" "ks_slots st1 = ks_slots st" "own st1 = own st"
  shows "live_inv st'"
  using to_server_live [OF assms(2-), of ev] assms(1) by simp

subsection \<open>Every operation keeps the invariants\<close>

lemma inactive_att: "ks_workers st t = Some w \<Longrightarrow> \<not> active (kw_status w) \<Longrightarrow> (att st)(t := None) = att st"
  by (auto simp: att_def fun_eq_iff)

lemma absent_att: "ks_workers st t = None \<Longrightarrow> (att st)(t := None) = att st"
  by (auto simp: att_def fun_eq_iff)

lemma no_call_own: "ks_calls st t = None \<Longrightarrow> (own st)(t := None) = own st"
  by (auto simp: own_def fun_eq_iff)

lemma timeout_keeps:
  assumes "ks_workers st t = Some w" and "kinv st"
  shows "kinv (umcg_worker_timeout t w st)" and "live_inv st \<Longrightarrow> live_inv (umcg_worker_timeout t w st)"
proof -
  note id = kinv_idD [OF assms(2,1)]
  have idle: "t \<in> set (ks_idle st) \<Longrightarrow> \<exists>b. kw_status w = K_Idle b" using assms by (fastforce simp: kinv_defs)
  have a: "(att st)(t := attach w) = att st" using assms(1) by (simp add: att_def fun_eq_iff)
  show "kinv (umcg_worker_timeout t w st)"
    using assms(2) id idle by (auto simp: umcg_worker_timeout_def Let_def intro!: event_idle_kinv set_worker_kinv)
  show "live_inv (umcg_worker_timeout t w st)" if "live_inv st"
    using that a by (auto simp: umcg_worker_timeout_def Let_def live_inv_def attach_def)
qed

lemma syscall_pause_keeps:
  assumes "umcg_syscall_pause t st = Some st'" and "kinv st"
  shows "kinv st'" and "live_inv st \<Longrightarrow> live_inv st'"
proof -
  have "kinv st' \<and> (live_inv st \<longrightarrow> live_inv st')"
  proof (cases "ks_workers st t")
    case None
    with assms show ?thesis by (simp add: umcg_syscall_pause_def)
  next
    case (Some w)
    show ?thesis
    proof (cases "kw_status w = K_Paused")
      case True
      let ?st = "set_worker t (w\<lparr>kw_status := K_Blocked, kw_bq := None\<rparr>) st"
      from assms(1) Some True have e: "umcg_worker_event_to_server w Ev_Block ?st = Some st'" by (simp add: umcg_syscall_pause_def)
      note id = kinv_idD [OF assms(2) Some]
      have "kinv ?st" using assms(2) id kinv_idleD [OF assms(2) Some] True by (intro set_worker_kinv) auto
      from to_server_kinv [OF e this id] to_server_keeps_live [OF e _ Some] True show ?thesis by simp
    qed (use assms Some in \<open>simp add: umcg_syscall_pause_def\<close>)
  qed
  then show "kinv st'" "live_inv st \<Longrightarrow> live_inv st'" by simp_all
qed

lemma pause_keeps:
  assumes "umcg_worker_pause sc t st = Some st'" and w: "ks_workers st t = Some w" "kw_status w = K_Running" and k: "kinv st"
  shows "kinv st'" and "live_inv st \<Longrightarrow> live_inv st'"
proof -
  have st': "st' = (if sc then set_worker t (w\<lparr>kw_status := K_Paused\<rparr>) st else st)"
    using assms(1) w(1) by (simp add: umcg_worker_pause_def split: if_splits)
  show "kinv st'" using k kinv_idD [OF k w(1)] kinv_idleD [OF k w(1)] w(2) by (auto simp: st' intro!: set_worker_kinv)
  have "(att st)(t := attach (w\<lparr>kw_status := K_Paused\<rparr>)) = att st" using w by (simp add: att_def attach_def fun_eq_iff)
  then show "live_inv st'" if "live_inv st" using that by (simp add: st' live_inv_def)
qed

lemma schedule_keeps:
  assumes "umcg_worker_schedule_return interval e t st = Some st'" and w: "ks_workers st t = Some w"
    and s: "kw_status w \<in> {K_Running, K_Paused, K_Blocked}" and k: "kinv st"
  shows "kinv st'" and "live_inv st \<Longrightarrow> live_inv st'"
proof -
  note id = kinv_idD [OF k w] and idle = kinv_idleD [OF k w]
  have "kinv st' \<and> (live_inv st \<longrightarrow> live_inv st')"
  proof (cases "kw_status w = K_Blocked")
    case True
    then have "st' = umcg_worker_event_idle t (w\<lparr>kw_status := K_Idle False\<rparr>) Ev_Wake st"
      using assms(1) w by (simp add: umcg_worker_schedule_return_def)
    with True k id idle inactive_att [OF w] show ?thesis by (auto simp: live_inv_def intro!: event_idle_kinv)
  next
    case False
    with s have act: "active (kw_status w)" and ni: "\<forall>b. kw_status w \<noteq> K_Idle b" by auto
    show ?thesis
    proof (cases "ke_now e \<ge> kw_start w + interval")
      case True
      with False assms(1) w have ev: "umcg_worker_event_to_server w Ev_Preempt (set_worker t (w\<lparr>kw_status := K_Runnable\<rparr>) st) = Some st'"
        by (simp add: umcg_worker_schedule_return_def)
      have "kinv (set_worker t (w\<lparr>kw_status := K_Runnable\<rparr>) st)" using k id idle ni by (intro set_worker_kinv) auto
      from to_server_kinv [OF ev this id] to_server_keeps_live [OF ev _ w act] show ?thesis by simp
    next
      case late: False
      with False assms(1) w have st': "st' = set_worker t (w\<lparr>kw_status := K_Running\<rparr>) st"
        by (simp add: umcg_worker_schedule_return_def)
      have "(att st)(t := attach (w\<lparr>kw_status := K_Running\<rparr>)) = att st" using w act by (simp add: att_def attach_def fun_eq_iff)
      moreover have "kinv st'" unfolding st' using k id idle ni by (intro set_worker_kinv) auto
      ultimately show ?thesis by (simp add: st' live_inv_def)
    qed
  qed
  then show "kinv st'" "live_inv st \<Longrightarrow> live_inv st'" by simp_all
qed

lemma remove_worker_kinv:
  assumes "kinv st" and "t \<notin> set (ks_idle st)"
  shows "kinv (st\<lparr>ks_workers := (ks_workers st)(t := None)\<rparr>)"
  using assms by (auto simp: kinv_defs)

lemma unregister_keeps:
  assumes "umcg_unregister t st = Some st'" and "may_call st t" and k: "kinv st"
  shows "kinv st'" and "live_inv st \<Longrightarrow> live_inv st'"
proof -
  have "kinv st' \<and> (live_inv st \<longrightarrow> live_inv st')"
  proof (cases "ks_workers st t")
    case None
    with assms show ?thesis by (simp add: umcg_unregister_def)
  next
    case (Some w)
    let ?st = "st\<lparr>ks_workers := (ks_workers st)(t := None)\<rparr>"
    from assms(2) Some have r: "kw_status w = K_Running" by (simp add: may_call_def)
    from assms(1) Some have ev: "umcg_worker_event_to_server w Ev_Exit ?st = Some st'" by (simp add: umcg_unregister_def)
    have "kinv ?st" using k kinv_idleD [OF k Some] r by (intro remove_worker_kinv) auto
    from to_server_kinv [OF ev this kinv_idD [OF k Some]] to_server_keeps_live [OF ev _ Some] r show ?thesis by simp
  qed
  then show "kinv st'" "live_inv st \<Longrightarrow> live_inv st'" by simp_all
qed

lemma sleep_keeps:
  assumes "thread_maybe_sleep_uninterruptible t st = Some (r, st')" and "ks_calls st t = None"
  shows "kinv st' = kinv st" and "live_inv st' = live_inv st"
  using assms no_call_own [OF assms(2)] by (auto simp: thread_maybe_sleep_uninterruptible_def live_inv_def)

lemma register_keeps:
  assumes "umcg_register_worker e t i st = Some (r, st')" and "ks_calls st t = None" and k: "kinv st"
  shows "kinv st'" and "live_inv st \<Longrightarrow> live_inv st'"
proof -
  let ?w = "\<lparr>kw_id = i, kw_status = K_Idle False, kw_start = 0, kw_event = Ev_Wake, kw_bq = None, kw_slot = None, kw_timer = False\<rparr>"
  let ?st = "set_syscall_return t 0 (umcg_worker_event_idle t ?w Ev_Wake st)"
  consider "st' = st" | "i AND 31 = 0" "ks_workers st t = None" "thread_maybe_sleep_uninterruptible t ?st = Some (r, st')"
    using assms(1) by (auto simp: umcg_register_worker_def kreturn_def split: if_splits)
  then have "kinv st' \<and> (live_inv st \<longrightarrow> live_inv st')"
  proof cases
    case 2
    have "t \<notin> set (ks_idle st)" using k 2(2) by (fastforce simp: kinv_defs)
    then have "kinv ?st" using k 2(1) by (simp add: event_idle_kinv)
    moreover have "live_inv ?st = live_inv st" using absent_att [OF 2(2)] by (simp add: live_inv_def attach_def)
    ultimately show ?thesis using sleep_keeps [OF 2(3)] assms(2) by simp
  qed (use k in simp)
  then show "kinv st'" "live_inv st \<Longrightarrow> live_inv st'" by simp_all
qed

lemma free_slot_simps [simp]:
  "kinv st \<Longrightarrow> kinv (free_slot c st)" "att (free_slot c st) = att st" "own (free_slot c st) = own st"
  "ks_slots (free_slot c st) = (ks_slots st)(c := None)" "ks_calls (free_slot c st) = ks_calls st"
  by (auto simp: free_slot_def kinv_defs split: if_splits)

text \<open>
  The action of a blocked call. One that completes a context switch frees its cell: a cell
  that holds an event, or any cell if the switch was interrupted.
\<close>

definition bh_state :: "bh_result \<Rightarrow> kstate" where
  "bh_state r = (case r of Completed rv ws st \<Rightarrow> st | StillBlocked ws st \<Rightarrow> st)"

lemma run_action_kinv: "run_action flags t b st = Some r \<Longrightarrow> kinv st \<Longrightarrow> kinv (bh_state r)"
  by (auto simp: run_action_def bh_state_def sleep_bh_def umcg_server_wait_worker_bh_def umcg_server_wait_bh_def
      umcg_server_ctx_switch_bh_def Let_def dest: get_events_kinv split: kblock.splits option.splits if_splits)

lemma run_action_other:
  assumes "run_action flags t b st = Some r" and "\<forall>c ev sz. b \<noteq> OnSwitch c ev sz" and "kinv st"
  shows "att (bh_state r) = att st \<and> own (bh_state r) = own st \<and> ks_slots (bh_state r) = ks_slots st"
  using assms
  by (auto simp: run_action_def bh_state_def sleep_bh_def umcg_server_wait_worker_bh_def umcg_server_wait_bh_def
      get_events_att get_events_frame split: kblock.splits option.splits if_splits)

lemma run_action_switch:
  assumes "run_action flags t (OnSwitch c ev sz) st = Some r" and "flags \<noteq> Nullify" and "kinv st"
  shows "att (bh_state r) = att st \<and> own (bh_state r) = own st \<and>
    (case r of StillBlocked ws st' \<Rightarrow> ks_slots st' = ks_slots st
     | Completed rv ws st' \<Rightarrow> ks_slots st c \<noteq> Some 0 \<and> ks_slots st' = (ks_slots st)(c := None))"
  using assms
  by (auto simp: run_action_def bh_state_def umcg_server_ctx_switch_bh_def get_events_att get_events_frame
      split: option.splits if_splits)

lemma action_cases:
  assumes "blockq_action flags t b old st = Some (r, st')"
  obtains (finished) rv ws st1 where "run_action flags t b st = Some (Completed rv ws st1)" "r = Some (rv, over ws old)"
      "st' = st1\<lparr>ks_calls := (ks_calls st1)(t := None)\<rparr>"
    | (blocked) ws st1 where "run_action flags t b st = Some (StillBlocked ws st1)" "r = None"
      "st' = st1\<lparr>ks_calls := (ks_calls st1)(t \<mapsto> (b, over ws old))\<rparr>"
proof -
  from assms obtain x where x: "run_action flags t b st = Some x" by (auto simp: blockq_action_def)
  show thesis
  proof (cases x)
    case (Completed rv ws st1)
    with x assms show thesis by (intro finished) (auto simp: blockq_action_def)
  next
    case (StillBlocked ws st1)
    with x assms show thesis by (intro blocked) (auto simp: blockq_action_def)
  qed
qed

lemma action_kinv:
  assumes "blockq_action flags t b old st = Some (r, st')" and "kinv st"
  shows "kinv st'"
  using assms(1)
proof (cases rule: action_cases)
  case (finished rv ws st1)
  with run_action_kinv [OF finished(1) assms(2)] show ?thesis by (simp add: bh_state_def)
next
  case (blocked ws st1)
  with run_action_kinv [OF blocked(1) assms(2)] show ?thesis by (simp add: bh_state_def)
qed

text \<open>For a switch the thread owns its cell before the action, or is about to (first action).\<close>

lemma action_live:
  assumes a: "blockq_action flags t b old st = Some (r, st')" and k: "kinv st"
    and b: "\<And>c ev sz. b = OnSwitch c ev sz \<Longrightarrow> flags \<noteq> Nullify"
    and l: "live (att st) (ks_slots st) ((own st)(t := (case b of OnSwitch c ev sz \<Rightarrow> Some c | _ \<Rightarrow> None)))"
  shows "live_inv st'"
proof -
  from a obtain x where x: "run_action flags t b st = Some x" and
    st': "st' = (case x of Completed rv ws st1 \<Rightarrow> st1\<lparr>ks_calls := (ks_calls st1)(t := None)\<rparr>
      | StillBlocked ws st1 \<Rightarrow> st1\<lparr>ks_calls := (ks_calls st1)(t \<mapsto> (b, over ws old))\<rparr>)"
    by (cases rule: action_cases) auto
  show ?thesis
  proof (cases "\<exists>c ev sz. b = OnSwitch c ev sz")
    case True
    then obtain c ev sz where b': "b = OnSwitch c ev sz" by blast
    note r = run_action_switch [OF x [unfolded b'] b [OF b'] k]
    show ?thesis
    proof (cases x)
      case (Completed rv ws st1)
      have "live (att st) ((ks_slots st)(c := None)) (((own st)(t \<mapsto> c))(t := None))"
        using l r Completed by (intro live_free) (simp_all add: b')
      with r show ?thesis by (simp add: st' Completed live_inv_def bh_state_def)
    next
      case (StillBlocked ws st1)
      with r l show ?thesis by (simp add: st' live_inv_def bh_state_def b')
    qed
  next
    case False
    with run_action_other [OF x _ k] l show ?thesis
      by (cases b; cases x) (auto simp: st' live_inv_def bh_state_def)
  qed
qed

lemma check_keeps:
  assumes "blockq_check t b st = Some (r, st')" and "kinv st" and "ks_calls st t = None"
  shows "kinv st'" and "\<forall>c ev sz. b \<noteq> OnSwitch c ev sz \<Longrightarrow> live_inv st \<Longrightarrow> live_inv st'"
proof -
  note a = assms(1) [unfolded blockq_check_def]
  show "kinv st'" by (rule action_kinv [OF a assms(2)])
  show "live_inv st'" if b: "\<forall>c ev sz. b \<noteq> OnSwitch c ev sz" and "live_inv st"
    using that no_call_own [OF assms(3)] by (intro action_live [OF a assms(2)]) (auto simp: live_inv_def split: kblock.splits)
qed

lemma wait_keeps:
  assumes "umcg_wait e t nt to events sz st = Some (r, st')" and m: "may_call st t" and k: "kinv st"
  shows "kinv st'" and "live_inv st \<Longrightarrow> live_inv st'"
proof -
  have c: "ks_calls st t = None" using m by (simp add: may_call_def)
  have "kinv st' \<and> (live_inv st \<longrightarrow> live_inv st')"
  proof (cases "ks_workers st t")
    case None
    consider (same) "st' = st"
      | (worker) nx where "ks_workers st nt = Some nx"
          "blockq_check t (OnWorker nt) (set_worker nt (nx\<lparr>kw_bq := Some t\<rparr>) st) = Some (r, st')"
      | (poll) rv ws where "umcg_server_get_events events 0 sz st = Some (rv, ws, st')"
      | (idle) "blockq_check t (OnIdle to events sz) st = Some (r, st')"
      using assms(1) None by (auto simp: umcg_wait_def kreturn_def split: option.splits if_splits)
    then show ?thesis
    proof cases
      case worker
      let ?st = "set_worker nt (nx\<lparr>kw_bq := Some t\<rparr>) st"
      have "\<And>b. nt \<in> set (ks_idle st) \<Longrightarrow> \<exists>b. kw_status nx = K_Idle b" using k worker(1) by (fastforce simp: kinv_defs)
      then have "kinv ?st" using k kinv_idD [OF k worker(1)] by (intro set_worker_kinv) auto
      moreover have "live_inv ?st" if "live_inv st"
      proof -
        have "(att st)(nt := attach (nx\<lparr>kw_bq := Some t\<rparr>)) = att st"
          using worker(1) attachD [OF that worker(1)] by (fastforce simp: att_def attach_def fun_eq_iff)
        with that show ?thesis by (simp add: live_inv_def)
      qed
      ultimately show ?thesis using check_keeps [OF worker(2)] c by simp
    next
      case poll
      with k show ?thesis using get_events_kinv get_events_live by blast
    next
      case idle
      with check_keeps [OF idle k c] show ?thesis by simp
    qed (use k in simp)
  next
    case (Some w)
    let ?w = "w\<lparr>kw_status := K_Waiting, kw_timer := kw_timer w \<or> to \<noteq> 0\<rparr>"
    let ?st = "set_syscall_return t 0 (set_worker t ?w st)"
    from m Some have run: "kw_status w = K_Running" by (simp add: may_call_def)
    consider "st' = st" | st1 where "umcg_worker_event_to_server w Ev_Wait ?st = Some st1"
        "thread_maybe_sleep_uninterruptible t st1 = Some (r, st')"
      using assms(1) Some by (auto simp: umcg_wait_def kreturn_def bind_eq_Some_conv split: if_splits)
    then show ?thesis
    proof cases
      case 2
      have "kinv (set_worker t ?w st)" using k kinv_idD [OF k Some] kinv_idleD [OF k Some] run
        by (intro set_worker_kinv) simp_all
      then have "kinv ?st" by simp
      moreover have "ks_calls st1 t = None" using 2(1) c by (auto simp: to_server_Some)
      ultimately show ?thesis
        using sleep_keeps [OF 2(2)] to_server_kinv [OF 2(1) _ kinv_idD [OF k Some]] to_server_keeps_live [OF 2(1) _ Some] run by simp
    qed (use k in simp)
  qed
  then show "kinv st'" "live_inv st \<Longrightarrow> live_inv st'" by simp_all
qed

text \<open>The two forms of a context switch: a server starts a worker, a worker hands over to another.\<close>

lemma server_switch_keeps:
  assumes chk: "blockq_check t (OnSwitch (ks_next st) events sz)
      (set_worker nt (nx\<lparr>kw_status := K_Running, kw_start := n, kw_bq := Some t, kw_slot := Some (ks_next st), kw_timer := False\<rparr>)
        (st\<lparr>ks_slots := (ks_slots st)(ks_next st \<mapsto> 0), ks_next := ks_next st + 1\<rparr>)) = Some (r, st')"
    and c: "ks_calls st t = None" and nx: "ks_workers st nt = Some nx" "kw_status nx = K_Runnable \<or> kw_status nx = K_Waiting"
    and k: "kinv st"
  shows "kinv st'" and "live_inv st \<Longrightarrow> live_inv st'"
proof -
  let ?w = "nx\<lparr>kw_status := K_Running, kw_start := n, kw_bq := Some t, kw_slot := Some (ks_next st), kw_timer := False\<rparr>"
  let ?st = "set_worker nt ?w (st\<lparr>ks_slots := (ks_slots st)(ks_next st \<mapsto> 0), ks_next := ks_next st + 1\<rparr>)"
  have fresh: "ks_slots st (ks_next st) = None"
  proof (cases "ks_slots st (ks_next st)")
    case (Some v)
    with k have "ks_next st < ks_next st" unfolding kinv_def slots_inv_def by blast
    then show ?thesis by simp
  qed
  have "kinv (st\<lparr>ks_slots := (ks_slots st)(ks_next st \<mapsto> 0), ks_next := ks_next st + 1\<rparr>)"
    using k by (auto simp: kinv_defs less_Suc_eq split: if_splits)
  then have k1: "kinv ?st" using kinv_idD [OF k nx(1)] kinv_idleD [OF k nx(1)] nx(2) by (intro set_worker_kinv) auto
  show "kinv st'" using check_keeps(1) [OF chk k1] c by simp
  assume l: "live_inv st"
  have "att st nt = None" "own st t = None" using nx c by (auto simp: att_def attach_def own_def)
  with l fresh have "live ((att st)(nt \<mapsto> (Some (ks_next st), True))) ((ks_slots st)(ks_next st \<mapsto> 0)) ((own st)(t \<mapsto> ks_next st))"
    unfolding live_inv_def by (intro live_start) simp_all
  then show "live_inv st'"
    by (intro action_live [OF chk [unfolded blockq_check_def] k1]) (simp_all add: attach_def)
qed

lemma worker_switch_keeps:
  assumes slp: "thread_maybe_sleep_uninterruptible t
      (set_worker nt (nx\<lparr>kw_status := K_Running, kw_start := n, kw_bq := kw_bq w, kw_slot := kw_slot w, kw_timer := False\<rparr>)
        (set_syscall_return t 0 (umcg_worker_event_idle t (w\<lparr>kw_status := K_Idle False, kw_timer := tm\<rparr>) Ev_Wait st))) = Some (r, st')"
    and c: "ks_calls st t = None" and nx: "ks_workers st nt = Some nx" "kw_status nx = K_Runnable"
    and w: "ks_workers st t = Some w" "kw_status w = K_Running" and k: "kinv st"
  shows "kinv st'" and "live_inv st \<Longrightarrow> live_inv st'"
proof -
  let ?st = "set_worker nt (nx\<lparr>kw_status := K_Running, kw_start := n, kw_bq := kw_bq w, kw_slot := kw_slot w, kw_timer := False\<rparr>)
    (set_syscall_return t 0 (umcg_worker_event_idle t (w\<lparr>kw_status := K_Idle False, kw_timer := tm\<rparr>) Ev_Wait st))"
  have ne: "t \<noteq> nt" using nx w by auto
  have "t \<notin> set (ks_idle st)" "nt \<notin> set (ks_idle st)" using kinv_idleD [OF k w(1)] kinv_idleD [OF k nx(1)] w(2) nx(2) by auto
  then have "kinv ?st" using k kinv_idD [OF k w(1)] kinv_idD [OF k nx(1)] ne
    by (intro set_worker_kinv) (simp_all add: event_idle_kinv)
  moreover have "ks_calls ?st t = None" using c by simp
  moreover have "live_inv ?st" if "live_inv st"
  proof -
    have n: "att st nt = None" using nx by (simp add: att_def)
    have a: "att st t = Some (kw_slot w, kw_bq w \<noteq> None)" using w by (simp add: att_def attach_def)
    have "live ((att st)(t := None, nt := att st t)) (ks_slots st) (own st)"
      using that n ne unfolding live_inv_def by (intro live_handover) simp_all
    then show ?thesis by (simp add: live_inv_def attach_def a)
  qed
  ultimately show "kinv st'" "live_inv st \<Longrightarrow> live_inv st'" using sleep_keeps [OF slp] by simp_all
qed

lemma ctx_switch_keeps:
  assumes "umcg_ctx_switch e t nt to events sz st = Some (r, st')" and m: "may_call st t" and k: "kinv st"
  shows "kinv st'" and "live_inv st \<Longrightarrow> live_inv st'"
proof -
  have c: "ks_calls st t = None" and run: "\<And>w. ks_workers st t = Some w \<Longrightarrow> kw_status w = K_Running"
    using m by (simp_all add: may_call_def)
  have "kinv st' \<and> (live_inv st \<longrightarrow> live_inv st')"
  proof (cases "ks_workers st nt")
    case None
    with assms(1) k show ?thesis by (auto simp: umcg_ctx_switch_def kreturn_def split: if_splits)
  next
    case nx: (Some nx)
    show ?thesis
    proof (cases "ks_workers st t")
      case None
      have "st' = st \<or> (kw_status nx = K_Runnable \<or> kw_status nx = K_Waiting) \<and>
        blockq_check t (OnSwitch (ks_next st) events sz)
          (set_worker nt (nx\<lparr>kw_status := K_Running, kw_start := ke_now e, kw_bq := Some t, kw_slot := Some (ks_next st), kw_timer := False\<rparr>)
            (st\<lparr>ks_slots := (ks_slots st)(ks_next st \<mapsto> 0), ks_next := ks_next st + 1\<rparr>)) = Some (r, st')"
        using assms(1) nx None by (auto simp: umcg_ctx_switch_def kreturn_def Let_def split: if_splits)
      then show ?thesis using server_switch_keeps [OF _ c nx _ k] k by blast
    next
      case (Some w)
      have "st' = st \<or> kw_status nx = K_Runnable \<and> thread_maybe_sleep_uninterruptible t
        (set_worker nt (nx\<lparr>kw_status := K_Running, kw_start := ke_now e, kw_bq := kw_bq w, kw_slot := kw_slot w, kw_timer := False\<rparr>)
          (set_syscall_return t 0 (umcg_worker_event_idle t
            (w\<lparr>kw_status := K_Idle False, kw_timer := kw_timer w \<or> to \<noteq> 0\<rparr>) Ev_Wait st))) = Some (r, st')"
        using assms(1) nx Some by (auto simp: umcg_ctx_switch_def kreturn_def split: if_splits)
      then show ?thesis using worker_switch_keeps [OF _ c nx _ Some run [OF Some] k] k by blast
    qed
  qed
  then show "kinv st'" "live_inv st \<Longrightarrow> live_inv st'" by simp_all
qed

lemma ctl_keeps:
  assumes "umcg_ctl e t flags cmd nt to events sz st = Some (r, st')" and m: "may_call st t" and k: "kinv st"
  shows "kinv st'" and "live_inv st \<Longrightarrow> live_inv st'"
proof -
  have c: "ks_calls st t = None" using m by (simp add: may_call_def)
  consider "st' = st" | x where "st' = st\<lparr>ks_wake := x\<rparr>" | "umcg_register_worker e t to st = Some (r, st')"
    | "umcg_unregister t st = Some st'" | "umcg_wait e t nt to events (scast sz) st = Some (r, st')"
    | "umcg_ctx_switch e t nt to events (scast sz) st = Some (r, st')"
    using assms(1) by (auto simp: umcg_ctl_def kreturn_def bind_eq_Some_conv split: if_splits)
  then have "kinv st' \<and> (live_inv st \<longrightarrow> live_inv st')"
  proof cases
    case 3
    from register_keeps [OF this c k] show ?thesis by blast
  next
    case 4
    from unregister_keeps [OF this m k] show ?thesis by blast
  next
    case 5
    from wait_keeps [OF this m k] show ?thesis by blast
  next
    case 6
    from ctx_switch_keeps [OF this m k] show ?thesis by blast
  qed (use k in \<open>auto simp: live_inv_def\<close>)
  then show "kinv st'" "live_inv st \<Longrightarrow> live_inv st'" by simp_all
qed

subsection \<open>Reachable states\<close>

lemma khook_kinv: "khook i st st' \<Longrightarrow> kinv st \<Longrightarrow> kinv st'"
  by (induction rule: khook.induct)
    (auto simp: umcg_worker_thread_free_def
      dest: action_kinv pause_keeps(1) syscall_pause_keeps(1) schedule_keeps(1) unregister_keeps(1) intro: timeout_keeps(1))

lemma khook_live:
  assumes "khook False st st'" and "kinv st" and "live_inv st"
  shows "live_inv st'"
  using assms
proof (induction rule: khook.induct)
  case (action st t b old flags r st')
  have "(own st)(t := (case b of OnSwitch c ev sz \<Rightarrow> Some c | _ \<Rightarrow> None)) = own st"
    using action(1) by (auto simp: own_def fun_eq_iff split: kblock.splits)
  with action show ?case
    by (intro action_live [OF action(3)]) (auto simp: live_inv_def may_end_def)
next
  case (pause st t worker sc st')
  then show ?case using pause_keeps(2) by blast
next
  case (schedule st t worker interval e st')
  then show ?case using schedule_keeps(2) by blast
qed (auto simp: umcg_worker_thread_free_def intro: syscall_pause_keeps(2) unregister_keeps(2) timeout_keeps(2))

lemma kstep_kinv: "kstep i st st' \<Longrightarrow> kinv st \<Longrightarrow> kinv st'"
  by (induction rule: kstep.induct) (auto dest: ctl_keeps(1) khook_kinv)

lemma kstep_live: "kstep False st st' \<Longrightarrow> kinv st \<Longrightarrow> live_inv st \<Longrightarrow> live_inv st'"
  by (induction rule: kstep.induct) (auto dest: ctl_keeps(2) khook_live)

lemma kreach_kinv: "kreach i st \<Longrightarrow> kinv st"
proof (induction rule: kreach.induct)
  case init
  show ?case by (simp add: kinit_def kinv_defs)
next
  case (step st st')
  then show ?case using kstep_kinv by blast
qed

lemma kreach_live: "kreach False st \<Longrightarrow> live_inv st"
proof (induction rule: kreach.induct)
  case init
  show ?case by (auto simp: kinit_def live_inv_def live_def att_def own_def)
next
  case (step st st')
  then show ?case using kstep_live kreach_kinv by blast
qed

end
