(* ===== verification/Kernel_Safety.thy ===== *)
theory Kernel_Safety
  imports Kernel_Props
begin

text \<open>
  The properties of the kernel module: the words it writes to user memory, the events a
  context switch reports, and the accesses through the pointers of its workers.
\<close>

subsection \<open>Words in user memory\<close>

text \<open>Words that fit a buffer of \<open>sz\<close> words at \<open>events\<close>; those of a blocked call so far.\<close>

definition fits :: "ubuf \<Rightarrow> u64 \<Rightarrow> u64 list \<Rightarrow> bool" where
  "fits events sz ws \<longleftrightarrow> length ws \<le> unat sz \<and> (ws \<noteq> [] \<longrightarrow> writable events (length ws - 1))"

definition words_ok :: "kblock \<Rightarrow> u64 list \<Rightarrow> bool" where
  "words_ok b ws = (case b of OnIdle timeout events sz \<Rightarrow> fits events sz ws | OnSwitch c events sz \<Rightarrow> ws = [] \<and> sz \<noteq> 0 | _ \<Rightarrow> ws = [])"

definition words_inv :: "kstate \<Rightarrow> bool" where
  "words_inv st \<longleftrightarrow> (\<forall>t b ws. ks_calls st t = Some (b, ws) \<longrightarrow> words_ok b ws)"

definition answer_fits :: "kblock \<Rightarrow> u64 list \<Rightarrow> bool" where
  "answer_fits b ws = (case b of OnIdle timeout events sz \<Rightarrow> fits events sz ws | OnSwitch c events sz \<Rightarrow> fits events sz ws | _ \<Rightarrow> ws = [])"

lemma fits_Nil [simp]: "fits events sz []"
  by (simp add: fits_def)

lemma over_Nil [simp]: "over [] old = old" "over ws [] = ws"
  by (simp_all add: over_def)

lemma fits_over: "fits events sz ws \<Longrightarrow> fits events sz old \<Longrightarrow> fits events sz (over ws old)"
  by (cases "length ws < length old") (auto simp: fits_def over_def)

lemma get_events_fits:
  assumes "umcg_server_get_events events 0 sz st = Some (rv, ws, st')" and "kinv st"
  shows "fits events sz ws"
  using get_events_result [OF assms(1)] assms(2) by (force simp: fits_def kinv_defs)

lemma get_events_fits_next:
  assumes "umcg_server_get_events events 1 (sz - 1) st = Some (rv, ws, st')" and "kinv st" and "writable events 0" and "1 < sz"
  shows "fits events sz (v # ws)"
proof -
  have "distinct (ks_idle st)" using assms(2) by (simp add: kinv_defs)
  with assms(1) obtain "length ws \<le> unat (sz - 1)" "ws \<noteq> [] \<longrightarrow> writable events (1 + length ws - 1)"
    by (rule get_events_result)
  moreover have "unat (sz - 1) = unat sz - 1" "1 < unat sz"
    using assms(4) by (simp_all add: unat_sub word_less_nat_alt word_le_nat_alt)
  ultimately show ?thesis using assms(3) by (cases ws) (auto simp: fits_def)
qed

lemma run_action_words:
  assumes "run_action flags t b st = Some x" and "kinv st" and "words_ok b old"
  shows "ks_calls (bh_state x) = ks_calls st \<and>
    (case x of Completed rv ws st1 \<Rightarrow> answer_fits b (over ws old) | StillBlocked ws st1 \<Rightarrow> words_ok b (over ws old))"
proof (cases b)
  case Sleeping
  with assms show ?thesis by (auto simp: run_action_def sleep_bh_def bh_state_def words_ok_def answer_fits_def split: option.splits)
next
  case (OnWorker w)
  with assms show ?thesis
    by (auto simp: run_action_def umcg_server_wait_worker_bh_def bh_state_def words_ok_def answer_fits_def split: option.splits if_splits)
next
  case (OnIdle timeout events sz)
  with assms show ?thesis
    by (auto simp: run_action_def umcg_server_wait_bh_def bh_state_def words_ok_def answer_fits_def get_events_frame
        intro!: fits_over dest: get_events_fits split: option.splits if_splits)
next
  case (OnSwitch c events sz)
  have "0 < unat sz" using assms(3) OnSwitch by (simp add: words_ok_def unat_gt_0)
  with OnSwitch assms show ?thesis
    by (auto simp: run_action_def umcg_server_ctx_switch_bh_def bh_state_def words_ok_def answer_fits_def get_events_frame
        fits_def [of events sz "[_]"] intro: get_events_fits_next [unfolded One_nat_def] split: option.splits if_splits)
qed

lemma action_words:
  assumes "blockq_action flags t b old st = Some (r, st')" and "kinv st" and "words_ok b old" and "words_inv st"
  shows "words_inv st'" and "r = Some (rv, ws) \<Longrightarrow> answer_fits b ws"
proof -
  have "words_inv st' \<and> (\<forall>rv ws. r = Some (rv, ws) \<longrightarrow> answer_fits b ws)"
    using assms(1)
  proof (cases rule: action_cases)
    case (finished rv ws st1)
    with run_action_words [OF finished(1) assms(2,3)] assms(4) show ?thesis by (auto simp: words_inv_def bh_state_def)
  next
    case (blocked ws st1)
    with run_action_words [OF blocked(1) assms(2,3)] assms(4) show ?thesis by (auto simp: words_inv_def bh_state_def)
  qed
  then show "words_inv st'" "r = Some (rv, ws) \<Longrightarrow> answer_fits b ws" by blast+
qed

lemma words_inv_cong: "ks_calls st' = ks_calls st \<Longrightarrow> words_inv st \<Longrightarrow> words_inv st'"
  by (simp add: words_inv_def)

lemma sleep_words:
  "thread_maybe_sleep_uninterruptible t st = Some (r, st') \<Longrightarrow> words_inv st \<Longrightarrow> words_inv st' \<and> r = None"
  by (auto simp: thread_maybe_sleep_uninterruptible_def words_inv_def words_ok_def split: if_splits)

lemma to_server_calls: "umcg_worker_event_to_server w ev st = Some st' \<Longrightarrow> ks_calls st' = ks_calls st"
  by (auto simp: to_server_Some)

lemma unregister_calls: "umcg_unregister t st = Some st' \<Longrightarrow> ks_calls st' = ks_calls st"
  by (auto simp: umcg_unregister_def dest!: to_server_calls split: option.splits)

lemma wait_words:
  assumes "umcg_wait e t nt to events sz st = Some (r, st')" and "kinv st" and "words_inv st"
  shows "words_inv st' \<and> (\<forall>rv ws. r = Some (rv, ws) \<longrightarrow> fits events sz ws)"
proof (cases "ks_workers st t")
  case None
  consider (same) "st' = st" "\<forall>rv ws. r = Some (rv, ws) \<longrightarrow> ws = []"
    | (worker) nx where "ks_workers st nt = Some nx"
        "blockq_action Normal t (OnWorker nt) [] (set_worker nt (nx\<lparr>kw_bq := Some t\<rparr>) st) = Some (r, st')"
    | (poll) rv rv' ws where "umcg_server_get_events events 0 sz st = Some (rv, ws, st')" "r = Some (rv', ws)"
    | (idle) "blockq_action Normal t (OnIdle to events sz) [] st = Some (r, st')"
    using assms(1) None by (auto simp: umcg_wait_def kreturn_def blockq_check_def split: option.splits if_splits)
  then show ?thesis
  proof cases
    case same
    with assms show ?thesis by auto
  next
    case worker
    have "\<And>b. nt \<in> set (ks_idle st) \<Longrightarrow> \<exists>b. kw_status nx = K_Idle b" using assms(2) worker(1) by (fastforce simp: kinv_defs)
    then have "kinv (set_worker nt (nx\<lparr>kw_bq := Some t\<rparr>) st)"
      using assms(2) kinv_idD [OF assms(2) worker(1)] by (intro set_worker_kinv) auto
    moreover have "words_inv (set_worker nt (nx\<lparr>kw_bq := Some t\<rparr>) st)" using assms(3) by (simp add: words_inv_def)
    ultimately show ?thesis using action_words [OF worker(2)] by (fastforce simp: words_ok_def answer_fits_def)
  next
    case poll
    with assms get_events_fits [OF poll(1)] get_events_frame(3) [OF poll(1)] show ?thesis by (simp add: words_inv_def)
  next
    case idle
    with action_words [OF idle assms(2) _ assms(3)] show ?thesis by (simp add: words_ok_def answer_fits_def)
  qed
next
  case (Some w)
  have "st' = st \<and> (\<forall>rv ws. r = Some (rv, ws) \<longrightarrow> ws = []) \<or>
    (\<exists>st1. ks_calls st1 = ks_calls st \<and> thread_maybe_sleep_uninterruptible t st1 = Some (r, st'))"
    using assms(1) Some by (auto simp: umcg_wait_def kreturn_def bind_eq_Some_conv dest: to_server_calls split: if_splits)
  then show ?thesis
  proof
    assume "\<exists>st1. ks_calls st1 = ks_calls st \<and> thread_maybe_sleep_uninterruptible t st1 = Some (r, st')"
    then obtain st1 where "ks_calls st1 = ks_calls st" "thread_maybe_sleep_uninterruptible t st1 = Some (r, st')" by blast
    with sleep_words [OF this(2)] words_inv_cong [OF this(1) assms(3)] show ?thesis by simp
  qed (use assms(3) in auto)
qed

text \<open>A context switch of a server always blocks at first: its cell is still empty.\<close>

lemma switch_blocks:
  "ks_slots st c = Some 0 \<Longrightarrow>
     blockq_check t (OnSwitch c events sz) st = Some (None, st\<lparr>ks_calls := (ks_calls st)(t \<mapsto> (OnSwitch c events sz, []))\<rparr>)"
  by (simp add: blockq_check_def blockq_action_def run_action_def umcg_server_ctx_switch_bh_def)

lemma ctx_switch_words:
  assumes "umcg_ctx_switch e t nt to events sz st = Some (r, st')" and "words_inv st"
  shows "words_inv st' \<and> (\<forall>rv ws. r = Some (rv, ws) \<longrightarrow> ws = [])"
  using assms
  by (auto simp: umcg_ctx_switch_def kreturn_def Let_def switch_blocks words_inv_def words_ok_def thread_maybe_sleep_uninterruptible_def
      split: option.splits if_splits)

lemma ctl_words:
  assumes "umcg_ctl e t flags cmd nt to events sz st = Some (r, st')" and "kinv st" and "words_inv st"
  shows "words_inv st'" and "r = Some (rv, ws) \<Longrightarrow> fits events (scast sz) ws"
proof -
  consider (same) "ks_calls st' = ks_calls st" "\<forall>rv ws. r = Some (rv, ws) \<longrightarrow> ws = []"
    | (register) "umcg_register_worker e t to st = Some (r, st')"
    | (wait) "umcg_wait e t nt to events (scast sz) st = Some (r, st')"
    | (switch) "umcg_ctx_switch e t nt to events (scast sz) st = Some (r, st')"
    using assms(1) by (auto simp: umcg_ctl_def kreturn_def bind_eq_Some_conv dest: unregister_calls split: if_splits)
  then have "words_inv st' \<and> (\<forall>rv ws. r = Some (rv, ws) \<longrightarrow> fits events (scast sz) ws)"
  proof cases
    case same
    with words_inv_cong [OF same(1) assms(3)] show ?thesis by auto
  next
    case register
    with assms(3) show ?thesis
      by (auto simp: umcg_register_worker_def kreturn_def words_inv_def words_ok_def thread_maybe_sleep_uninterruptible_def
          split: if_splits)
  next
    case wait
    from wait_words [OF wait assms(2,3)] show ?thesis .
  next
    case switch
    from ctx_switch_words [OF switch assms(3)] show ?thesis by auto
  qed
  then show "words_inv st'" "r = Some (rv, ws) \<Longrightarrow> fits events (scast sz) ws" by blast+
qed

lemma timeout_calls [simp]: "ks_calls (umcg_worker_timeout t w st) = ks_calls st"
  by (simp add: umcg_worker_timeout_def Let_def)

lemma khook_words:
  assumes "khook i st st'" and "kinv st" and "words_inv st"
  shows "words_inv st'"
  using assms
proof (induction rule: khook.induct)
  case (action st t b old flags r st')
  then have "words_ok b old" by (simp add: words_inv_def)
  with action show ?case using action_words(1) by blast
next
  case (pause st t worker sc st')
  then have "ks_calls st' = ks_calls st" by (auto simp: umcg_worker_pause_def split: if_splits)
  with pause show ?case using words_inv_cong by blast
next
  case (syscall_pause t st st')
  then have "ks_calls st' = ks_calls st"
    by (auto simp: umcg_syscall_pause_def dest: to_server_calls split: option.splits if_splits)
  with syscall_pause show ?case using words_inv_cong by blast
next
  case (schedule st t worker interval e st')
  then have "ks_calls st' = ks_calls st"
    by (auto simp: umcg_worker_schedule_return_def dest: to_server_calls split: if_splits)
  with schedule show ?case using words_inv_cong by blast
next
  case (timeout st t worker)
  then show ?case using words_inv_cong [of "umcg_worker_timeout t worker st" st] by simp
next
  case (free st t st')
  then show ?case using words_inv_cong unregister_calls unfolding umcg_worker_thread_free_def by blast
qed

lemma kstep_words: "kstep i st st' \<Longrightarrow> kinv st \<Longrightarrow> words_inv st \<Longrightarrow> words_inv st'"
  by (induction rule: kstep.induct) (auto dest: ctl_words(1) khook_words)

lemma kreach_words: "kreach i st \<Longrightarrow> words_inv st"
proof (induction rule: kreach.induct)
  case init
  show ?case by (simp add: kinit_def words_inv_def)
next
  case (step st st')
  then show ?case using kstep_words kreach_kinv by blast
qed

subsection \<open>No call leads through a dead pointer\<close>

lemma check_defined:
  assumes "kinv st" and "\<And>w. b = OnWorker w \<Longrightarrow> ks_workers st w \<noteq> None" and "\<And>c ev sz. b = OnSwitch c ev sz \<Longrightarrow> ks_slots st c \<noteq> None"
  shows "blockq_action flags t b old st \<noteq> None"
proof -
  have "umcg_server_get_events events k sz st \<noteq> None" for events k sz
    using assms(1) by (intro get_events_defined) (auto simp: kinv_defs)
  then have "run_action flags t b st \<noteq> None"
    using assms(2,3) by (auto simp: run_action_def umcg_server_wait_worker_bh_def umcg_server_wait_bh_def
        umcg_server_ctx_switch_bh_def split: kblock.splits option.splits simp del: not_None_eq)
  then show ?thesis by (simp add: blockq_action_def)
qed

lemma ctl_defined:
  assumes k: "kinv st" and l: "live_inv st" and m: "may_call st t"
  shows "umcg_ctl e t flags cmd nt to events sz st \<noteq> None" and "umcg_unregister t st \<noteq> None"
proof -
  have sv: "umcg_worker_event_to_server w ev st1 \<noteq> None"
    if "ks_workers st t = Some w" "att st1 = (att st)(t := None)" "ks_slots st1 = ks_slots st" "own st1 = own st" for w ev st1
    using to_server_live [OF l that(1) _ that(2-4), of ev] m that(1) by (auto simp: may_call_def)
  show un: "umcg_unregister t st \<noteq> None"
    using sv by (auto simp: umcg_unregister_def split: option.splits simp del: not_None_eq)
  have ge: "umcg_server_get_events ev' k' sz' st \<noteq> None" for ev' k' sz'
    using k by (intro get_events_defined) (auto simp: kinv_defs)
  have wk: "blockq_check t (OnWorker nt) (set_worker nt w st) \<noteq> None" for w
    by (simp add: blockq_check_def blockq_action_def run_action_def umcg_server_wait_worker_bh_def)
  have id: "blockq_check t (OnIdle to events sz') st \<noteq> None" for sz'
    unfolding blockq_check_def using k by (intro check_defined) simp_all
  have sw: "ks_slots st1 c = Some 0 \<Longrightarrow> blockq_check t (OnSwitch c events sz') st1 \<noteq> None" for c sz' st1
    by (simp add: switch_blocks)
  have wt: "umcg_wait e t nt to events sz' st \<noteq> None" for sz'
    unfolding umcg_wait_def using wk id ge sv
    by (auto simp: kreturn_def thread_maybe_sleep_uninterruptible_def bind_eq_None_conv split: option.splits simp del: not_None_eq)
  have cs: "umcg_ctx_switch e t nt to events sz' st \<noteq> None" for sz'
    unfolding umcg_ctx_switch_def using sw
    by (auto simp: kreturn_def thread_maybe_sleep_uninterruptible_def Let_def split: option.splits simp del: not_None_eq)
  have rg: "umcg_register_worker e t to st \<noteq> None"
    by (simp add: umcg_register_worker_def kreturn_def thread_maybe_sleep_uninterruptible_def)
  show "umcg_ctl e t flags cmd nt to events sz st \<noteq> None"
    unfolding umcg_ctl_def using wt cs rg un by (auto simp: kreturn_def bind_eq_None_conv simp del: not_None_eq)
qed

text \<open>What is attached to the cell of a blocked server.\<close>

definition runs_for :: "kstate \<Rightarrow> nat \<Rightarrow> pid_t \<Rightarrow> bool" where
  "runs_for st c t \<longleftrightarrow> (\<exists>w. ks_workers st t = Some w \<and> kw_status w \<in> {K_Running, K_Paused} \<and> kw_slot w = Some c)"

lemma runs_for_att: "live_inv st \<Longrightarrow> runs_for st c t \<longleftrightarrow> att st t = Some (Some c, True)"
proof
  assume l: "live_inv st" and "runs_for st c t"
  then obtain w where w: "ks_workers st t = Some w" "active (kw_status w)" "kw_slot w = Some c" by (auto simp: runs_for_def)
  from attachD [OF l w(1,2)] w(3) show "att st t = Some (Some c, True)" by auto
next
  assume "att st t = Some (Some c, True)"
  then show "runs_for st c t" by (auto simp: runs_for_def att_def attach_def active_def bind_eq_Some_conv split: if_splits)
qed

lemma own_call: "ks_calls st s = Some (OnSwitch c events sz, ws) \<Longrightarrow> own st s = Some c"
  by (simp add: own_def)

lemma empty_cell_runs:
  assumes "live_inv st" and "ks_slots st c = Some 0"
  shows "\<exists>!t. runs_for st c t"
proof -
  note l = assms(1) [unfolded live_inv_def]
  from liveD(3) [OF l assms(2)] obtain t where t: "att st t = Some (Some c, True)" by blast
  show ?thesis unfolding runs_for_att [OF assms(1)]
  proof (rule ex1I [of _ t])
    show "att st t = Some (Some c, True)" by (rule t)
    show "u = t" if "att st u = Some (Some c, True)" for u using l that t by (rule liveD(2))
  qed
qed

lemma own_event_type:
  assumes "own_event v"
  shows "v \<noteq> 0" and "event_type v \<in> event_u64 ` {Ev_Block, Ev_Wait, Ev_Exit, Ev_Preempt}"
proof -
  from assms obtain i e where v: "v = i OR event_u64 e" "i AND 31 = 0" "e \<in> {Ev_Block, Ev_Wait, Ev_Exit, Ev_Preempt}"
    by (auto simp: own_event_def)
  have "event_type v = event_u64 e" unfolding event_type_def v(1) event_mask_31 by (simp only: bit.conj_disj_distrib2 v(2) event_u64_low) simp
  with v(3) show "event_type v \<in> event_u64 ` {Ev_Block, Ev_Wait, Ev_Exit, Ev_Preempt}" by blast
  show "v \<noteq> 0" by (simp add: v(1) or_eq_0_iff)
qed

text \<open>The answer of a context switch with a buffer of two words.\<close>

lemma switch_event:
  assumes "kreach i st" and "ks_calls st t = Some (OnSwitch c events 2, old)" and "writable events 1"
    and "blockq_action bf t (OnSwitch c events 2) old st = Some (Some (rv, ws), st')"
  shows "rv < 0 \<and> ws = [] \<or> rv = 0 \<and> (\<exists>v. ws = [v, 0] \<and> own_event v \<and> ks_slots st c = Some v)"
proof -
  note k = kreach_kinv [OF assms(1)]
  from kreach_words [OF assms(1)] assms(2) have "words_ok (OnSwitch c events 2) old" unfolding words_inv_def by blast
  then have old: "old = []" by (simp add: words_ok_def)
  have w0: "writable events 0" using assms(3) by (auto simp: writable_def split: option.splits)
  have "get_events_loop events 1 0 1 ts m = Some (0, [], 1, ts, m)" for ts m by (cases ts) simp_all
  then have ge: "umcg_server_get_events events 1 1 st = Some (0, [0], st)"
    using assms(3) by (simp add: umcg_server_get_events_def)
  have "own_event v" if "ks_slots st c = Some v" "v \<noteq> 0" for v using k that by (auto simp: kinv_defs)
  with assms(4) show ?thesis
    by (cases rule: action_cases)
      (auto simp: run_action_def umcg_server_ctx_switch_bh_def old w0 ge [unfolded One_nat_def] K_ERESTARTSYS_def split: if_splits option.splits)
qed

subsection \<open>A run\<close>

text \<open>
  Worker 4 registers, server 9 learns of it, switches to it and is blocked in the switch;
  the worker then runs.
\<close>

definition kenv0 :: kenv where
  "kenv0 = \<lparr>ke_exists = (\<lambda>_. True), ke_mem = True, ke_now = 0, ke_woken = False\<rparr>"

definition kworker4 :: kworker where
  "kworker4 = \<lparr>kw_id = 128, kw_status = K_Idle False, kw_start = 0, kw_event = Ev_Wake, kw_bq = None, kw_slot = None, kw_timer = False\<rparr>"

definition kst1 :: kstate where
  "kst1 = kinit\<lparr>ks_workers := [4 \<mapsto> kworker4], ks_idle := [4], ks_ret := (ks_ret kinit)(4 := 0), ks_calls := [4 \<mapsto> (Sleeping, [])]\<rparr>"

definition kst2 :: kstate where
  "kst2 = kst1\<lparr>ks_idle := [], ks_workers := [4 \<mapsto> kworker4\<lparr>kw_status := K_Runnable\<rparr>], ks_calls := (ks_calls kst1)(9 := None)\<rparr>"

definition kst3 :: kstate where
  "kst3 = kst2\<lparr>ks_workers := [4 \<mapsto> kworker4\<lparr>kw_status := K_Running, kw_bq := Some 9, kw_slot := Some 0\<rparr>], ks_slots := [0 \<mapsto> 0], ks_next := 1,
     ks_calls := (ks_calls kst2)(9 \<mapsto> (OnSwitch 0 (Some 2) 2, []))\<rparr>"

definition kst4 :: kstate where
  "kst4 = kst3\<lparr>ks_calls := (ks_calls kst3)(4 := None)\<rparr>"

lemmas kst_defs = kst1_def kst2_def kst3_def kst4_def kinit_def kworker4_def kenv0_def

lemma run_register: "umcg_ctl kenv0 4 0 1 0 128 None 0 kinit = Some (None, kst1)"
  by (simp add: umcg_ctl_def umcg_register_worker_def umcg_worker_event_idle_def set_worker_def set_syscall_return_def
      thread_maybe_sleep_uninterruptible_def kst_defs)

lemma run_wait: "umcg_ctl kenv0 9 0 5 0 0 (Some 2) 2 kst1 = Some (Some (0, [130, 0]), kst2)"
  by (simp add: umcg_ctl_def umcg_wait_def blockq_check_def blockq_action_def run_action_def umcg_server_wait_bh_def
      umcg_server_get_events_def writable_def event_word_def over_def kst_defs fun_eq_iff)

lemma run_switch: "umcg_ctl kenv0 9 0 6 4 0 (Some 2) 2 kst2 = Some (None, kst3)"
  by (simp add: umcg_ctl_def umcg_ctx_switch_def Let_def switch_blocks set_worker_def kst_defs)

lemma run_resume: "blockq_action Normal 4 Sleeping [] kst3 = Some (Some (0, []), kst4)"
  by (simp add: blockq_action_def run_action_def sleep_bh_def kst_defs)

lemma kreach_run: "kreach i kst1" "kreach i kst2" "kreach i kst3" "kreach i kst4"
proof -
  show 1: "kreach i kst1" by (rule kreach.step [OF kreach.init kstep.call [OF _ run_register]]) (simp add: may_call_def kst_defs)
  show 2: "kreach i kst2" by (rule kreach.step [OF 1 kstep.call [OF _ run_wait]]) (simp add: may_call_def kst_defs)
  show 3: "kreach i kst3" by (rule kreach.step [OF 2 kstep.call [OF _ run_switch]]) (simp add: may_call_def kst_defs)
  show "kreach i kst4"
    by (rule kreach.step [OF 3 kstep.hook [OF khook.action [OF _ _ run_resume]]]) (simp_all add: may_end_def kst_defs)
qed

subsection \<open>Properties\<close>



text \<open>
  C24: The module never writes outside the event buffer it was given: the words written by a
  system call that returns at once, and those a blocked call has written when it completes,
  are at most \<open>event_sz\<close> (as the unsigned number it is used as) and all lie in writable
  memory, in every reachable state, with or without interrupts.
\<close>
theorem events_within_buffer:
  assumes "kreach i st"
  shows "(umcg_ctl e t flags cmd next_tid abs_timeout events event_sz st = Some (Some (rv, ws), st') \<longrightarrow>
      length ws \<le> unat (scast event_sz :: u64) \<and> (ws \<noteq> [] \<longrightarrow> writable events (length ws - 1))) \<and>
    (ks_calls st t = Some (b, old) \<and> (b = OnIdle timeout events sz \<or> b = OnSwitch c events sz) \<and>
       blockq_action bf t b old st = Some (Some (rv, ws), st') \<longrightarrow>
      length ws \<le> unat sz \<and> (ws \<noteq> [] \<longrightarrow> writable events (length ws - 1)))"
proof -
  note k = kreach_kinv [OF assms] and wi = kreach_words [OF assms]
  have "fits events sz ws" if "ks_calls st t = Some (b, old)" "b = OnIdle timeout events sz \<or> b = OnSwitch c events sz"
    "blockq_action bf t b old st = Some (Some (rv, ws), st')"
  proof -
    from wi that(1) have "words_ok b old" by (simp add: words_inv_def)
    from action_words(2) [OF that(3) k this wi refl] that(2) show ?thesis by (auto simp: answer_fits_def)
  qed
  moreover have "fits events (scast event_sz) ws"
    if "umcg_ctl e t flags cmd next_tid abs_timeout events event_sz st = Some (Some (rv, ws), st')"
    using ctl_words(2) [OF that k wi refl] .
  ultimately show ?thesis unfolding fits_def by blast
qed

theorem events_within_buffer_witness:
  "umcg_ctl kenv0 9 0 5 0 0 (Some 2) 2 kst1 = Some (Some (0, [130, 0]), kst2) \<and> length [130, 0 :: u64] \<le> unat (scast (2 :: i32) :: u64)"
  using events_within_buffer [OF kreach_run(1), where e = kenv0 and t = 9 and flags = 0 and cmd = 5 and next_tid = 0 and abs_timeout = 0
      and events = "Some 2" and event_sz = 2] run_wait
  by blast

text \<open>
  C11: What a server learns from a context switch. If a switch with the two-word buffer of
  the sources completes with 0, then in every reachable state it has written exactly one
  event word and the terminating 0. The event is one that the worker running for this
  server caused itself (BLOCK, WAIT, EXIT or PREEMPT); a context switch with two words never
  reports a WAKE or a TIMEOUT.
\<close>
theorem switch_reports_own_event:
  assumes "kreach i st" and "ks_calls st t = Some (OnSwitch c events 2, old)" and "writable events 1"
    and "blockq_action bf t (OnSwitch c events 2) old st = Some (Some (0, ws), st')"
  shows "\<exists>v. ws = [v, 0] \<and> v \<noteq> 0 \<and> event_type v \<in> event_u64 ` {Ev_Block, Ev_Wait, Ev_Exit, Ev_Preempt} \<and> ks_slots st c = Some v"
  using switch_event [OF assms] own_event_type by fastforce

definition kst5 :: kstate where
  "kst5 = kst4\<lparr>ks_workers := [4 \<mapsto> kworker4\<lparr>kw_status := K_Waiting, kw_bq := Some 9, kw_slot := Some 0\<rparr>], ks_slots := [0 \<mapsto> 131],
     ks_calls := (ks_calls kst4)(4 \<mapsto> (Sleeping, []))\<rparr>"

lemma run_worker_wait: "umcg_ctl kenv0 4 0 5 0 0 None 0 kst4 = Some (None, kst5)"
  by (simp add: umcg_ctl_def umcg_wait_def umcg_worker_event_to_server_def set_worker_def set_syscall_return_def event_word_def
      thread_maybe_sleep_uninterruptible_def kst5_def kst_defs fun_eq_iff)

lemma kreach_kst5: "kreach i kst5"
  by (rule kreach.step [OF kreach_run(4) kstep.call [OF _ run_worker_wait]]) (simp add: may_call_def kst_defs)

theorem switch_reports_own_event_witness:
  "\<exists>st'. blockq_action Normal 9 (OnSwitch 0 (Some 2) 2) [] kst5 = Some (Some (0, [131, 0]), st') \<and>
     event_type 131 \<in> event_u64 ` {Ev_Block, Ev_Wait, Ev_Exit, Ev_Preempt}"
proof -
  have c: "ks_calls kst5 9 = Some (OnSwitch 0 (Some 2) 2, [])" by (simp add: kst5_def kst_defs)
  obtain st' where a: "blockq_action Normal 9 (OnSwitch 0 (Some 2) 2) [] kst5 = Some (Some (0, [131, 0]), st')"
    by (simp add: blockq_action_def run_action_def umcg_server_ctx_switch_bh_def umcg_server_get_events_def writable_def
        kst5_def kst_defs)
  from switch_reports_own_event [OF kreach_kst5 c _ a] a show ?thesis by (auto simp: writable_def)
qed

text \<open>
  C10: A server blocked in a context switch is never forgotten by the module. As long as no
  signal ends a switch, in every reachable state the cell of such a server exists; it is
  empty, and exactly one worker is running (or paused in a system call) for this server,
  or it holds that worker's event and no worker runs for the server any more.
\<close>
theorem blocked_server_has_worker:
  assumes "kreach False st" and "ks_calls st s = Some (OnSwitch c events sz, old)"
  shows "(ks_slots st c = Some 0 \<and> (\<exists>!t. runs_for st c t)) \<or>
    (\<exists>v. ks_slots st c = Some v \<and> own_event v \<and> (\<nexists>t. runs_for st c t))"
proof -
  note k = kreach_kinv [OF assms(1)] and l = kreach_live [OF assms(1)]
  from liveD(4) [OF l [unfolded live_inv_def] own_call [OF assms(2)]] obtain v where v: "ks_slots st c = Some v" by blast
  show ?thesis
  proof (cases "v = 0")
    case True
    with v empty_cell_runs [OF l] show ?thesis by blast
  next
    case False
    moreover have "\<not> runs_for st c t" for t
      using liveD(1) [OF l [unfolded live_inv_def], of t "(Some c, True)"] v False by (auto simp: runs_for_att [OF l])
    moreover have "own_event v" using k v False by (auto simp: kinv_defs)
    ultimately show ?thesis using v by blast
  qed
qed

theorem blocked_server_has_worker_witness: "(\<exists>!t. runs_for kst4 0 t) \<and> (\<nexists>t. runs_for kst5 0 t)"
proof -
  have "ks_calls kst4 9 = Some (OnSwitch 0 (Some 2) 2, [])" "ks_slots kst4 0 = Some 0" "ks_calls kst5 9 = Some (OnSwitch 0 (Some 2) 2, [])"
    "ks_slots kst5 0 \<noteq> Some 0" by (simp_all add: kst5_def kst_defs)
  with blocked_server_has_worker [OF kreach_run(4), of 9] blocked_server_has_worker [OF kreach_kst5, of 9]
  show ?thesis using own_event_type(1) by fastforce
qed

text \<open>
  C23: A signal breaks this. If it ends the context switch of a server while its worker still
  runs, the closure that holds the event is freed but the worker keeps its pointer: the
  worker exists, and whatever it does next to inform the server (wait, unregister, end, be
  preempted) writes through the dead pointer.
\<close>
theorem interrupted_switch_dangles:
  assumes "kreach False st" and "ks_calls st s = Some (OnSwitch c events sz, old)" and "ks_slots st c = Some 0"
  shows "\<exists>st' t w. blockq_action Nullify s (OnSwitch c events sz) old st = Some (Some (- K_ERESTARTSYS, old), st') \<and>
    runs_for st c t \<and> ks_workers st' t = Some w \<and> kw_slot w = Some c \<and>
    umcg_unregister t st' = None \<and> umcg_worker_thread_free t st' = None \<and>
    (\<forall>ev. umcg_worker_event_to_server w ev st' = None) \<and> (\<forall>e. umcg_ctl e t 0 (cmd_u64 Cmd_Wait) 0 0 None 0 st' = None)"
proof -
  note l = kreach_live [OF assms(1)]
  from empty_cell_runs [OF l assms(3)] obtain t where t: "runs_for st c t" by blast
  then obtain w where w: "ks_workers st t = Some w" "kw_slot w = Some c" by (auto simp: runs_for_def)
  let ?st = "(free_slot c st)\<lparr>ks_calls := (ks_calls (free_slot c st))(s := None)\<rparr>"
  have a: "blockq_action Nullify s (OnSwitch c events sz) old st = Some (Some (- K_ERESTARTSYS, old), ?st)"
    by (simp add: blockq_action_def run_action_def umcg_server_ctx_switch_bh_def)
  have w': "ks_workers ?st t = Some w" using w(1) by (simp add: free_slot_def)
  have "umcg_worker_event_to_server w ev st1 = None" if "ks_slots st1 = ks_slots ?st" for ev st1
    using w(2) that by (simp add: umcg_worker_event_to_server_def)
  then have "umcg_unregister t ?st = None" "\<forall>ev. umcg_worker_event_to_server w ev ?st = None"
    "umcg_ctl e t 0 (cmd_u64 Cmd_Wait) 0 0 None 0 ?st = None" for e
    using w' by (simp_all add: umcg_unregister_def umcg_ctl_def umcg_wait_def)
  with a t w(2) w' show ?thesis unfolding umcg_worker_thread_free_def by blast
qed

theorem interrupted_switch_dangles_witness:
  "\<exists>st'. blockq_action Nullify 9 (OnSwitch 0 (Some 2) 2) [] kst4 = Some (Some (- K_ERESTARTSYS, []), st') \<and>
     (\<exists>t. runs_for kst4 0 t \<and> umcg_unregister t st' = None)"
proof -
  have "ks_calls kst4 9 = Some (OnSwitch 0 (Some 2) 2, [])" "ks_slots kst4 0 = Some 0" by (simp_all add: kst_defs)
  from interrupted_switch_dangles [OF kreach_run(4) this] show ?thesis by blast
qed

text \<open>
  A server that waits for a worker that is not blocked returns at once, but has already
  replaced the queue of the worker: the worker's next event is put into the cell of the
  server that switched to it and wakes up the other one.
\<close>
lemma wait_redirects_wakeup:
  assumes "ks_workers st b = None" and "ks_workers st t = Some w" and "kw_status w \<noteq> K_Blocked" and "t \<noteq> 0"
    and "ke_exists e t" and "ke_mem e"
  shows "\<exists>st'. umcg_ctl e b 0 (cmd_u64 Cmd_Wait) t 0 None 0 st = Some (Some (0, []), st') \<and>
    ks_workers st' t = Some (w\<lparr>kw_bq := Some b\<rparr>)"
  using assms by (simp add: umcg_ctl_def umcg_wait_def blockq_check_def blockq_action_def run_action_def
      umcg_server_wait_worker_bh_def)

text \<open>A negative size passes the test \<open>event_sz <= 0\<close> of a context switch, which is made on a \<open>u64\<close>.\<close>

lemma negative_size_accepted:
  assumes "ks_workers st t = None" and "ks_workers st u = Some w" and "kw_status w = K_Runnable" and "ke_exists e u" and "ke_mem e"
  shows "\<exists>st'. umcg_ctl e t 0 (cmd_u64 Cmd_CtxSwitch) u 0 events (-1) st = Some (None, st')"
proof -
  have "(scast (-1 :: i32) :: u64) \<noteq> 0" by simp
  with assms show ?thesis by (simp add: umcg_ctl_def umcg_ctx_switch_def Let_def switch_blocks)
qed

end
