(* ===== verification/Kernel_Call.thy ===== *)
theory Kernel_Call
  imports Kernel_Safety
begin

text \<open>
  The kernel module behind the system call: which answers a thread can get from
  \<open>umcg_ctl\<close>, and when a kernel of the Rust side (the parameter \<open>K\<close> of theory \<open>Umcg_Base\<close>)
  answers as the module does. The number the module is registered under is a parameter,
  because \<open>main.rs\<close> (450) and \<open>umcg_base.rs\<close> (449) do not agree on it.
\<close>

text \<open>
  What may happen around a call: the services' answers, the steps of others while the call
  is blocked, and the ways its action may be called.
\<close>

record krules =
  kr_env :: "kenv \<Rightarrow> bool"
  kr_step :: "kstate \<Rightarrow> kstate \<Rightarrow> bool"
  kr_end :: "kblock \<Rightarrow> bflags \<Rightarrow> bool"

text \<open>A slice of the caller is writable as far as it goes.\<close>

definition ctl_of :: "kenv \<Rightarrow> pid_t \<Rightarrow> sysargs \<Rightarrow> u64 list option \<Rightarrow> kstate \<Rightarrow> kanswer" where
  "ctl_of e t a buf st =
     umcg_ctl e t (a_flags a) (a_cmd a) (ucast (a_next_tid a)) (a_timeout a) (map_option length buf) (ucast (a_event_sz a)) st"

inductive module_call :: "krules \<Rightarrow> pid_t \<Rightarrow> sysargs \<Rightarrow> u64 list option \<Rightarrow> kstate \<Rightarrow> int \<Rightarrow> u64 list \<Rightarrow> kstate \<Rightarrow> bool"
  for R :: krules and t :: pid_t and a :: sysargs and buf :: "u64 list option" and st :: kstate where
  returns: "kr_env R e \<Longrightarrow> ctl_of e t a buf st = Some (Some (rv, ws), st') \<Longrightarrow> module_call R t a buf st rv ws st'"
| blocks: "kr_env R e \<Longrightarrow> ctl_of e t a buf st = Some (None, st1) \<Longrightarrow> (kr_step R)\<^sup>*\<^sup>* st1 st2 \<Longrightarrow>
    ks_calls st2 t = Some (b, old) \<Longrightarrow> kr_end R b flags \<Longrightarrow> blockq_action flags t b old st2 = Some (Some (rv, ws), st') \<Longrightarrow>
    module_call R t a buf st rv ws st'"

text \<open>
  The C library turns a negative result into -1 and \<open>errno\<close>. What the unikernel makes of
  \<open>ERESTARTSYS\<close> is left open.
\<close>

definition answers :: "'w sysres \<Rightarrow> int \<Rightarrow> bool" where
  "answers r rv \<longleftrightarrow> (if rv < 0 then sr_ret r = -1 \<and> (rv \<noteq> - K_ERESTARTSYS \<longrightarrow> sr_errno r = of_int (- rv)) else sr_ret r = of_int rv)"

text \<open>\<open>K\<close> answers the calls of thread \<open>t\<close> like the module, whose state is part of the world.\<close>

definition module_kernel :: "i64 \<Rightarrow> krules \<Rightarrow> pid_t \<Rightarrow> ('w \<Rightarrow> kstate) \<Rightarrow> 'w kernel \<Rightarrow> bool" where
  "module_kernel nr R t kst K \<longleftrightarrow> (\<forall>a buf w. a_nr a = nr \<longrightarrow> (\<exists>rv ws st'. module_call R t a buf (kst w) rv ws st') \<longrightarrow>
     (\<exists>rv. answers (K a buf w) rv \<and> module_call R t a buf (kst w) rv (sr_written (K a buf w)) (kst (sr_world (K a buf w)))))"

lemma module_kernelD:
  assumes "module_kernel nr R t kst K" and "a_nr a = nr" and "module_call R t a buf (kst w) rv ws st'"
  obtains rv' where "answers (K a buf w) rv'" "module_call R t a buf (kst w) rv' (sr_written (K a buf w)) (kst (sr_world (K a buf w)))"
  using assms unfolding module_kernel_def by blast

text \<open>A call that returns at once, whatever the services answer.\<close>

lemma module_returns:
  assumes "module_kernel nr R t kst K" and "a_nr a = nr" and "kr_env R e0"
    and "\<And>e. kr_env R e \<Longrightarrow> ctl_of e t a buf (kst w) = Some (Some (rv, ws), st')"
  shows "answers (K a buf w) rv" and "sr_written (K a buf w) = ws" and "kst (sr_world (K a buf w)) = st'"
proof -
  have u: "rv' = rv \<and> ws' = ws \<and> st'' = st'" if "module_call R t a buf (kst w) rv' ws' st''" for rv' ws' st''
    using that assms(4) by (cases rule: module_call.cases) fastforce+
  have "module_call R t a buf (kst w) rv ws st'" by (rule module_call.returns [OF assms(3) assms(4) [OF assms(3)]])
  from module_kernelD [OF assms(1,2) this] u show "answers (K a buf w) rv" "sr_written (K a buf w) = ws" "kst (sr_world (K a buf w)) = st'"
    by blast+
qed

subsection \<open>A thread alone\<close>

text \<open>
  Nothing else happens while the thread is in the kernel, and no signal arrives: a blocked
  wait ends only by its timeout. \<open>solo\<close> is such a kernel.
\<close>

definition alone :: "(kenv \<Rightarrow> bool) \<Rightarrow> krules" where
  "alone P = \<lparr>kr_env = P, kr_step = (=), kr_end = (\<lambda>b flags. flags \<noteq> Nullify \<and> may_end False b flags)\<rparr>"

definition sysres_of :: "int \<Rightarrow> u64 list \<Rightarrow> 'w \<Rightarrow> 'w sysres" where
  "sysres_of rv ws w = \<lparr>sr_ret = (if rv < 0 then -1 else of_int rv), sr_errno = of_int (- rv), sr_written = ws, sr_world = w\<rparr>"

definition solo :: "kenv \<Rightarrow> pid_t \<Rightarrow> (kstate \<Rightarrow> 'w \<Rightarrow> 'w) \<Rightarrow> ('w \<Rightarrow> kstate) \<Rightarrow> 'w kernel" where
  "solo e t upd kst a buf w =
     (let stuck = sysres_of 0 [] w in
      case ctl_of e t a buf (kst w) of
        None \<Rightarrow> stuck
      | Some (Some (rv, ws), st') \<Rightarrow> sysres_of rv ws (upd st' w)
      | Some (None, st1) \<Rightarrow>
          (case ks_calls st1 t of
             None \<Rightarrow> stuck
           | Some (b, old) \<Rightarrow>
               (case blockq_action Normal t b old st1 of
                  Some (Some (rv, ws), st') \<Rightarrow> sysres_of rv ws (upd st' w)
                | _ \<Rightarrow>
                    if may_end False b TimedOut
                    then (case blockq_action TimedOut t b old st1 of
                            Some (Some (rv, ws), st') \<Rightarrow> sysres_of rv ws (upd st' w) | _ \<Rightarrow> stuck)
                    else stuck)))"

lemma answers_sysres [simp]: "answers (sysres_of rv ws w) rv" "sr_written (sysres_of rv ws w) = ws" "sr_world (sysres_of rv ws w) = w"
  by (simp_all add: answers_def sysres_of_def)

lemma eq_star [simp]: "(=)\<^sup>*\<^sup>* x y \<longleftrightarrow> x = (y :: 'a)"
proof
  assume "(=)\<^sup>*\<^sup>* x y"
  then show "x = y" by (induction rule: rtranclp_induct) auto
qed simp

lemma solo_module:
  assumes "\<And>st w. kst (upd st w) = st"
  shows "module_kernel nr (alone (\<lambda>e'. e' = e)) t kst (solo e t upd kst)"
  unfolding module_kernel_def
proof (intro allI impI)
  fix a :: sysargs and buf w
  let ?R = "alone (\<lambda>e'. e' = e)" and ?r = "solo e t upd kst a buf w"
  have good: "\<exists>rv. answers ?r rv \<and> module_call ?R t a buf (kst w) rv (sr_written ?r) (kst (sr_world ?r))"
    if "module_call ?R t a buf (kst w) rv ws st'" "?r = sysres_of rv ws (upd st' w)" for rv ws st'
    using that assms by (intro exI [of _ rv]) simp
  assume "\<exists>rv ws st'. module_call ?R t a buf (kst w) rv ws st'"
  then obtain rv ws st' where m: "module_call ?R t a buf (kst w) rv ws st'" by blast
  then show "\<exists>rv. answers ?r rv \<and> module_call ?R t a buf (kst w) rv (sr_written ?r) (kst (sr_world ?r))"
  proof (cases rule: module_call.cases)
    case (returns e')
    with m show ?thesis by (intro good) (auto simp: alone_def solo_def Let_def)
  next
    case (blocks e' st1 st2 b old flags)
    then have c: "ctl_of e t a buf (kst w) = Some (None, st1)" "ks_calls st1 t = Some (b, old)"
      "blockq_action flags t b old st1 = Some (Some (rv, ws), st')" "flags = Normal \<or> flags = TimedOut \<and> may_end False b TimedOut"
      by (auto simp: alone_def intro: bflags.exhaust [of flags])
    have call: "module_call ?R t a buf (kst w) rv' ws' st''"
      if "blockq_action fl t b old st1 = Some (Some (rv', ws'), st'')" "fl = Normal \<or> fl = TimedOut \<and> may_end False b TimedOut" for fl rv' ws' st''
      by (rule module_call.blocks [of ?R e, OF _ c(1) _ c(2) _ that(1)]) (use that(2) in \<open>auto simp: alone_def may_end_def\<close>)
    show ?thesis
    proof (cases "\<exists>rv' ws' st''. blockq_action Normal t b old st1 = Some (Some (rv', ws'), st'')")
      case True
      then obtain rv' ws' st'' where n: "blockq_action Normal t b old st1 = Some (Some (rv', ws'), st'')" by blast
      from call [OF n] have "module_call ?R t a buf (kst w) rv' ws' st''" by simp
      then show ?thesis by (rule good) (simp add: solo_def Let_def c(1,2) n)
    next
      case False
      with c(3,4) have "flags = TimedOut" "may_end False b TimedOut" by auto
      with c False show ?thesis
        by (intro good [OF m]) (auto simp: solo_def Let_def split: option.splits prod.splits)
    qed
  qed
qed

subsection \<open>Context switches of a server\<close>

text \<open>Other threads act while the thread is blocked; its own call stays as it is.\<close>

definition others_act :: "bool \<Rightarrow> pid_t \<Rightarrow> krules \<Rightarrow> bool" where
  "others_act i t R \<longleftrightarrow> (\<forall>st st'. kr_step R st st' \<longrightarrow> st' = st \<or> kstep i st st' \<and> ks_calls st' t = ks_calls st t) \<and>
     (\<forall>b flags. kr_end R b flags \<longrightarrow> may_end i b flags)"

lemma others_reach:
  assumes "others_act i t R" and "(kr_step R)\<^sup>*\<^sup>* st st'" and "kreach i st"
  shows "kreach i st' \<and> ks_calls st' t = ks_calls st t"
  using assms(2,3)
proof (induction rule: rtranclp_induct)
  case (step st1 st2)
  with assms(1) show ?case unfolding others_act_def by (metis kreach.step)
qed simp

text \<open>On the module a context switch fails or reports an event of the worker.\<close>

lemma ctx_switch_server:
  assumes "umcg_ctx_switch e t nt 0 events sz st = Some (r, st')" and "ks_workers st t = None"
  shows "(\<exists>err. r = Some (- err, []) \<and> 0 < err) \<or> r = None \<and> (\<exists>c. ks_calls st' t = Some (OnSwitch c events sz, []))"
  using assms
  by (auto simp: umcg_ctx_switch_def kreturn_def Let_def switch_blocks kerrno_defs split: option.splits if_splits)

lemma module_switch:
  assumes "module_call R t (switch_args tid) (Some [0, 0]) st rv ws st'" and R: "others_act i t R" and reach: "kreach i st"
    and may: "may_call st t" and server: "ks_workers st t = None"
  shows "rv < 0 \<or> rv = 0 \<and> (\<exists>v. ws = [v, 0] \<and> v \<noteq> 0)"
  using assms(1)
proof (cases rule: module_call.cases)
  case (returns e)
  then have "umcg_ctx_switch e t (ucast (scast tid :: i64)) 0 (Some 2) 2 st = Some (Some (rv, ws), st')"
    by (simp add: ctl_of_def switch_args_def umcg_ctl_def numeral_2_eq_2 [symmetric] del: One_nat_def)
  from ctx_switch_server [OF this server] show ?thesis by auto
next
  case (blocks e st1 st2 b old flags)
  have ctl: "umcg_ctl e t 0 (cmd_u64 Cmd_CtxSwitch) (ucast (scast tid :: i64)) 0 (Some 2) 2 st = Some (None, st1)"
    using blocks(2) by (simp add: ctl_of_def switch_args_def numeral_2_eq_2 [symmetric] del: One_nat_def)
  then have "umcg_ctx_switch e t (ucast (scast tid :: i64)) 0 (Some 2) 2 st = Some (None, st1)" by (simp add: umcg_ctl_def)
  from ctx_switch_server [OF this server] obtain c where c: "ks_calls st1 t = Some (OnSwitch c (Some 2) 2, [])" by auto
  have "kreach i st1" by (rule kreach.step [OF reach kstep.call [OF may ctl]])
  from others_reach [OF R blocks(3) this] c blocks(4) have r2: "kreach i st2" and b: "b = OnSwitch c (Some 2) 2" "old = []"
    "ks_calls st2 t = Some (OnSwitch c (Some 2) 2, [])" by auto
  from blocks(6) have act: "blockq_action flags t (OnSwitch c (Some 2) 2) [] st2 = Some (Some (rv, ws), st')" by (simp add: b)
  show ?thesis using switch_event [OF r2 b(3) _ act] own_event_type(1) by (auto simp: writable_def)
qed

end
