(* ===== verification/Main_Program.thy ===== *)
theory Main_Program
  imports Umcg_Base
begin

text \<open>
  The program \<open>src/main.rs\<close>: its own copy of the interface, its helpers that assert what the
  kernel reports, the demo of the option \<open>-d\<close>, the performance tests and the ported tests of
  the kernel interface. Every \<open>assert!\<close> and \<open>unwrap\<close> that fails is \<open>Panics\<close>; \<open>None\<close> is a call
  that never returns. Output is left out. The enums \<open>UmcgCmd\<close> and \<open>UmcgEventType\<close> of the file
  are copies of those of \<open>umcg_base.rs\<close>.
\<close>

subsection \<open>World and environment\<close>

text \<open>
  The shared variables: the static \<open>DONE\<close>, the number of running demo workers, the flag
  \<open>worker_exit\<close> of the test of preemption, and the two variables of the futex test.
\<close>

record 'x main_world =
  mw_done :: bool
  mw_count :: i32
  mw_exit :: bool
  mw_futex_done :: bool
  mw_futex_word :: i32
  mw_ext :: 'x

text \<open>The functions that the program starts in a thread of their own.\<close>

datatype main_thread = T_DemoA | T_DemoB | T_DemoC | T_Futex | T_Blocking | T_WaitTimeout | T_Dummy | T_Switching u64
  | T_Preempted | T_Exiting | T_Server | T_Perf

text \<open>
  Outside the file: the kernel, the id of the calling thread, the start of a thread (giving
  its handle), joining it (whether it ended without a panic; \<open>None\<close> if it never ends), the
  clock in nanoseconds since the epoch, what other threads do before a shared variable is
  read, sleeping, the futex call (address, operation, value), the addresses of the local
  variables whose address is passed to it, and the demo of the library.
\<close>

record 'x main_env =
  me_kernel :: "'x main_world kernel"
  me_gettid :: "'x main_world \<Rightarrow> pid_t"
  me_spawn :: "main_thread \<Rightarrow> 'x main_world \<Rightarrow> nat \<times> 'x main_world"
  me_join :: "nat \<Rightarrow> 'x main_world \<Rightarrow> (bool \<times> 'x main_world) option"
  me_clock :: "'x main_world \<Rightarrow> nat"
  me_others :: "'x main_world \<Rightarrow> 'x main_world"
  me_sleep :: "nat \<Rightarrow> 'x main_world \<Rightarrow> 'x main_world"
  me_futex :: "u64 \<Rightarrow> i32 \<Rightarrow> i32 \<Rightarrow> 'x main_world \<Rightarrow> 'x main_world"
  me_futex_word :: u64
  me_futex_clone :: u64
  me_attempt2_demo :: "'x main_world \<Rightarrow> 'x main_world outcome option"

text \<open>Sequencing of code that may panic or never return, and assertions.\<close>

definition obind :: "'a outcome option \<Rightarrow> ('a \<Rightarrow> 'b outcome option) \<Rightarrow> 'b outcome option" where
  "obind r f = (case r of None \<Rightarrow> None | Some Panics \<Rightarrow> Some Panics | Some (Returns a) \<Rightarrow> f a)"

definition require :: "bool \<Rightarrow> 'a \<Rightarrow> 'a outcome option" where
  "require c a = Some (if c then Returns a else Panics)"

lemma obind_simps [simp]:
  "obind None f = None" "obind (Some Panics) f = Some Panics" "obind (Some (Returns a)) f = f a"
  by (simp_all add: obind_def)

lemma require_simps [simp]: "require True a = Some (Returns a)" "require False a = Some Panics"
  by (simp_all add: require_def)

subsection \<open>The interface\<close>

definition MAIN_SYS_UMCG_CTL :: i64 where "MAIN_SYS_UMCG_CTL = 450"
definition FUTEX_WAIT :: i32 where "FUTEX_WAIT = 0"
definition FUTEX_WAKE :: i32 where "FUTEX_WAKE = 1"
definition FUTEX_PRIVATE_FLAG :: i32 where "FUTEX_PRIVATE_FLAG = 128"
definition ESRCH :: i32 where "ESRCH = 3"

definition main_ctl ::
  "'x main_env \<Rightarrow> u64 \<Rightarrow> UmcgCmd \<Rightarrow> pid_t \<Rightarrow> u64 \<Rightarrow> u64 list option \<Rightarrow> i32 \<Rightarrow> 'x main_world \<Rightarrow> 'x main_world ctl_result" where
  "main_ctl M flags cmd next_tid abs_timeout events event_sz w =
     (let r = me_kernel M \<lparr>a_nr = MAIN_SYS_UMCG_CTL, a_flags = flags, a_cmd = cmd_u64 cmd, a_next_tid = scast next_tid,
                 a_timeout = abs_timeout, a_event_sz = scast event_sz\<rparr> events w
      in (ucast (sr_ret r), sr_errno r, map_option (overwrite (sr_written r)) events, sr_world r))"

definition main_wait_retry_body ::
  "'x main_env \<Rightarrow> u64 \<Rightarrow> i32 \<Rightarrow> u64 \<times> u64 list option \<times> 'x main_world \<Rightarrow>
   ((u64 \<times> u64 list option \<times> 'x main_world) + 'x main_world ctl_result) option" where
  "main_wait_retry_body M worker_id event_sz = (\<lambda>(flags, events, w).
     case main_ctl M flags Cmd_Wait (worker_tid worker_id) 0 events event_sz w of
       (ret, errno, events', w') \<Rightarrow>
         if ret \<noteq> -1 \<or> errno \<noteq> EINTR then Some (Inr (ret, errno, events', w'))
         else Some (Inl (UMCG_WAIT_FLAG_INTERRUPTED, events', w')))"

definition main_wait_retry ::
  "'x main_env \<Rightarrow> u64 \<Rightarrow> u64 list option \<Rightarrow> i32 \<Rightarrow> 'x main_world \<Rightarrow> 'x main_world ctl_result outcome option" where
  "main_wait_retry M worker_id events_buf event_sz w =
     map_option Returns (rust_loop (main_wait_retry_body M worker_id event_sz) (0, events_buf, w))"

text \<open>\<open>assert_eq!(sys_umcg_ctl(0, cmd, 0, arg, None, 0), 0)\<close>.\<close>

definition expect_ctl :: "'x main_env \<Rightarrow> UmcgCmd \<Rightarrow> u64 \<Rightarrow> 'x main_world \<Rightarrow> 'x main_world outcome option" where
  "expect_ctl M cmd arg w = (case main_ctl M 0 cmd 0 arg None 0 w of (ret, _, _, w') \<Rightarrow> require (ret = 0) w')"

text \<open>A call that is asserted to fail with a given error (\<open>ret < 0\<close>, \<open>ret == -1\<close>); the buffer is passed on.\<close>

definition refute_ctl ::
  "'x main_env \<Rightarrow> UmcgCmd \<Rightarrow> pid_t \<Rightarrow> u64 \<Rightarrow> u64 list option \<Rightarrow> i32 \<Rightarrow> i32 \<Rightarrow> 'x main_world \<Rightarrow>
   (u64 list option \<times> 'x main_world) outcome option" where
  "refute_ctl M cmd next_tid arg events event_sz err w =
     (case main_ctl M 0 cmd next_tid arg events event_sz w of
        (ret, errno, events', w') \<Rightarrow> require (sint ret < 0 \<and> errno = err) (events', w'))"

definition refute_ctl1 ::
  "'x main_env \<Rightarrow> UmcgCmd \<Rightarrow> pid_t \<Rightarrow> u64 \<Rightarrow> u64 list option \<Rightarrow> i32 \<Rightarrow> i32 \<Rightarrow> 'x main_world \<Rightarrow>
   (u64 list option \<times> 'x main_world) outcome option" where
  "refute_ctl1 M cmd next_tid arg events event_sz err w =
     (case main_ctl M 0 cmd next_tid arg events event_sz w of
        (ret, errno, events', w') \<Rightarrow> require (ret = -1 \<and> errno = err) (events', w'))"

definition expect_wait :: "'x main_env \<Rightarrow> u64 \<Rightarrow> u64 list option \<Rightarrow> i32 \<Rightarrow> 'x main_world \<Rightarrow> (u64 list \<times> 'x main_world) outcome option" where
  "expect_wait M worker_id events event_sz w =
     obind (main_wait_retry M worker_id events event_sz w) (\<lambda>(ret, _, events', w').
       require (ret = 0) (case events' of Some evs \<Rightarrow> evs | None \<Rightarrow> [], w'))"

definition umcg_yield :: "'x main_env \<Rightarrow> 'x main_world \<Rightarrow> 'x main_world outcome option" where
  "umcg_yield M w = obind (expect_wait M 0 None 0 w) (\<lambda>(_, w'). Some (Returns w'))"

definition umcg_wait_any_worker ::
  "'x main_env \<Rightarrow> UmcgEventType \<Rightarrow> 'x main_world \<Rightarrow> (u64 \<times> 'x main_world) outcome option" where
  "umcg_wait_any_worker M expected_event w =
     obind (expect_wait M 0 (Some [0, 0]) 2 w) (\<lambda>(events, w').
       require (events ! 0 AND UMCG_WORKER_EVENT_MASK = event_u64 expected_event \<and> events ! 1 = 0)
         (events ! 0 AND NOT UMCG_WORKER_EVENT_MASK, w'))"

definition umcg_assert_worker_event :: "u64 \<Rightarrow> u64 \<Rightarrow> UmcgEventType \<Rightarrow> bool" where
  "umcg_assert_worker_event event worker_id ty \<longleftrightarrow>
     event AND UMCG_WORKER_EVENT_MASK = event_u64 ty \<and> event AND NOT UMCG_WORKER_EVENT_MASK = worker_id"

definition expect_switch :: "'x main_env \<Rightarrow> u64 \<Rightarrow> 'x main_world \<Rightarrow> (u64 list \<times> 'x main_world) outcome option" where
  "expect_switch M worker_id w =
     (case main_ctl M 0 Cmd_CtxSwitch (worker_tid worker_id) 0 (Some [0, 0]) 2 w of
        (ret, _, events', w') \<Rightarrow> require (ret = 0) (case events' of Some evs \<Rightarrow> evs | None \<Rightarrow> [], w'))"

definition umcg_ctxsw_assert_worker_event ::
  "'x main_env \<Rightarrow> u64 \<Rightarrow> UmcgEventType \<Rightarrow> 'x main_world \<Rightarrow> 'x main_world outcome option" where
  "umcg_ctxsw_assert_worker_event M worker_id ty w =
     obind (expect_switch M worker_id w) (\<lambda>(events, w').
       require (umcg_assert_worker_event (events ! 0) worker_id ty \<and> events ! 1 = 0) w')"

subsection \<open>The demo\<close>

definition spawn_worker :: "'x main_env \<Rightarrow> main_thread \<Rightarrow> nat list \<times> 'x main_world \<Rightarrow> nat list \<times> 'x main_world" where
  "spawn_worker M f = (\<lambda>(handles, w). case me_spawn M f w of (h, w') \<Rightarrow> (handles @ [h], w'))"

definition join_thread :: "'x main_env \<Rightarrow> nat \<Rightarrow> 'x main_world \<Rightarrow> 'x main_world outcome option" where
  "join_thread M h w = (case me_join M h w of None \<Rightarrow> None | Some (ok, w') \<Rightarrow> require ok w')"

fun join_all :: "'x main_env \<Rightarrow> nat list \<Rightarrow> 'x main_world \<Rightarrow> 'x main_world outcome option" where
  "join_all M [] w = Some (Returns w)"
| "join_all M (h # hs) w = obind (join_thread M h w) (join_all M hs)"

definition register_self :: "'x main_env \<Rightarrow> 'x main_world \<Rightarrow> 'x main_world outcome option" where
  "register_self M w = expect_ctl M Cmd_RegisterWorker (worker_id_of (me_gettid M w)) w"

definition demo_worker_a_body ::
  "'x main_env \<Rightarrow> u64 \<times> 'x main_world \<Rightarrow> ((u64 \<times> 'x main_world) + 'x main_world outcome) option" where
  "demo_worker_a_body M = (\<lambda>(i, w0).
     let w = me_others M w0 in
     if mw_done w then Some (Inr (Returns w))
     else case (if i mod 10000000 = 0 then umcg_yield M w else Some (Returns w)) of
         None \<Rightarrow> None
       | Some Panics \<Rightarrow> Some (Inr Panics)
       | Some (Returns w') \<Rightarrow>
           (case checked_add i 1 of None \<Rightarrow> Some (Inr Panics) | Some i' \<Rightarrow> Some (Inl (i', w'))))"

definition leave_demo :: "'x main_env \<Rightarrow> 'x main_world \<Rightarrow> 'x main_world outcome option" where
  "leave_demo M w = expect_ctl M Cmd_Unregister 0 (w\<lparr>mw_count := mw_count w - 1\<rparr>)"

definition demo_worker_a :: "'x main_env \<Rightarrow> 'x main_world \<Rightarrow> 'x main_world outcome option" where
  "demo_worker_a M w =
     obind (register_self M w) (\<lambda>w.
       obind (rust_loop (demo_worker_a_body M) (0, w\<lparr>mw_count := mw_count w + 1\<rparr>)) (leave_demo M))"

definition demo_sleep_body :: "'x main_env \<Rightarrow> nat \<Rightarrow> 'x main_world \<Rightarrow> ('x main_world + 'x main_world outcome) option" where
  "demo_sleep_body M secs w0 =
     (let w = me_others M w0 in
      if mw_done w then Some (Inr (Returns w)) else Some (Inl (me_sleep M (secs * 1000000000) w)))"

definition demo_worker_b :: "'x main_env \<Rightarrow> 'x main_world \<Rightarrow> 'x main_world outcome option" where
  "demo_worker_b M w =
     obind (register_self M w) (\<lambda>w.
       obind (rust_loop (demo_sleep_body M 1) (w\<lparr>mw_count := mw_count w + 1\<rparr>)) (leave_demo M))"

definition demo_worker_c :: "'x main_env \<Rightarrow> 'x main_world \<Rightarrow> 'x main_world outcome option" where
  "demo_worker_c M w =
     obind (register_self M w) (\<lambda>w.
       obind (rust_loop (demo_sleep_body M 2) (w\<lparr>mw_count := mw_count w + 1\<rparr>)) (leave_demo M))"

text \<open>\<open>start.elapsed().unwrap()\<close> panics if the clock was set back.\<close>

definition elapsed :: "'x main_env \<Rightarrow> nat \<Rightarrow> 'x main_world \<Rightarrow> nat option" where
  "elapsed M start w = (if me_clock M w < start then None else Some (me_clock M w - start))"

text \<open>\<open>Inl\<close>: the function returns -1; \<open>Inr\<close>: the loop is left.\<close>

definition run_demo_body ::
  "'x main_env \<Rightarrow> nat \<Rightarrow> 'x main_world \<Rightarrow> ('x main_world + ('x main_world + 'x main_world) outcome) option" where
  "run_demo_body M start w0 =
     (let w = me_others M w0 in
      if \<not> (\<not> mw_done w \<or> mw_count w \<noteq> 0) then Some (Inr (Returns (Inr w)))
      else case main_wait_retry M 0 (Some (replicate 6 0)) 6 w of
          None \<Rightarrow> None
        | Some Panics \<Rightarrow> Some (Inr Panics)
        | Some (Returns (ret, _, events, w')) \<Rightarrow>
            if ret \<noteq> 0 then Some (Inr (Returns (Inl w')))
            else case elapsed M start w' of
                None \<Rightarrow> Some (Inr Panics)
              | Some d \<Rightarrow> Some (Inl (if d \<ge> 10 * 1000000000 then w'\<lparr>mw_done := True\<rparr> else w')))"

definition run_demo_test :: "'x main_env \<Rightarrow> 'x main_world \<Rightarrow> (i32 \<times> 'x main_world) outcome option" where
  "run_demo_test M w =
     obind (expect_ctl M Cmd_RegisterServer 0 (w\<lparr>mw_count := 0\<rparr>)) (\<lambda>w.
       case spawn_worker M T_DemoC (spawn_worker M T_DemoB (spawn_worker M T_DemoA ([], w))) of (handles, w) \<Rightarrow>
         obind (rust_loop (run_demo_body M (me_clock M w)) w) (\<lambda>r. case r of
             Inl w \<Rightarrow> Some (Returns (-1, w))
           | Inr w \<Rightarrow> obind (join_all M handles w) (\<lambda>w. Some (Returns (0, w)))))"

subsection \<open>Tests of the interface\<close>

text \<open>\<open>now.as_nanos() as u64\<close>.\<close>

definition now_nanos :: "'x main_env \<Rightarrow> 'x main_world \<Rightarrow> u64" where
  "now_nanos M w = of_nat (me_clock M w)"

definition run_basic_tests :: "'x main_env \<Rightarrow> 'x main_world \<Rightarrow> 'x main_world outcome option" where
  "run_basic_tests M w =
     obind (expect_ctl M Cmd_RegisterServer 0 w) (\<lambda>w.
     obind (refute_ctl M Cmd_RegisterWorker 0 UMCG_WORKER_EVENT_MASK None 0 EINVAL w) (\<lambda>(_, w).
     obind (refute_ctl1 M Cmd_CtxSwitch (me_gettid M w) 0 (Some [0, 0]) 2 EINVAL w) (\<lambda>(_, w).
     expect_ctl M Cmd_Unregister 0 w)))"

text \<open>The workers of \<open>umcg_test_basic\<close>.\<close>

definition worker_blocking :: "'x main_env \<Rightarrow> 'x main_world \<Rightarrow> 'x main_world outcome option" where
  "worker_blocking M w =
     obind (register_self M w) (\<lambda>w. expect_ctl M Cmd_Unregister 0 (me_sleep M (16 * 1024 * 1000) w))"

definition worker_wait_timeout :: "'x main_env \<Rightarrow> 'x main_world \<Rightarrow> 'x main_world outcome option" where
  "worker_wait_timeout M w =
     obind (register_self M w) (\<lambda>w.
     obind (refute_ctl1 M Cmd_Wait 0 (now_nanos M w) None 0 ETIMEDOUT w) (\<lambda>(_, w).
     expect_ctl M Cmd_Unregister 0 w))"

definition worker_dummy :: "'x main_env \<Rightarrow> 'x main_world \<Rightarrow> 'x main_world outcome option" where
  "worker_dummy M w = obind (register_self M w) (expect_ctl M Cmd_Unregister 0)"

definition worker_switching :: "'x main_env \<Rightarrow> u64 \<Rightarrow> 'x main_world \<Rightarrow> 'x main_world outcome option" where
  "worker_switching M worker_id w =
     obind (register_self M w) (\<lambda>w.
       case main_ctl M 0 Cmd_CtxSwitch (worker_tid worker_id) (now_nanos M w) None 0 w of
         (ret, errno, _, w') \<Rightarrow>
           obind (require (ret = 0 \<or> sint ret < 0 \<and> errno = ETIMEDOUT) w') (expect_ctl M Cmd_Unregister 0))"

definition preempted_body :: "'x main_env \<Rightarrow> 'x main_world \<Rightarrow> ('x main_world + 'x main_world outcome) option" where
  "preempted_body M w0 = (let w = me_others M w0 in Some (if mw_exit w then Inr (Returns w) else Inl w))"

definition worker_preempted :: "'x main_env \<Rightarrow> 'x main_world \<Rightarrow> 'x main_world outcome option" where
  "worker_preempted M w =
     obind (register_self M w) (\<lambda>w. obind (rust_loop (preempted_body M) w) (expect_ctl M Cmd_Unregister 0))"

definition worker_exiting :: "'x main_env \<Rightarrow> 'x main_world \<Rightarrow> 'x main_world outcome option" where
  "worker_exiting M w =
     (let worker_id = worker_id_of (me_gettid M w) in
      obind (expect_ctl M Cmd_RegisterWorker worker_id w) (\<lambda>w.
      obind (refute_ctl M Cmd_RegisterWorker 0 worker_id None 0 EINVAL w) (\<lambda>(_, w).
      obind (refute_ctl1 M Cmd_CtxSwitch (worker_tid worker_id) 0 None 0 EINVAL w) (\<lambda>(_, w).
      obind (refute_ctl M Cmd_Wait (worker_tid worker_id) 0 None 0 EINVAL w) (\<lambda>(_, w).
      obind (refute_ctl M Cmd_Wait 0 0 (Some [0, 0]) 0 EINVAL w) (\<lambda>(_, w).
      obind (refute_ctl1 M Cmd_Wait 0 0 None 2 EINVAL w) (\<lambda>(_, w). Some (Returns w))))))))"

text \<open>The five parts of \<open>umcg_test_basic\<close>, as the server runs them.\<close>

definition test_blocking :: "'x main_env \<Rightarrow> 'x main_world \<Rightarrow> 'x main_world outcome option" where
  "test_blocking M w =
     (case me_spawn M T_Blocking w of (handle, w) \<Rightarrow>
      obind (umcg_wait_any_worker M Ev_Wake w) (\<lambda>(worker_id, w).
      obind (umcg_ctxsw_assert_worker_event M worker_id Ev_Block w) (\<lambda>w.
      obind (expect_wait M worker_id None 0 w) (\<lambda>(_, w).
      obind (umcg_wait_any_worker M Ev_Wake w) (\<lambda>(worker_id', w).
      obind (require (worker_id' = worker_id) w) (\<lambda>w.
      obind (umcg_ctxsw_assert_worker_event M worker_id Ev_Exit w) (join_thread M handle)))))))"

definition test_wait_timeout :: "'x main_env \<Rightarrow> 'x main_world \<Rightarrow> 'x main_world outcome option" where
  "test_wait_timeout M w =
     (case me_spawn M T_WaitTimeout w of (handle, w) \<Rightarrow>
      obind (umcg_wait_any_worker M Ev_Wake w) (\<lambda>(worker_id, w).
      obind (umcg_ctxsw_assert_worker_event M worker_id Ev_Wait w) (\<lambda>w.
      obind (umcg_wait_any_worker M Ev_Timeout w) (\<lambda>(worker_id', w).
      obind (require (worker_id' = worker_id) w) (\<lambda>w.
      obind (umcg_ctxsw_assert_worker_event M worker_id Ev_Exit w) (join_thread M handle))))))"

definition test_switch_timeout :: "'x main_env \<Rightarrow> 'x main_world \<Rightarrow> 'x main_world outcome option" where
  "test_switch_timeout M w =
     (case me_spawn M T_Dummy w of (handle1, w) \<Rightarrow>
      obind (umcg_wait_any_worker M Ev_Wake w) (\<lambda>(worker1, w).
      case me_spawn M (T_Switching worker1) w of (handle2, w) \<Rightarrow>
      obind (umcg_wait_any_worker M Ev_Wake w) (\<lambda>(worker2, w).
      obind (expect_switch M worker2 w) (\<lambda>(events, w).
      obind (require (umcg_assert_worker_event (events ! 0) worker1 Ev_Exit \<and> events ! 1 = 0) w) (\<lambda>w.
      obind (expect_wait M 0 (Some events) 2 w) (\<lambda>(events, w).
      obind (require (umcg_assert_worker_event (events ! 0) worker2 Ev_Wait \<and>
          (events ! 1 \<noteq> 0 \<longrightarrow> umcg_assert_worker_event (events ! 1) worker2 Ev_Timeout)) w) (\<lambda>w.
      obind (umcg_ctxsw_assert_worker_event M worker2 Ev_Exit w) (\<lambda>w.
      obind (join_thread M handle1 w) (join_thread M handle2)))))))))"

definition test_preempted :: "'x main_env \<Rightarrow> 'x main_world \<Rightarrow> 'x main_world outcome option" where
  "test_preempted M w =
     (case me_spawn M T_Preempted (w\<lparr>mw_exit := False\<rparr>) of (handle, w) \<Rightarrow>
      obind (umcg_wait_any_worker M Ev_Wake w) (\<lambda>(worker_id, w).
      obind (umcg_ctxsw_assert_worker_event M worker_id Ev_Preempt w) (\<lambda>w.
      obind (umcg_ctxsw_assert_worker_event M worker_id Ev_Exit (w\<lparr>mw_exit := True\<rparr>)) (join_thread M handle))))"

definition test_exiting :: "'x main_env \<Rightarrow> 'x main_world \<Rightarrow> 'x main_world outcome option" where
  "test_exiting M w =
     (case me_spawn M T_Exiting w of (handle, w) \<Rightarrow>
      obind (umcg_wait_any_worker M Ev_Wake w) (\<lambda>(worker_id, w).
      obind (umcg_ctxsw_assert_worker_event M worker_id Ev_Exit w) (join_thread M handle)))"

definition umcg_test_basic :: "'x main_env \<Rightarrow> 'x main_world \<Rightarrow> 'x main_world outcome option" where
  "umcg_test_basic M w =
     obind (expect_ctl M Cmd_RegisterServer 0 w) (\<lambda>w.
     obind (test_blocking M w) (\<lambda>w.
     obind (test_wait_timeout M w) (\<lambda>w.
     obind (test_switch_timeout M w) (\<lambda>w.
     obind (test_preempted M w) (\<lambda>w.
     obind (test_exiting M w) (expect_ctl M Cmd_Unregister 0))))))"

text \<open>Waking up an idle server.\<close>

definition idle_server :: "'x main_env \<Rightarrow> 'x main_world \<Rightarrow> 'x main_world outcome option" where
  "idle_server M w =
     obind (expect_ctl M Cmd_RegisterServer 0 w) (\<lambda>w.
     obind (expect_wait M 0 (Some [0, 0]) 2 w) (\<lambda>(events, w).
     obind (require (events ! 0 = 0) w) (expect_ctl M Cmd_Unregister 0)))"

definition wake_body :: "'x main_env \<Rightarrow> 'x main_world \<Rightarrow> ('x main_world + 'x main_world outcome) option" where
  "wake_body M w =
     (case main_ctl M 0 Cmd_Wake 0 0 None 0 w of
        (ret, errno, _, w') \<Rightarrow>
          if ret = 0 then Some (Inr (Returns w'))
          else if sint ret < 0 \<and> errno = EAGAIN then Some (Inl w')
          else Some (Inr Panics))"

definition umcg_test_server2server :: "'x main_env \<Rightarrow> 'x main_world \<Rightarrow> 'x main_world outcome option" where
  "umcg_test_server2server M w =
     obind (expect_ctl M Cmd_RegisterServer 0 w) (\<lambda>w.
     case me_spawn M T_Server w of (handle, w) \<Rightarrow>
     obind (rust_loop (wake_body M) w) (\<lambda>w.
     obind (join_thread M handle w) (expect_ctl M Cmd_Unregister 0)))"

definition umcg_test_errors :: "'x main_env \<Rightarrow> 'x main_world \<Rightarrow> 'x main_world outcome option" where
  "umcg_test_errors M w =
     obind (refute_ctl M Cmd_RegisterWorker 0 UMCG_WORKER_EVENT_MASK None 0 EINVAL w) (\<lambda>(_, w).
     obind (expect_ctl M Cmd_RegisterServer 0 w) (\<lambda>w.
     obind (refute_ctl1 M Cmd_CtxSwitch (me_gettid M w) 0 (Some [0, 0]) 2 EINVAL w) (\<lambda>(events, w).
     obind (refute_ctl1 M Cmd_Wait 0 0 events 1 EINVAL w) (\<lambda>(events, w).
     obind (refute_ctl1 M Cmd_Wait 0 (now_nanos M w) events 2 ETIMEDOUT w) (\<lambda>(events, w).
     obind (refute_ctl1 M Cmd_Wait 0 1 events 2 ETIMEDOUT w) (\<lambda>(events, w).
     obind (refute_ctl1 M Cmd_Wait 1 0 events 0 EINVAL w) (\<lambda>(events, w).
     obind (refute_ctl1 M Cmd_Wait 1 0 None 2 EINVAL w) (\<lambda>(_, w).
     obind (refute_ctl1 M Cmd_CtxSwitch 1 1 events 2 ESRCH w) (\<lambda>(events, w).
     obind (refute_ctl1 M Cmd_CtxSwitch 999999 0 events 2 ESRCH w) (\<lambda>(events, w).
     obind (refute_ctl1 M Cmd_Wake 0 0 None 0 EAGAIN w) (\<lambda>(_, w).
     expect_ctl M Cmd_Unregister 0 w)))))))))))"

subsection \<open>Performance tests\<close>

definition perf_worker_body :: "'x main_env \<Rightarrow> 'x main_world \<Rightarrow> ('x main_world + 'x main_world outcome) option" where
  "perf_worker_body M w0 =
     (let w = me_others M w0 in
      if mw_done w then Some (Inr (Returns w))
      else case expect_ctl M Cmd_Wait 0 w of
          None \<Rightarrow> None
        | Some Panics \<Rightarrow> Some (Inr Panics)
        | Some (Returns w') \<Rightarrow> Some (Inl w'))"

definition perf_worker :: "'x main_env \<Rightarrow> 'x main_world \<Rightarrow> 'x main_world outcome option" where
  "perf_worker M w =
     obind (register_self M w) (\<lambda>w. obind (rust_loop (perf_worker_body M) w) (expect_ctl M Cmd_Unregister 0))"

text \<open>\<open>cycles += 1\<close> on an \<open>i64\<close>, with the overflow check of the debug profile.\<close>

definition next_cycle :: "int \<Rightarrow> int option" where
  "next_cycle cycles = (if cycles + 1 < 2 ^ 63 then Some (cycles + 1) else None)"

definition perf_body ::
  "'x main_env \<Rightarrow> u64 \<Rightarrow> nat \<Rightarrow> int \<times> 'x main_world \<Rightarrow> ((int \<times> 'x main_world) + (int \<times> 'x main_world) outcome) option" where
  "perf_body M worker_id start = (\<lambda>(cycles, w0).
     let w = me_others M w0 in
     if mw_done w then Some (Inr (Returns (cycles, w)))
     else case umcg_ctxsw_assert_worker_event M worker_id Ev_Wait w of
         None \<Rightarrow> None
       | Some Panics \<Rightarrow> Some (Inr Panics)
       | Some (Returns w') \<Rightarrow>
           (case (next_cycle cycles, elapsed M start w') of
              (Some n, Some d) \<Rightarrow> Some (Inl (n, if d \<ge> 10 * 1000000000 then w'\<lparr>mw_done := True\<rparr> else w'))
            | _ \<Rightarrow> Some (Inr Panics)))"

definition umcg_perftest :: "'x main_env \<Rightarrow> 'x main_world \<Rightarrow> (i32 \<times> 'x main_world) outcome option" where
  "umcg_perftest M w =
     (case me_spawn M T_Perf w of (worker, w) \<Rightarrow>
      obind (expect_ctl M Cmd_RegisterServer 0 w) (\<lambda>w.
      obind (umcg_wait_any_worker M Ev_Wake w) (\<lambda>(worker_id, w).
      obind (rust_loop (perf_body M worker_id (me_clock M w)) (0, w)) (\<lambda>(cycles, w).
      obind (umcg_ctxsw_assert_worker_event M worker_id Ev_Exit w) (\<lambda>w.
      obind (join_thread M worker w) (\<lambda>w. Some (Returns (0, w))))))))"

definition futex_worker_body :: "'x main_env \<Rightarrow> 'x main_world \<Rightarrow> ('x main_world + 'x main_world outcome) option" where
  "futex_worker_body M w0 =
     (let w = me_others M w0 in
      if mw_futex_done w then Some (Inr (Returns w))
      else let w = me_futex M (me_futex_clone M) (FUTEX_WAIT OR FUTEX_PRIVATE_FLAG) 0 w;
               w = w\<lparr>mw_futex_word := 0\<rparr>
           in Some (Inl (me_futex M (me_futex_clone M) (FUTEX_WAKE OR FUTEX_PRIVATE_FLAG) 1 w)))"

definition futex_worker :: "'x main_env \<Rightarrow> 'x main_world \<Rightarrow> 'x main_world outcome option" where
  "futex_worker M w = rust_loop (futex_worker_body M) w"

definition futex_body ::
  "'x main_env \<Rightarrow> nat \<Rightarrow> int \<times> 'x main_world \<Rightarrow> ((int \<times> 'x main_world) + (int \<times> 'x main_world) outcome) option" where
  "futex_body M start = (\<lambda>(cycles, w0).
     let w = me_others M w0 in
     if mw_futex_done w then Some (Inr (Returns (cycles, w)))
     else let w = w\<lparr>mw_futex_word := 1\<rparr>;
              w = me_futex M (me_futex_word M) (FUTEX_WAKE OR FUTEX_PRIVATE_FLAG) 1 w;
              w = me_futex M (me_futex_word M) (FUTEX_WAIT OR FUTEX_PRIVATE_FLAG) 1 w
          in (case (next_cycle cycles, elapsed M start w) of
                (Some n, Some d) \<Rightarrow> Some (Inl (n, if d \<ge> 10 * 1000000000 then w\<lparr>mw_futex_done := True\<rparr> else w))
              | _ \<Rightarrow> Some (Inr Panics)))"

definition futex_perftest :: "'x main_env \<Rightarrow> 'x main_world \<Rightarrow> (i32 \<times> 'x main_world) outcome option" where
  "futex_perftest M w =
     (case me_spawn M T_Futex (w\<lparr>mw_futex_done := False, mw_futex_word := 0\<rparr>) of (worker, w) \<Rightarrow>
      obind (rust_loop (futex_body M (me_clock M w)) (0, w)) (\<lambda>(cycles, w).
        let w = w\<lparr>mw_futex_word := 1\<rparr>;
            w = me_futex M (me_futex_word M) (FUTEX_WAKE OR FUTEX_PRIVATE_FLAG) 1 w
        in obind (join_thread M worker w) (\<lambda>w. Some (Returns (0, w)))))"

subsection \<open>The program\<close>

text \<open>What each thread runs.\<close>

fun thread_code :: "'x main_env \<Rightarrow> main_thread \<Rightarrow> 'x main_world \<Rightarrow> 'x main_world outcome option" where
  "thread_code M T_DemoA = demo_worker_a M"
| "thread_code M T_DemoB = demo_worker_b M"
| "thread_code M T_DemoC = demo_worker_c M"
| "thread_code M T_Futex = futex_worker M"
| "thread_code M T_Blocking = worker_blocking M"
| "thread_code M T_WaitTimeout = worker_wait_timeout M"
| "thread_code M T_Dummy = worker_dummy M"
| "thread_code M (T_Switching worker_id) = worker_switching M worker_id"
| "thread_code M T_Preempted = worker_preempted M"
| "thread_code M T_Exiting = worker_exiting M"
| "thread_code M T_Server = idle_server M"
| "thread_code M T_Perf = perf_worker M"

definition run_full_tests :: "'x main_env \<Rightarrow> 'x main_world \<Rightarrow> 'x main_world outcome option" where
  "run_full_tests M w = me_attempt2_demo M w"

text \<open>\<open>main\<close> with the command line \<open>args\<close>; the result is the exit code.\<close>

definition main_program :: "'x main_env \<Rightarrow> string list \<Rightarrow> 'x main_world \<Rightarrow> (i32 \<times> 'x main_world) outcome option" where
  "main_program M args w =
     (let arg = (if length args > 1 then Some (args ! 1) else None) in
      if arg = Some ''-d'' then run_demo_test M w
      else if arg = Some ''-f'' then futex_perftest M w
      else if arg = Some ''-u'' then Some (Returns (0, w))
      else obind (run_full_tests M w) (\<lambda>w. Some (Returns (0, w))))"

end
