(* ===== verification/Main_Module.thy ===== *)
theory Main_Module
  imports Kernel_Call Main_Program
begin

text \<open>
  The program \<open>main.rs\<close> on the kernel module: its tests of the error paths of the interface
  pass, and its demo never lets a worker run.
\<close>

subsection \<open>A thread alone on the module\<close>

lemma ucast_scast_i32 [simp]: "ucast (scast (x :: i32) :: u64) = x"
  by (rule bit_word_eqI) (auto simp: bit_simps)

lemma ucast_of_int_i32 [simp]: "(ucast (of_int n :: i64) :: i32) = of_int n"
  by (rule bit_word_eqI) (auto simp: bit_simps)

text \<open>No worker, no idle worker and no wake-up is pending, and the thread is not in a call.\<close>

definition undisturbed :: "pid_t \<Rightarrow> kstate \<Rightarrow> bool" where
  "undisturbed t st \<longleftrightarrow> ks_workers st t = None \<and> ks_idle st = [] \<and> \<not> ks_wake st \<and> ks_calls st t = None"

lemma poll_undisturbed:
  "undisturbed t st \<Longrightarrow> 0 < sz \<Longrightarrow> umcg_server_get_events (Some n) 0 sz st = Some (0, if 0 < n then [0] else [], st)"
  by (simp add: undisturbed_def umcg_server_get_events_def writable_def unat_gt_0 word_neq_0_conv)

text \<open>A wait with a timeout, when nothing happens.\<close>

lemma idle_wait_blocks:
  assumes "undisturbed t st" and "1 < sz"
  shows "blockq_check t (OnIdle to (Some n) sz) st =
    Some (None, st\<lparr>ks_calls := (ks_calls st)(t \<mapsto> (OnIdle to (Some n) sz, if 0 < n then [0] else []))\<rparr>)"
proof -
  have "0 < sz" using assms(2) by (meson word_gt_0 le_less_trans word_zero_le)
  with poll_undisturbed [OF assms(1) this] assms(1) show ?thesis
    by (simp add: blockq_check_def blockq_action_def run_action_def umcg_server_wait_bh_def undisturbed_def)
qed

locale alone_on_module =
  fixes M :: "'x main_env" and t :: pid_t and kst :: "'x main_world \<Rightarrow> kstate" and P :: "kenv \<Rightarrow> bool" and e0 :: kenv
  assumes module: "module_kernel MAIN_SYS_UMCG_CTL (alone P) t kst (me_kernel M)" and some_env: "P e0"
begin

lemma env_iff [simp]: "kr_env (alone P) = P"
  by (simp add: alone_def)

text \<open>A call that returns at once, without a buffer or with one.\<close>

lemma main_returns:
  assumes "\<And>e. P e \<Longrightarrow> umcg_ctl e t flags (cmd_u64 cmd) nt arg (map_option length buf) sz (kst w) = Some (Some (rv, ws), st')"
  shows "\<exists>errno w'. main_ctl M flags cmd nt arg buf sz w = (if rv < 0 then -1 else of_int rv, errno, map_option (overwrite ws) buf, w') \<and>
    (rv < 0 \<and> rv \<noteq> - K_ERESTARTSYS \<longrightarrow> errno = of_int (- rv)) \<and> kst w' = st'"
proof -
  let ?a = "\<lparr>a_nr = MAIN_SYS_UMCG_CTL, a_flags = flags, a_cmd = cmd_u64 cmd, a_next_tid = scast nt, a_timeout = arg, a_event_sz = scast sz\<rparr>"
  have c: "ctl_of e t ?a buf (kst w) = Some (Some (rv, ws), st')" if "kr_env (alone P) e" for e
    using assms that by (simp add: ctl_of_def)
  have r: "answers (me_kernel M ?a buf w) rv" "sr_written (me_kernel M ?a buf w) = ws" "kst (sr_world (me_kernel M ?a buf w)) = st'"
    using module_returns [OF module _ _ c, of e0] some_env by simp_all
  then show ?thesis by (auto simp: main_ctl_def Let_def answers_def)
qed

lemma refute_returns:
  assumes "\<And>e. P e \<Longrightarrow> umcg_ctl e t 0 (cmd_u64 cmd) nt arg (map_option length buf) sz (kst w) = Some (Some (- err, ws), st')"
    and "0 < err" and "err < 512"
  shows "\<exists>w'. refute_ctl M cmd nt arg buf sz (of_int err) w = Some (Returns (map_option (overwrite ws) buf, w')) \<and> kst w' = st'"
    and "\<exists>w'. refute_ctl1 M cmd nt arg buf sz (of_int err) w = Some (Returns (map_option (overwrite ws) buf, w')) \<and> kst w' = st'"
  using main_returns [OF assms(1)] assms(2,3) by (auto simp: refute_ctl_def refute_ctl1_def K_ERESTARTSYS_def)

lemma expect_returns:
  assumes "\<And>e. P e \<Longrightarrow> umcg_ctl e t 0 (cmd_u64 cmd) 0 arg None 0 (kst w) = Some (Some (0, []), st')"
  shows "\<exists>w'. expect_ctl M cmd arg w = Some (Returns w') \<and> kst w' = st'"
proof -
  from assms have "umcg_ctl e t 0 (cmd_u64 cmd) 0 arg (map_option length None) 0 (kst w) = Some (Some (0, []), st')" if "P e" for e
    using that by simp
  from main_returns [OF this] show ?thesis by (auto simp: expect_ctl_def)
qed

lemma wait_times_out:
  assumes q: "undisturbed t (kst w)" and arg: "arg \<noteq> 0" "arg \<noteq> 1" and sz: "1 < (scast sz :: u64)" and mem: "\<And>e. P e \<Longrightarrow> ke_mem e"
  shows "\<exists>bl' w'. refute_ctl1 M Cmd_Wait 0 arg (Some bl) sz 110 w = Some (Returns (Some bl', w')) \<and> length bl' = length bl \<and> kst w' = kst w"
proof -
  let ?a = "\<lparr>a_nr = MAIN_SYS_UMCG_CTL, a_flags = 0, a_cmd = cmd_u64 Cmd_Wait, a_next_tid = scast (0 :: i32), a_timeout = arg, a_event_sz = scast sz\<rparr>"
  let ?b = "OnIdle arg (Some (length bl)) (scast sz)" and ?ws = "if bl \<noteq> [] then [0] else []"
  let ?st = "(kst w)\<lparr>ks_calls := (ks_calls (kst w))(t \<mapsto> (?b, ?ws))\<rparr>"
  have "\<not> (scast sz :: u64) < 2" using sz by (simp add: word_less_nat_alt)
  then have c: "ctl_of e t ?a (Some bl) (kst w) = Some (None, ?st)" if "P e" for e
    using q arg mem [OF that] idle_wait_blocks [OF q sz]
    by (simp add: ctl_of_def umcg_ctl_def umcg_wait_def undisturbed_def)
  have calls: "(ks_calls (kst w))(t := None) = ks_calls (kst w)" using q by (auto simp: undisturbed_def)
  have normal: "blockq_action Normal t ?b ?ws ?st \<noteq> Some (Some (rv, ws), st')" for rv ws st'
    using q sz by (auto simp: blockq_action_def run_action_def umcg_server_wait_bh_def umcg_server_get_events_def undisturbed_def)
  have ended: "blockq_action TimedOut t ?b ?ws ?st = Some (Some (- K_ETIMEDOUT, ?ws), kst w)"
    by (simp add: blockq_action_def run_action_def umcg_server_wait_bh_def over_def calls)
  have m: "module_call (alone P) t ?a (Some bl) (kst w) (- K_ETIMEDOUT) ?ws (kst w)"
    by (rule module_call.blocks [OF _ c [OF some_env] _ _ _ ended]) (use some_env arg in \<open>simp_all add: alone_def may_end_def\<close>)
  have u: "rv = - K_ETIMEDOUT \<and> ws = ?ws \<and> st' = kst w" if "module_call (alone P) t ?a (Some bl) (kst w) rv ws st'" for rv ws st'
    using that
  proof (cases rule: module_call.cases)
    case (returns e)
    with c [of e] show ?thesis by simp
  next
    case (blocks e st1 st2 b old flags)
    with c [of e] have b: "st2 = ?st" "b = ?b" "old = ?ws" by (auto simp: alone_def)
    moreover have "flags = TimedOut" using blocks(5,6) normal unfolding b by (cases flags) (auto simp: alone_def)
    ultimately show ?thesis using blocks(6) ended by simp
  qed
  from module_kernelD [OF module _ m] u have "answers (me_kernel M ?a (Some bl) w) (- K_ETIMEDOUT)"
    "sr_written (me_kernel M ?a (Some bl) w) = ?ws" "kst (sr_world (me_kernel M ?a (Some bl) w)) = kst w" by fastforce+
  then show ?thesis by (simp add: refute_ctl1_def main_ctl_def Let_def answers_def K_ETIMEDOUT_def K_ERESTARTSYS_def)
qed

end

text \<open>
  The setting of the tests: allocations succeed, the calling thread exists, the threads 1 and
  999999 do not, no server is idle, and the clock is past the epoch.
\<close>

locale test_setting = alone_on_module +
  assumes env: "P e \<Longrightarrow> ke_mem e \<and> ke_exists e t \<and> \<not> ke_exists e 1 \<and> \<not> ke_exists e 999999 \<and> \<not> ke_woken e"
    and self: "me_gettid M w = t" and clock: "now_nanos M w \<notin> {0, 1}"
begin

lemmas ctl_defs = umcg_ctl_def umcg_register_worker_def umcg_unregister_def umcg_wait_def umcg_ctx_switch_def kreturn_def undisturbed_def

text \<open>Each call the tests make, on an undisturbed module; none changes its state.\<close>

lemma test_calls:
  assumes q: "undisturbed t (kst w)"
  shows "\<exists>w'. expect_ctl M Cmd_RegisterServer 0 w = Some (Returns w') \<and> kst w' = kst w"
    and "\<exists>w'. expect_ctl M Cmd_Unregister 0 w = Some (Returns w') \<and> kst w' = kst w"
    and "\<exists>w'. refute_ctl M Cmd_RegisterWorker 0 UMCG_WORKER_EVENT_MASK None 0 EINVAL w = Some (Returns (None, w')) \<and> kst w' = kst w"
    and "\<exists>w'. refute_ctl1 M Cmd_CtxSwitch t 0 (Some bl) 2 EINVAL w = Some (Returns (Some bl, w')) \<and> kst w' = kst w"
    and "\<exists>w'. refute_ctl1 M Cmd_Wait 0 0 (Some bl) 1 EINVAL w = Some (Returns (Some bl, w')) \<and> kst w' = kst w"
    and "\<exists>bl' w'. refute_ctl1 M Cmd_Wait 0 1 (Some bl) 2 ETIMEDOUT w = Some (Returns (Some bl', w')) \<and> length bl' = length bl \<and> kst w' = kst w"
    and "\<exists>w'. refute_ctl1 M Cmd_Wait 1 0 (Some bl) 0 EINVAL w = Some (Returns (Some bl, w')) \<and> kst w' = kst w"
    and "\<exists>w'. refute_ctl1 M Cmd_Wait 1 0 None 2 EINVAL w = Some (Returns (None, w')) \<and> kst w' = kst w"
    and "\<exists>w'. refute_ctl1 M Cmd_CtxSwitch 1 1 (Some bl) 2 ESRCH w = Some (Returns (Some bl, w')) \<and> kst w' = kst w"
    and "\<exists>w'. refute_ctl1 M Cmd_CtxSwitch 999999 0 (Some bl) 2 ESRCH w = Some (Returns (Some bl, w')) \<and> kst w' = kst w"
    and "\<exists>w'. refute_ctl1 M Cmd_Wake 0 0 None 0 EAGAIN w = Some (Returns (None, w')) \<and> kst w' = kst w"
proof -
  have inv: "EINVAL = of_int K_EINVAL" "ETIMEDOUT = of_int K_ETIMEDOUT" "ESRCH = of_int K_ESRCH" "EAGAIN = of_int K_EAGAIN"
    by (simp_all add: errno_consts ESRCH_def kerrno_defs)
  have pos: "0 < K_EINVAL" "K_EINVAL < 512" "0 < K_ETIMEDOUT" "K_ETIMEDOUT < 512" "0 < K_ESRCH" "K_ESRCH < 512" "0 < K_EAGAIN" "K_EAGAIN < 512"
    by (simp_all add: kerrno_defs)
  show "\<exists>w'. expect_ctl M Cmd_RegisterServer 0 w = Some (Returns w') \<and> kst w' = kst w"
    by (rule expect_returns) (simp add: ctl_defs)
  show "\<exists>w'. expect_ctl M Cmd_Unregister 0 w = Some (Returns w') \<and> kst w' = kst w"
    by (rule expect_returns) (use q in \<open>simp add: ctl_defs\<close>)
  show "\<exists>w'. refute_ctl M Cmd_RegisterWorker 0 UMCG_WORKER_EVENT_MASK None 0 EINVAL w = Some (Returns (None, w')) \<and> kst w' = kst w"
    using refute_returns(1) [where buf = None and cmd = Cmd_RegisterWorker and nt = 0 and arg = UMCG_WORKER_EVENT_MASK and sz = 0 and w = w
        and err = K_EINVAL and ws = "[]" and st' = "kst w"] pos unfolding inv by (simp add: ctl_defs)
  note r = refute_returns(2) [where w = w and st' = "kst w"]
  show "\<exists>w'. refute_ctl1 M Cmd_CtxSwitch t 0 (Some bl) 2 EINVAL w = Some (Returns (Some bl, w')) \<and> kst w' = kst w"
    using r [where buf = "Some bl" and cmd = Cmd_CtxSwitch and nt = t and arg = 0 and sz = 2 and err = K_EINVAL and ws = "[]"] pos q env
    unfolding inv by (simp add: ctl_defs)
  show "\<exists>w'. refute_ctl1 M Cmd_Wait 0 0 (Some bl) 1 EINVAL w = Some (Returns (Some bl, w')) \<and> kst w' = kst w"
    using r [where buf = "Some bl" and cmd = Cmd_Wait and nt = 0 and arg = 0 and sz = 1 and err = K_EINVAL and ws = "[]"] pos q
    unfolding inv by (simp add: ctl_defs)
  show "\<exists>bl' w'. refute_ctl1 M Cmd_Wait 0 1 (Some bl) 2 ETIMEDOUT w = Some (Returns (Some bl', w')) \<and> length bl' = length bl \<and> kst w' = kst w"
    using r [where buf = "Some bl" and cmd = Cmd_Wait and nt = 0 and arg = 1 and sz = 2 and err = K_ETIMEDOUT
        and ws = "if 0 < length bl then [0] else []"] pos q poll_undisturbed [OF q, of 2 "length bl"]
    unfolding inv by (auto simp: umcg_ctl_def umcg_wait_def undisturbed_def)
  show "\<exists>w'. refute_ctl1 M Cmd_Wait 1 0 (Some bl) 0 EINVAL w = Some (Returns (Some bl, w')) \<and> kst w' = kst w"
    using r [where buf = "Some bl" and cmd = Cmd_Wait and nt = 1 and arg = 0 and sz = 0 and err = K_EINVAL and ws = "[]"] pos q
    unfolding inv by (simp add: ctl_defs)
  show "\<exists>w'. refute_ctl1 M Cmd_Wait 1 0 None 2 EINVAL w = Some (Returns (None, w')) \<and> kst w' = kst w"
    using r [where buf = None and cmd = Cmd_Wait and nt = 1 and arg = 0 and sz = 2 and err = K_EINVAL and ws = "[]"] pos q
    unfolding inv by (simp add: ctl_defs)
  show "\<exists>w'. refute_ctl1 M Cmd_CtxSwitch 1 1 (Some bl) 2 ESRCH w = Some (Returns (Some bl, w')) \<and> kst w' = kst w"
    using r [where buf = "Some bl" and cmd = Cmd_CtxSwitch and nt = 1 and arg = 1 and sz = 2 and err = K_ESRCH and ws = "[]"] pos env
    unfolding inv by (simp add: ctl_defs)
  show "\<exists>w'. refute_ctl1 M Cmd_CtxSwitch 999999 0 (Some bl) 2 ESRCH w = Some (Returns (Some bl, w')) \<and> kst w' = kst w"
    using r [where buf = "Some bl" and cmd = Cmd_CtxSwitch and nt = 999999 and arg = 0 and sz = 2 and err = K_ESRCH and ws = "[]"] pos env
    unfolding inv by (simp add: ctl_defs)
  show "\<exists>w'. refute_ctl1 M Cmd_Wake 0 0 None 0 EAGAIN w = Some (Returns (None, w')) \<and> kst w' = kst w"
    using r [where buf = None and cmd = Cmd_Wake and nt = 0 and arg = 0 and sz = 0 and err = K_EAGAIN and ws = "[]"] pos q env
    unfolding inv by (simp add: ctl_defs)
qed

lemma test_wait:
  assumes "undisturbed t (kst w)"
  shows "\<exists>bl' w'. refute_ctl1 M Cmd_Wait 0 (now_nanos M w) (Some bl) 2 ETIMEDOUT w = Some (Returns (Some bl', w')) \<and> kst w' = kst w"
  using wait_times_out [OF assms, where bl = bl and arg = "now_nanos M w" and sz = 2] clock [of w] env by (auto simp: errno_consts)

lemma basic_pass:
  assumes q: "undisturbed t (kst w)"
  shows "\<exists>w'. run_basic_tests M w = Some (Returns w') \<and> kst w' = kst w"
proof -
  have u: "undisturbed t (kst v)" if "kst v = kst w" for v using q that by simp
  note c = test_calls [OF u]
  from c(1) [OF refl] obtain w1 where 1: "expect_ctl M Cmd_RegisterServer 0 w = Some (Returns w1)" and k1: "kst w1 = kst w" by auto
  from c(3) [OF k1] obtain w2 where 2: "refute_ctl M Cmd_RegisterWorker 0 UMCG_WORKER_EVENT_MASK None 0 EINVAL w1 = Some (Returns (None, w2))"
    and k2: "kst w2 = kst w" using k1 by auto
  from c(4) [OF k2, of "[0, 0]"] obtain w3 where 3: "refute_ctl1 M Cmd_CtxSwitch t 0 (Some [0, 0]) 2 EINVAL w2 = Some (Returns (Some [0, 0], w3))"
    and k3: "kst w3 = kst w" using k2 by auto
  from c(2) [OF k3] k3 show ?thesis by (simp add: run_basic_tests_def self 1 2 3 del: event_mask_31)
qed

lemma errors_pass:
  assumes q: "undisturbed t (kst w)"
  shows "\<exists>w'. umcg_test_errors M w = Some (Returns w') \<and> kst w' = kst w"
proof -
  have u: "undisturbed t (kst v)" if "kst v = kst w" for v using q that by simp
  note c = test_calls [OF u] and tm = test_wait [OF u]
  from c(3) [OF refl] obtain w1 where 1: "refute_ctl M Cmd_RegisterWorker 0 UMCG_WORKER_EVENT_MASK None 0 EINVAL w = Some (Returns (None, w1))"
    and k1: "kst w1 = kst w" by auto
  from c(1) [OF k1] obtain w2 where 2: "expect_ctl M Cmd_RegisterServer 0 w1 = Some (Returns w2)" and k2: "kst w2 = kst w" using k1 by auto
  from c(4) [OF k2, of "[0, 0]"] obtain w3 where 3: "refute_ctl1 M Cmd_CtxSwitch t 0 (Some [0, 0]) 2 EINVAL w2 = Some (Returns (Some [0, 0], w3))"
    and k3: "kst w3 = kst w" using k2 by auto
  from c(5) [OF k3, of "[0, 0]"] obtain w4 where 4: "refute_ctl1 M Cmd_Wait 0 0 (Some [0, 0]) 1 EINVAL w3 = Some (Returns (Some [0, 0], w4))"
    and k4: "kst w4 = kst w" using k3 by auto
  from tm [OF k4, of "[0, 0]"] obtain b5 w5 where
    5: "refute_ctl1 M Cmd_Wait 0 (now_nanos M w4) (Some [0, 0]) 2 ETIMEDOUT w4 = Some (Returns (Some b5, w5))"
    and k5: "kst w5 = kst w" using k4 by auto
  from c(6) [OF k5, of b5] obtain b6 w6 where 6: "refute_ctl1 M Cmd_Wait 0 1 (Some b5) 2 ETIMEDOUT w5 = Some (Returns (Some b6, w6))"
    and k6: "kst w6 = kst w" using k5 by auto
  from c(7) [OF k6, of b6] obtain w7 where 7: "refute_ctl1 M Cmd_Wait 1 0 (Some b6) 0 EINVAL w6 = Some (Returns (Some b6, w7))"
    and k7: "kst w7 = kst w" using k6 by auto
  from c(8) [OF k7] obtain w8 where 8: "refute_ctl1 M Cmd_Wait 1 0 None 2 EINVAL w7 = Some (Returns (None, w8))"
    and k8: "kst w8 = kst w" using k7 by auto
  from c(9) [OF k8, of b6] obtain w9 where 9: "refute_ctl1 M Cmd_CtxSwitch 1 1 (Some b6) 2 ESRCH w8 = Some (Returns (Some b6, w9))"
    and k9: "kst w9 = kst w" using k8 by auto
  from c(10) [OF k9, of b6] obtain w10 where 10: "refute_ctl1 M Cmd_CtxSwitch 999999 0 (Some b6) 2 ESRCH w9 = Some (Returns (Some b6, w10))"
    and k10: "kst w10 = kst w" using k9 by auto
  from c(11) [OF k10] obtain w11 where 11: "refute_ctl1 M Cmd_Wake 0 0 None 0 EAGAIN w10 = Some (Returns (None, w11))"
    and k11: "kst w11 = kst w" using k10 by auto
  from c(2) [OF k11] k11 show ?thesis by (simp add: umcg_test_errors_def self 1 2 3 4 5 6 7 8 9 10 11 del: event_mask_31)
qed

end

text \<open>The program alone on the module, thread 7 calling, the state of the module in the world.\<close>

definition test_kenv :: kenv where
  "test_kenv = \<lparr>ke_exists = (\<lambda>u. u = 7), ke_mem = True, ke_now = 0, ke_woken = False\<rparr>"

definition solo_main :: "kstate main_env" where
  "solo_main = \<lparr>me_kernel = solo test_kenv 7 (\<lambda>st w. w\<lparr>mw_ext := st\<rparr>) mw_ext, me_gettid = (\<lambda>_. 7), me_spawn = (\<lambda>_ w. (0, w)),
     me_join = (\<lambda>_ w. Some (True, w)), me_clock = (\<lambda>_. 1000), me_others = (\<lambda>w. w), me_sleep = (\<lambda>_ w. w), me_futex = (\<lambda>_ _ _ w. w),
     me_futex_word = 0, me_futex_clone = 8, me_attempt2_demo = (\<lambda>w. Some (Returns w))\<rparr>"

interpretation solo_test: test_setting solo_main 7 mw_ext "\<lambda>e. e = test_kenv" test_kenv
proof
  show "module_kernel MAIN_SYS_UMCG_CTL (alone (\<lambda>e. e = test_kenv)) 7 mw_ext (me_kernel solo_main)"
    unfolding solo_main_def by (simp add: solo_module)
qed (simp_all add: test_kenv_def solo_main_def now_nanos_def)

text \<open>
  C12: The program's tests of the error paths describe the kernel module. When nothing else
  happens (no other thread calls, no signal arrives) and the setting is as the tests
  expect (memory, no thread 1 or 999999, no idle server or worker), every assertion of
  \<open>umcg_test_errors\<close> and of \<open>run_basic_tests\<close> holds: both return, no assertion panics, and
  the state of the module is the same as before.
\<close>
theorem error_tests_pass:
  assumes "module_kernel MAIN_SYS_UMCG_CTL (alone P) t kst (me_kernel M)" and "P e0"
    and "\<And>e. P e \<Longrightarrow> ke_mem e \<and> ke_exists e t \<and> \<not> ke_exists e 1 \<and> \<not> ke_exists e 999999 \<and> \<not> ke_woken e"
    and "\<And>w. me_gettid M w = t" and "\<And>w. now_nanos M w \<notin> {0, 1}" and "undisturbed t (kst w)"
  shows "(\<exists>w'. umcg_test_errors M w = Some (Returns w') \<and> kst w' = kst w) \<and>
    (\<exists>w'. run_basic_tests M w = Some (Returns w') \<and> kst w' = kst w)"
proof -
  have "test_setting M t kst P e0"
    using assms(1-5) by (intro test_setting.intro alone_on_module.intro test_setting_axioms.intro) simp_all
  from test_setting.errors_pass [OF this assms(6)] test_setting.basic_pass [OF this assms(6)] show ?thesis by blast
qed

definition test_world :: "kstate main_world" where
  "test_world = \<lparr>mw_done = False, mw_count = 0, mw_exit = False, mw_futex_done = False, mw_futex_word = 0, mw_ext = kinit\<rparr>"

theorem error_tests_pass_witness:
  "(\<exists>w'. umcg_test_errors solo_main test_world = Some (Returns w') \<and> mw_ext w' = kinit) \<and>
   (\<exists>w'. run_basic_tests solo_main test_world = Some (Returns w') \<and> mw_ext w' = kinit)"
  using error_tests_pass [OF solo_test.module solo_test.some_env solo_test.env solo_test.self solo_test.clock, of test_world]
  by (simp add: undisturbed_def test_world_def kinit_def)

subsection \<open>A demo without context switches\<close>

text \<open>Two kernels that differ at most in their answers to context switches.\<close>

definition same_but_switch :: "'w kernel \<Rightarrow> 'w kernel \<Rightarrow> bool" where
  "same_but_switch K K' \<longleftrightarrow> (\<forall>a buf w. a_cmd a \<noteq> cmd_u64 Cmd_CtxSwitch \<longrightarrow> K' a buf w = K a buf w)"

lemma same_main_ctl:
  assumes "same_but_switch (me_kernel M) K'" and "cmd \<noteq> Cmd_CtxSwitch"
  shows "main_ctl (M\<lparr>me_kernel := K'\<rparr>) flags cmd nt arg buf sz w = main_ctl M flags cmd nt arg buf sz w"
proof -
  have "cmd_u64 cmd \<noteq> cmd_u64 Cmd_CtxSwitch" using assms(2) by (cases cmd) simp_all
  with assms(1) show ?thesis by (simp add: main_ctl_def same_but_switch_def)
qed

lemma same_expect_ctl:
  "same_but_switch (me_kernel M) K' \<Longrightarrow> cmd \<noteq> Cmd_CtxSwitch \<Longrightarrow> expect_ctl (M\<lparr>me_kernel := K'\<rparr>) cmd arg w = expect_ctl M cmd arg w"
  by (simp add: expect_ctl_def same_main_ctl)

lemma same_wait_retry:
  assumes "same_but_switch (me_kernel M) K'"
  shows "main_wait_retry (M\<lparr>me_kernel := K'\<rparr>) wid buf sz w = main_wait_retry M wid buf sz w"
proof -
  have "main_wait_retry_body (M\<lparr>me_kernel := K'\<rparr>) wid sz = main_wait_retry_body M wid sz"
    by (simp add: main_wait_retry_body_def same_main_ctl [OF assms])
  then show ?thesis by (simp add: main_wait_retry_def)
qed

lemma same_yield: "same_but_switch (me_kernel M) K' \<Longrightarrow> umcg_yield (M\<lparr>me_kernel := K'\<rparr>) w = umcg_yield M w"
  by (simp add: umcg_yield_def expect_wait_def same_wait_retry)

lemma same_demo_workers:
  assumes "same_but_switch (me_kernel M) K'"
  shows "demo_worker_a (M\<lparr>me_kernel := K'\<rparr>) w = demo_worker_a M w" and "demo_worker_b (M\<lparr>me_kernel := K'\<rparr>) w = demo_worker_b M w"
    and "demo_worker_c (M\<lparr>me_kernel := K'\<rparr>) w = demo_worker_c M w"
proof -
  let ?M = "M\<lparr>me_kernel := K'\<rparr>"
  have reg: "register_self ?M w = register_self M w" for w by (simp add: register_self_def same_expect_ctl [OF assms])
  have leave: "leave_demo ?M = leave_demo M" by (rule ext) (simp add: leave_demo_def same_expect_ctl [OF assms])
  have a: "demo_worker_a_body ?M = demo_worker_a_body M"
    by (rule ext) (simp add: demo_worker_a_body_def same_yield [OF assms] Let_def split: prod.split)
  have b: "demo_sleep_body ?M secs = demo_sleep_body M secs" for secs by (rule ext) (simp add: demo_sleep_body_def Let_def)
  show "demo_worker_a ?M w = demo_worker_a M w" by (simp add: demo_worker_a_def reg leave a)
  show "demo_worker_b ?M w = demo_worker_b M w" by (simp add: demo_worker_b_def reg leave b)
  show "demo_worker_c ?M w = demo_worker_c M w" by (simp add: demo_worker_c_def reg leave b)
qed

lemma same_demo:
  assumes "same_but_switch (me_kernel M) K'"
  shows "run_demo_test (M\<lparr>me_kernel := K'\<rparr>) w = run_demo_test M w"
proof -
  let ?M = "M\<lparr>me_kernel := K'\<rparr>"
  have e: "elapsed ?M start w = elapsed M start w" for start w by (simp add: elapsed_def)
  have "run_demo_body ?M start = run_demo_body M start" for start
    by (intro ext) (unfold run_demo_body_def Let_def same_wait_retry [OF assms] e, simp)
  moreover have "spawn_worker ?M f = spawn_worker M f" for f by (rule ext) (simp add: spawn_worker_def)
  moreover have "join_all ?M hs = join_all M hs" for hs
  proof (induction hs)
    case Nil
    show ?case by (rule ext) simp
  next
    case (Cons h hs)
    then show ?case by (intro ext) (simp add: join_thread_def)
  qed
  ultimately show ?thesis by (simp add: run_demo_test_def same_expect_ctl [OF assms] split_def)
qed

text \<open>Steps of the module when no thread asks for a context switch: no worker ever leaves its place.\<close>

inductive parked_step :: "bool \<Rightarrow> kstate \<Rightarrow> kstate \<Rightarrow> bool" for interrupts :: bool where
  call: "may_call st t \<Longrightarrow> cmd \<noteq> cmd_u64 Cmd_CtxSwitch \<Longrightarrow>
    umcg_ctl e t flags cmd next_tid abs_timeout events event_sz st = Some (r, st') \<Longrightarrow> parked_step interrupts st st'"
| hook: "khook interrupts st st' \<Longrightarrow> parked_step interrupts st st'"

definition at_rest :: "kstatus \<Rightarrow> bool" where
  "at_rest s \<longleftrightarrow> s = K_Runnable \<or> (\<exists>b. s = K_Idle b)"

lemma at_rest_simps [simp]: "at_rest K_Runnable" "at_rest (K_Idle b)" "\<not> at_rest K_Running" "\<not> at_rest K_Paused" "\<not> at_rest K_Blocked"
  "\<not> at_rest K_Waiting"
  by (simp_all add: at_rest_def)

definition parked :: "kstate \<Rightarrow> bool" where
  "parked st \<longleftrightarrow> (\<forall>t w. ks_workers st t = Some w \<longrightarrow> at_rest (kw_status w))"

lemma parkedD: "parked st \<Longrightarrow> ks_workers st t = Some w \<Longrightarrow> at_rest (kw_status w)"
  by (simp add: parked_def)

lemma parked_step_kstep: "parked_step i st st' \<Longrightarrow> kstep i st st'"
  by (induction rule: parked_step.induct) (auto intro: kstep.intros)

lemma parked_no_worker: "parked st \<Longrightarrow> may_call st t \<Longrightarrow> ks_workers st t = None"
  by (cases "ks_workers st t") (fastforce simp: parked_def may_call_def)+

lemma parked_frames [simp]: "parked (st\<lparr>ks_calls := y\<rparr>) = parked st" "parked (st\<lparr>ks_wake := x\<rparr>) = parked st"
  "parked (set_syscall_return t v st) = parked st" "parked (free_slot c st) = parked st"
  by (simp_all add: parked_def free_slot_def)

lemma parked_get_events:
  assumes "umcg_server_get_events events k sz st = Some (rv, ws, st')" and "kinv st" and "parked st"
  shows "parked st'"
proof -
  from assms(2) have "distinct (ks_idle st)" by (simp add: kinv_defs)
  with assms(1) obtain us where us: "st' = st\<lparr>ks_idle := ks_idle st', ks_workers := runnable us (ks_workers st)\<rparr>"
    by (rule get_events_result)
  have "ks_workers st' = runnable us (ks_workers st)" by (subst us) simp
  with assms(3) show ?thesis by (auto simp: parked_def runnable_def split: if_splits)
qed

lemma parked_action:
  assumes "blockq_action flags t b old st = Some (r, st')" and "kinv st" and "parked st"
  shows "parked st'" and "b = Sleeping \<Longrightarrow> r = None"
proof -
  have "parked (bh_state x) \<and> (b = Sleeping \<longrightarrow> (\<exists>ws st1. x = StillBlocked ws st1))" if "run_action flags t b st = Some x" for x
  proof (cases b)
    case Sleeping
    have "x = StillBlocked [] st"
    proof (cases "ks_workers st t")
      case (Some w)
      have "kw_status w \<noteq> K_Running" using parkedD [OF assms(3) Some] by auto
      with that Sleeping Some show ?thesis by (simp add: run_action_def sleep_bh_def)
    qed (use that Sleeping in \<open>simp add: run_action_def sleep_bh_def\<close>)
    with assms(3) show ?thesis by (simp add: bh_state_def)
  next
    case (OnWorker w)
    with that assms(3) show ?thesis by (auto simp: run_action_def umcg_server_wait_worker_bh_def bh_state_def split: option.splits if_splits)
  next
    case (OnIdle timeout events sz)
    with that assms(2,3) show ?thesis
      by (auto simp: run_action_def umcg_server_wait_bh_def bh_state_def dest: parked_get_events split: option.splits if_splits)
  next
    case (OnSwitch c events sz)
    with that assms(2,3) show ?thesis
      by (auto simp: run_action_def umcg_server_ctx_switch_bh_def bh_state_def Let_def dest: parked_get_events split: option.splits if_splits)
  qed
  note x = this
  from assms(1) have "parked st' \<and> (b = Sleeping \<longrightarrow> r = None)"
  proof (cases rule: action_cases)
    case (finished rv ws st1)
    with x [OF finished(1)] show ?thesis by (simp add: bh_state_def)
  next
    case (blocked ws st1)
    with x [OF blocked(1)] show ?thesis by (simp add: bh_state_def)
  qed
  then show "parked st'" "b = Sleeping \<Longrightarrow> r = None" by simp_all
qed

lemma parked_wait:
  assumes "umcg_wait e t nt to events sz st = Some (r, st')" and k: "kinv st" and p: "parked st" and m: "may_call st t"
  shows "parked st'"
proof -
  have None: "ks_workers st t = None" using parked_no_worker [OF p m] .
  consider (same) "st' = st"
    | (worker) nx where "ks_workers st nt = Some nx"
        "blockq_action Normal t (OnWorker nt) [] (set_worker nt (nx\<lparr>kw_bq := Some t\<rparr>) st) = Some (r, st')"
    | (poll) rv ws where "umcg_server_get_events events 0 sz st = Some (rv, ws, st')"
    | (idle) "blockq_action Normal t (OnIdle to events sz) [] st = Some (r, st')"
    using assms(1) None by (auto simp: umcg_wait_def kreturn_def blockq_check_def split: option.splits if_splits)
  then show ?thesis
  proof cases
    case worker
    have "nt \<in> set (ks_idle st) \<Longrightarrow> \<exists>b. kw_status nx = K_Idle b" using k worker(1) by (fastforce simp: kinv_defs)
    then have "kinv (set_worker nt (nx\<lparr>kw_bq := Some t\<rparr>) st)" using k kinv_idD [OF k worker(1)] by (intro set_worker_kinv) auto
    moreover have "parked (set_worker nt (nx\<lparr>kw_bq := Some t\<rparr>) st)" using p worker(1) by (auto simp: parked_def)
    ultimately show ?thesis using parked_action(1) [OF worker(2)] by blast
  qed (use p k parked_get_events parked_action(1) in blast)+
qed

lemma parked_keeps:
  assumes "parked_step i st st'" and k: "kinv st" and p: "parked st"
  shows "parked st'"
  using assms(1)
proof cases
  case (call t cmd e flags nt to events sz r)
  have none: "ks_workers st t = None" by (rule parked_no_worker [OF p call(1)])
  consider "st' = st" | x where "st' = st\<lparr>ks_wake := x\<rparr>" | "umcg_register_worker e t to st = Some (r, st')"
    | "umcg_wait e t nt to events (scast sz) st = Some (r, st')"
    using call(2,3) none by (auto simp: umcg_ctl_def kreturn_def umcg_unregister_def split: if_splits)
  then show ?thesis
  proof cases
    case 3
    then have "ks_workers st' = ks_workers st \<or> (\<exists>w. ks_workers st' = (ks_workers st)(t \<mapsto> w) \<and> kw_status w = K_Idle False)"
      by (auto simp: umcg_register_worker_def kreturn_def thread_maybe_sleep_uninterruptible_def umcg_worker_event_idle_def
          split: if_splits)
    with p show ?thesis unfolding parked_def by (auto split: if_splits)
  next
    case 4
    then show ?thesis using parked_wait [OF _ k p call(1)] by blast
  qed (use p in auto)
next
  case hook
  then show ?thesis
  proof cases
    case (pause t w sc)
    with parkedD [OF p, of t] show ?thesis by auto
  next
    case (schedule t w interval e)
    with parkedD [OF p, of t] show ?thesis by auto
  next
    case (action t b old flags r)
    then show ?thesis using parked_action(1) [OF _ k p] by blast
  next
    case (syscall_pause t)
    then have "st' = st" using parkedD [OF p, of t] by (auto simp: umcg_syscall_pause_def split: option.splits if_splits)
    with p show ?thesis by simp
  next
    case (timeout t w)
    with p show ?thesis by (auto simp: umcg_worker_timeout_def Let_def umcg_worker_event_idle_def parked_def)
  next
    case (free t)
    with parked_no_worker [OF p] p show ?thesis by (simp add: umcg_worker_thread_free_def umcg_unregister_def)
  qed
qed

lemma parked_reach:
  assumes "(parked_step i)\<^sup>*\<^sup>* kinit st"
  shows "kinv st \<and> parked st"
  using assms
proof (induction rule: rtranclp_induct)
  case base
  show ?case using kreach_kinv [OF kreach.init] by (simp add: parked_def kinit_def)
next
  case (step st st')
  then show ?case using parked_keeps kstep_kinv parked_step_kstep by blast
qed

text \<open>
  C22: The demo (option \<open>-d\<close>) never lets one of its workers run. Neither the demo's server nor
  its three workers ever ask for a context switch: their behaviour does not depend on how
  the kernel answers one. And as long as no thread asks for one, no worker of the module
  gets past its registration: every registered worker stays idle or runnable, and its
  call to register, which sleeps until a switch to it, does not return.
\<close>
theorem demo_never_runs_workers:
  assumes "same_but_switch (me_kernel M) K'" and "(parked_step i)\<^sup>*\<^sup>* kinit st"
  shows "run_demo_test (M\<lparr>me_kernel := K'\<rparr>) w = run_demo_test M w \<and>
    (\<forall>th \<in> {T_DemoA, T_DemoB, T_DemoC}. thread_code (M\<lparr>me_kernel := K'\<rparr>) th w = thread_code M th w) \<and>
    (\<forall>t wk. ks_workers st t = Some wk \<longrightarrow> kw_status wk = K_Runnable \<or> (\<exists>b. kw_status wk = K_Idle b)) \<and>
    (\<forall>t flags old r st'. blockq_action flags t Sleeping old st = Some (r, st') \<longrightarrow> r = None)"
proof -
  from parked_reach [OF assms(2)] have k: "kinv st" and p: "parked st" by simp_all
  have "\<forall>t flags old r st'. blockq_action flags t Sleeping old st = Some (r, st') \<longrightarrow> r = None"
    using parked_action(2) [OF _ k p refl] by blast
  with same_demo [OF assms(1)] same_demo_workers [OF assms(1)] p show ?thesis unfolding parked_def at_rest_def by simp
qed

theorem demo_never_runs_workers_witness:
  "(\<exists>w. ks_workers kst1 4 = Some w \<and> kw_status w \<noteq> K_Running) \<and> blockq_action Normal 4 Sleeping [] kst1 \<noteq> Some (Some (0, []), kst1)"
proof -
  have "parked_step True kinit kst1"
    by (rule parked_step.call [OF _ _ run_register]) (simp_all add: may_call_def kinit_def)
  then have r: "(parked_step True)\<^sup>*\<^sup>* kinit kst1" by simp
  have "same_but_switch (me_kernel solo_main) (me_kernel solo_main)" by (simp add: same_but_switch_def)
  from demo_never_runs_workers [OF this r] have "\<forall>flags old r st'. blockq_action flags 4 Sleeping old kst1 = Some (r, st') \<longrightarrow> r = None"
    by blast
  moreover have "\<exists>w. ks_workers kst1 4 = Some w \<and> kw_status w \<noteq> K_Running" by (simp add: kst1_def kworker4_def)
  ultimately show ?thesis by blast
qed

end
