(* ===== verification/Lib_Worker.thy ===== *)
theory Lib_Worker
  imports Lib_Handler
begin

text \<open>
  The worker threads of \<open>src/lib.rs\<close> (\<open>WorkerThread::start\<close>): registration, the loop over
  the channel, and unregistration. Every system call is asserted to succeed, and its flags
  argument is the number of the server.
\<close>

subsection \<open>\<open>WorkerThread::start\<close>\<close>

record WorkerThread =
  wt_id :: usize
  wt_tid :: pid_t
  wt_server_id :: usize
  wt_cpu_id :: usize

definition WorkerThread_new :: "usize \<Rightarrow> usize \<Rightarrow> usize \<Rightarrow> WorkerThread" where
  "WorkerThread_new i server_id cpu_id = \<lparr>wt_id = i, wt_tid = 0, wt_server_id = server_id, wt_cpu_id = cpu_id\<rparr>"

text \<open>
  The receiver of the channel, which the server fills, and the rest of the world. \<open>te_run\<close>
  runs a task: it may change the world, panic, or never return (\<open>None\<close>).
\<close>

record ('f, 'x) thread_world =
  tw_rx :: "'f Task mpsc"
  tw_ext :: 'x

record ('f, 'x) thread_env =
  te_kernel :: "('f, 'x) thread_world kernel"
  te_run :: "'f \<Rightarrow> ('f, 'x) thread_world \<Rightarrow> ('f, 'x) thread_world outcome option"
  te_affinity :: "usize \<Rightarrow> ('f, 'x) thread_world \<Rightarrow> i32 \<times> ('f, 'x) thread_world"
  te_gettid :: "('f, 'x) thread_world \<Rightarrow> pid_t"

definition assert_ctl ::
  "('f, 'x) thread_env \<Rightarrow> u64 \<Rightarrow> UmcgCmd \<Rightarrow> u64 \<Rightarrow> ('f, 'x) thread_world \<Rightarrow> ('f, 'x) thread_world outcome" where
  "assert_ctl W flags cmd abs_timeout w =
     (case sys_umcg_ctl (te_kernel W) flags cmd 0 abs_timeout None 0 w of
        (result, _, _, w') \<Rightarrow> if result = 0 then Returns w' else Panics)"

definition thread_wait ::
  "('f, 'x) thread_env \<Rightarrow> WorkerThread \<Rightarrow> ('f, 'x) thread_world \<Rightarrow> ('f, 'x) thread_world + ('f, 'x) thread_world outcome" where
  "thread_wait W self w =
     (case assert_ctl W (wt_server_id self) Cmd_Wait 0 w of Panics \<Rightarrow> Inr Panics | Returns w' \<Rightarrow> Inl w')"

definition thread_body ::
  "('f, 'x) thread_env \<Rightarrow> WorkerThread \<Rightarrow> ('f, 'x) thread_world \<Rightarrow>
   (('f, 'x) thread_world + ('f, 'x) thread_world outcome) option" where
  "thread_body W self w =
     (case mpsc_try_recv (tw_rx w) of
        (RecvOk (Function task), rx) \<Rightarrow>
          (case te_run W task (w\<lparr>tw_rx := rx\<rparr>) of
             None \<Rightarrow> None
           | Some Panics \<Rightarrow> Some (Inr Panics)
           | Some (Returns w') \<Rightarrow> Some (thread_wait W self w'))
      | (RecvOk Shutdown, rx) \<Rightarrow> Some (Inr (Returns (w\<lparr>tw_rx := rx\<rparr>)))
      | (RecvEmpty, rx) \<Rightarrow> Some (thread_wait W self (w\<lparr>tw_rx := rx\<rparr>))
      | (RecvDisconnected, rx) \<Rightarrow> Some (Inr (Returns (w\<lparr>tw_rx := rx\<rparr>))))"

definition thread_start ::
  "('f, 'x) thread_env \<Rightarrow> WorkerThread \<Rightarrow> ('f, 'x) thread_world \<Rightarrow> (WorkerThread \<times> ('f, 'x) thread_world) outcome option" where
  "thread_start W self w =
     (case set_cpu_affinity (te_affinity W) (wt_cpu_id self) w of
        (_, w0) \<Rightarrow>
          let self' = self\<lparr>wt_tid := te_gettid W w0\<rparr> in
          (case assert_ctl W 0 Cmd_RegisterWorker (worker_id_of (wt_tid self')) w0 of
             Panics \<Rightarrow> Some Panics
           | Returns w1 \<Rightarrow>
               (case rust_loop (thread_body W self') w1 of
                  None \<Rightarrow> None
                | Some Panics \<Rightarrow> Some Panics
                | Some (Returns w2) \<Rightarrow>
                    (case assert_ctl W (wt_server_id self') Cmd_Unregister 0 w2 of
                       Panics \<Rightarrow> Some Panics
                     | Returns w3 \<Rightarrow> Some (Returns (self', w3))))))"

subsection \<open>A kernel that accepts every call\<close>

locale accepting_kernel =
  fixes W :: "('f, 'x) thread_env" and run :: "'f \<Rightarrow> 'x \<Rightarrow> 'x" and ctl :: "u64 \<Rightarrow> UmcgCmd \<Rightarrow> u64 \<Rightarrow> 'x \<Rightarrow> 'x"
  assumes ctl_ok: "assert_ctl W flags cmd arg w = Returns (w\<lparr>tw_ext := ctl flags cmd arg (tw_ext w)\<rparr>)"
    and run_ok: "te_run W t w = Some (Returns (w\<lparr>tw_ext := run t (tw_ext w)\<rparr>))"
    and affinity_quiet: "snd (te_affinity W c w) = w"
begin

definition run_then_wait :: "u64 \<Rightarrow> 'f \<Rightarrow> 'x \<Rightarrow> 'x" where
  "run_then_wait flags t x = ctl flags Cmd_Wait 0 (run t x)"

lemma thread_loop_runs:
  assumes "mpsc_buf (tw_rx w) = map Function ts @ Shutdown # ms"
  shows "rust_loop (thread_body W self) w = Some (Returns (w\<lparr>tw_rx := (tw_rx w)\<lparr>mpsc_buf := ms\<rparr>,
    tw_ext := fold (run_then_wait (wt_server_id self)) ts (tw_ext w)\<rparr>))"
  using assms
proof (induction ts arbitrary: w)
  case Nil
  then show ?case by (simp add: rust_loop_break thread_body_def mpsc_try_recv_def)
next
  case (Cons t ts)
  let ?w = "w\<lparr>tw_rx := (tw_rx w)\<lparr>mpsc_buf := map Function ts @ Shutdown # ms\<rparr>,
    tw_ext := run_then_wait (wt_server_id self) t (tw_ext w)\<rparr>"
  have "rust_loop (thread_body W self) w = rust_loop (thread_body W self) ?w"
    by (rule rust_loop_continue)
       (use Cons.prems in \<open>simp add: thread_body_def mpsc_try_recv_def run_ok thread_wait_def ctl_ok run_then_wait_def\<close>)
  also have "\<dots> = Some (Returns (?w\<lparr>tw_rx := (tw_rx ?w)\<lparr>mpsc_buf := ms\<rparr>,
      tw_ext := fold (run_then_wait (wt_server_id self)) ts (tw_ext ?w)\<rparr>))"
    by (rule Cons.IH) simp
  finally show ?case by simp
qed

lemma thread_start_runs:
  assumes "mpsc_buf (tw_rx w) = map Function ts @ Shutdown # ms"
  shows "thread_start W self w = Some (Returns (self\<lparr>wt_tid := te_gettid W w\<rparr>, w\<lparr>tw_rx := (tw_rx w)\<lparr>mpsc_buf := ms\<rparr>,
    tw_ext := ctl (wt_server_id self) Cmd_Unregister 0 (fold (run_then_wait (wt_server_id self)) ts
      (ctl 0 Cmd_RegisterWorker (worker_id_of (te_gettid W w)) (tw_ext w)))\<rparr>))"
proof -
  obtain r where a: "set_cpu_affinity (te_affinity W) (wt_cpu_id self) w = (r, w)"
    using affinity_quiet [of "wt_cpu_id self" w] by (cases "te_affinity W (wt_cpu_id self) w") (simp add: set_cpu_affinity_def)
  let ?w = "w\<lparr>tw_ext := ctl 0 Cmd_RegisterWorker (worker_id_of (te_gettid W w)) (tw_ext w)\<rparr>"
  have "mpsc_buf (tw_rx ?w) = map Function ts @ Shutdown # ms" using assms by simp
  from thread_loop_runs [OF this] show ?thesis by (simp add: thread_start_def a Let_def ctl_ok)
qed

end

text \<open>A log of tasks, and of system calls with their flags and commands.\<close>

definition log_thread :: "(nat, (nat + u64 \<times> u64) list) thread_env" where
  "log_thread = \<lparr>te_kernel = (\<lambda>args buf w. \<lparr>sr_ret = 0, sr_errno = 0, sr_written = [],
       sr_world = w\<lparr>tw_ext := tw_ext w @ [Inr (a_flags args, a_cmd args)]\<rparr>\<rparr>),
     te_run = (\<lambda>t w. Some (Returns (w\<lparr>tw_ext := tw_ext w @ [Inl t]\<rparr>))),
     te_affinity = (\<lambda>c w. (0, w)), te_gettid = (\<lambda>w. 4)\<rparr>"

interpretation log_thread: accepting_kernel log_thread "\<lambda>t x. x @ [Inl t]" "\<lambda>flags cmd arg x. x @ [Inr (flags, cmd_u64 cmd)]"
  by unfold_locales (simp_all add: log_thread_def assert_ctl_def sys_umcg_ctl_def umcg_syscall_def Let_def)

subsection \<open>A kernel that checks the flags\<close>

text \<open>
  The kernel module knows one flag, which only waits take: a wait with any other flag, and
  an unregistration with any flag, is refused.
\<close>

definition checks_flags :: "'w kernel \<Rightarrow> bool" where
  "checks_flags K \<longleftrightarrow> (\<forall>args buf w. a_nr args = SYS_UMCG_CTL \<longrightarrow>
     (a_cmd args = cmd_u64 Cmd_Unregister \<and> a_flags args \<noteq> 0 \<longrightarrow> sr_ret (K args buf w) = -1) \<and>
     (a_cmd args = cmd_u64 Cmd_Wait \<and> a_flags args AND NOT UMCG_WAIT_FLAG_INTERRUPTED \<noteq> 0 \<longrightarrow> sr_ret (K args buf w) = -1))"

lemma refused:
  assumes "checks_flags (te_kernel W)"
  shows "flags \<noteq> 0 \<Longrightarrow> assert_ctl W flags Cmd_Unregister arg w = Panics"
    and "flags AND NOT UMCG_WAIT_FLAG_INTERRUPTED \<noteq> 0 \<Longrightarrow> assert_ctl W flags Cmd_Wait arg w = Panics"
  using assms unfolding checks_flags_def
  by (auto simp: assert_ctl_def sys_umcg_ctl_def umcg_syscall_def Let_def)

lemma unregister_refused:
  assumes "checks_flags (te_kernel W)" and "wt_server_id self \<noteq> 0"
  shows "thread_start W self w \<noteq> Some (Returns r)"
  using refused(1) [OF assms]
  by (auto simp: thread_start_def Let_def split: prod.splits outcome.splits option.splits)

lemma wait_refused:
  assumes "checks_flags (te_kernel W)" and "wt_server_id self AND NOT UMCG_WAIT_FLAG_INTERRUPTED \<noteq> 0"
  shows "thread_wait W self w = Inr Panics"
  using refused(2) [OF assms] by (simp add: thread_wait_def)

lemma other_flag:
  assumes "1 < (x :: u64)"
  shows "x AND NOT UMCG_WAIT_FLAG_INTERRUPTED \<noteq> 0"
proof
  assume "x AND NOT UMCG_WAIT_FLAG_INTERRUPTED = 0"
  moreover have "x = (x AND 1) OR (x AND NOT 1)" by (rule bit_word_eqI) (auto simp: bit_simps)
  ultimately have "x = x AND 1" by (simp add: UMCG_WAIT_FLAG_INTERRUPTED_def)
  then have "x \<le> 1" using word_and_le1 [of x 1] by simp
  with assms show False by simp
qed

text \<open>
  So no worker of a server other than the first ever ends normally, whatever it is sent: its
  unregistration is refused and the assertion panics. A worker of a server from number 2 on
  panics already at its first wait, after one task or on an empty channel.
\<close>

lemma flags_panic:
  assumes "checks_flags (te_kernel W)" and "wt_server_id self \<noteq> 0"
  shows "(\<forall>r. thread_start W self w \<noteq> Some (Returns r)) \<and>
    (1 < wt_server_id self \<longrightarrow>
       (mpsc_buf (tw_rx w) = [] \<and> mpsc_tx (tw_rx w) \<longrightarrow> thread_body W self w = Some (Inr Panics)) \<and>
       (\<forall>t ms w'. mpsc_buf (tw_rx w) = Function t # ms \<and>
          te_run W t (w\<lparr>tw_rx := (tw_rx w)\<lparr>mpsc_buf := ms\<rparr>\<rparr>) = Some (Returns w') \<longrightarrow>
          thread_body W self w = Some (Inr Panics)))"
proof (intro conjI impI allI)
  show "thread_start W self w \<noteq> Some (Returns r)" for r by (rule unregister_refused [OF assms])
  assume "1 < wt_server_id self"
  then have "wt_server_id self AND NOT UMCG_WAIT_FLAG_INTERRUPTED \<noteq> 0"
    by (rule other_flag)
  note wait = wait_refused [OF assms(1) this]
  show "thread_body W self w = Some (Inr Panics)" if "mpsc_buf (tw_rx w) = [] \<and> mpsc_tx (tw_rx w)"
    using that wait by (simp add: thread_body_def mpsc_try_recv_def)
  show "thread_body W self w = Some (Inr Panics)"
    if "mpsc_buf (tw_rx w) = Function t # ms \<and> te_run W t (w\<lparr>tw_rx := (tw_rx w)\<lparr>mpsc_buf := ms\<rparr>\<rparr>) = Some (Returns w')" for t ms w'
    using that wait by (simp add: thread_body_def mpsc_try_recv_def)
qed

subsection \<open>Properties\<close>



end
