(* ===== verification/Lib_Module.thy ===== *)
theory Lib_Module
  imports Kernel_Call Lib_Worker
begin

text \<open>
  The scheduler of \<open>lib.rs\<close> on the kernel module, if the module is registered under the
  number that \<open>umcg_base.rs\<close> calls: what the module's checks and the shape of its answers
  mean for the worker threads and for the event handler.
\<close>

subsection \<open>The flags of the worker threads\<close>

lemma module_checks_flags:
  assumes m: "module_kernel SYS_UMCG_CTL R t kst K" and e0: "kr_env R e0"
  shows "checks_flags K"
  unfolding checks_flags_def
proof (intro allI impI)
  fix a :: sysargs and buf w
  assume nr: "a_nr a = SYS_UMCG_CTL"
  have "sr_ret (K a buf w) = -1" if "\<And>e. ctl_of e t a buf (kst w) = kreturn (- K_EINVAL) (kst w)"
  proof -
    have "answers (K a buf w) (- K_EINVAL)" using that by (intro module_returns(1) [OF m nr e0]) (simp add: kreturn_def)
    then show ?thesis by (simp add: answers_def K_EINVAL_def)
  qed
  then show "(a_cmd a = cmd_u64 Cmd_Unregister \<and> a_flags a \<noteq> 0 \<longrightarrow> sr_ret (K a buf w) = -1) \<and>
    (a_cmd a = cmd_u64 Cmd_Wait \<and> a_flags a AND NOT UMCG_WAIT_FLAG_INTERRUPTED \<noteq> 0 \<longrightarrow> sr_ret (K a buf w) = -1)"
    by (simp add: ctl_of_def umcg_ctl_def)
qed

subsection \<open>The context switches of the handler\<close>

lemma module_not_quiet:
  assumes m: "module_kernel SYS_UMCG_CTL R t kst (le_kernel E)" and R: "others_act i t R" and reach: "kreach i (kst w)"
    and may: "may_call (kst w) t" and server: "ks_workers (kst w) t = None"
    and ret: "\<exists>rv ws st'. module_call R t (switch_args tid) (Some [0, 0]) (kst w) rv ws st'"
  shows "\<not> switch_quiet E tid w"
proof -
  let ?r = "le_kernel E (switch_args tid) (Some [0, 0]) w"
  have nr: "a_nr (switch_args tid) = SYS_UMCG_CTL" by (simp add: switch_args_def)
  from ret obtain rv ws st' where "module_call R t (switch_args tid) (Some [0, 0]) (kst w) rv ws st'" by blast
  from module_kernelD [OF m nr this] obtain rv where a: "answers ?r rv"
    and c: "module_call R t (switch_args tid) (Some [0, 0]) (kst w) rv (sr_written ?r) (kst (sr_world ?r))" .
  have ctl: "sys_umcg_ctl (le_kernel E) 0 Cmd_CtxSwitch tid 0 (Some [0, 0]) 2 w =
      (ucast (sr_ret ?r), sr_errno ?r, Some (overwrite (sr_written ?r) [0, 0]), sr_world ?r)"
    by (simp add: sys_umcg_ctl_def umcg_syscall_def switch_args_def Let_def)
  from module_switch [OF c R reach may server] show ?thesis
  proof
    assume "rv < 0"
    with a have "(ucast (sr_ret ?r) :: i32) \<noteq> 0" by (simp add: answers_def)
    with ctl show ?thesis by (simp add: switch_quiet_def)
  next
    assume "rv = 0 \<and> (\<exists>v. sr_written ?r = [v, 0] \<and> v \<noteq> 0)"
    then obtain v where "sr_written ?r = [v, 0]" "v \<noteq> 0" by blast
    with ctl show ?thesis by (simp add: switch_quiet_def overwrite_def)
  qed
qed

subsection \<open>Properties\<close>

text \<open>
  C21: On the kernel module no worker thread of \<open>lib.rs\<close> that belongs to a server other than the
  first ever ends normally, whatever it is sent and whatever other threads do: it passes the
  number of its server as flags, the module refuses them at the unregistration, and the
  assertion panics. From server number 2 on the worker panics already at its first wait,
  after one task or on an empty channel.
\<close>
theorem module_flags_panic:
  assumes "module_kernel SYS_UMCG_CTL R t kst (te_kernel W)" and "kr_env R e" and "wt_server_id self \<noteq> 0"
  shows "(\<forall>r. thread_start W self w \<noteq> Some (Returns r)) \<and>
    (1 < wt_server_id self \<longrightarrow>
       (mpsc_buf (tw_rx w) = [] \<and> mpsc_tx (tw_rx w) \<longrightarrow> thread_body W self w = Some (Inr Panics)) \<and>
       (\<forall>f ms w'. mpsc_buf (tw_rx w) = Function f # ms \<and>
          te_run W f (w\<lparr>tw_rx := (tw_rx w)\<lparr>mpsc_buf := ms\<rparr>\<rparr>) = Some (Returns w') \<longrightarrow>
          thread_body W self w = Some (Inr Panics)))"
  by (rule flags_panic [OF module_checks_flags [OF assms(1,2)] assms(3)])

definition module_thread :: "(nat, kstate) thread_env" where
  "module_thread = \<lparr>te_kernel = solo kenv0 4 (\<lambda>st w. w\<lparr>tw_ext := st\<rparr>) tw_ext, te_run = (\<lambda>t w. Some (Returns w)),
     te_affinity = (\<lambda>c w. (0, w)), te_gettid = (\<lambda>w. 4)\<rparr>"

theorem module_flags_panic_witness:
  "(\<forall>w r. thread_start module_thread (WorkerThread_new 5 1 0) w \<noteq> Some (Returns r)) \<and>
   thread_body module_thread (WorkerThread_new 8 2 0) \<lparr>tw_rx = mpsc_channel, tw_ext = kst4\<rparr> = Some (Inr Panics)"
proof -
  have m: "module_kernel SYS_UMCG_CTL (alone (\<lambda>e. e = kenv0)) 4 tw_ext (te_kernel module_thread)"
    by (simp add: module_thread_def solo_module)
  have e: "kr_env (alone (\<lambda>e. e = kenv0)) kenv0" by (simp add: alone_def)
  show ?thesis
    using module_flags_panic [OF m e, of "WorkerThread_new 5 1 0"]
      module_flags_panic [OF m e, of "WorkerThread_new 8 2 0" "\<lparr>tw_rx = mpsc_channel, tw_ext = kst4\<rparr>"]
    by (simp add: WorkerThread_new_def mpsc_channel_def)
qed

text \<open>
  C13: On the kernel module the event handler of \<open>lib.rs\<close> always locks itself out when it assigns
  the next task to a worker that was running. In a reachable state of the module, whatever
  other threads do during the context switch, the switch fails or reports an event of the
  worker, never nothing; so the handler goes on to lock the pool a second time and never
  returns, whenever the switch itself returns.
\<close>
theorem module_deadlock:
  assumes "event_type e = event_u64 Ev_Wake" and "ls_pool s (worker_tid e) = Some w"
    and "w_status w = Running" and "w_current_task w = Some task_id" and "\<not> ls_locked s"
    and "get_next_task (le_queue E) (remove_in_progress task_id (lw_queue (ls_world s))) = (Some t, tq)"
    and "te_state t = TS_Pending f" and "lw_channels (ls_world s) (worker_tid e) = Some tx"
    and world: "y = (ls_world s)\<lparr>lw_queue := mark_in_progress (te_id t) (worker_tid e) (le_now E ((ls_world s)\<lparr>lw_queue := tq\<rparr>)) tq,
           lw_channels := (lw_channels (ls_world s))(worker_tid e \<mapsto> tx\<lparr>mpsc_buf := mpsc_buf tx @ [Function f]\<rparr>)\<rparr>"
    and "module_kernel SYS_UMCG_CTL R srv kst (le_kernel E)" and "others_act i srv R" and "kreach i (kst y)"
    and "may_call (kst y) srv" and "ks_workers (kst y) srv = None"
    and "\<exists>rv ws st'. module_call R srv (switch_args (worker_tid e)) (Some [0, 0]) (kst y) rv ws st'"
  shows "handle_umcg_event E e s = None"
  using wake_running_None_iff [OF assms(1-8)] module_not_quiet [OF assms(10-15)] unfolding world by simp

text \<open>A server whose worker 4 the module has not reported yet: the switch is refused.\<close>

definition module_env :: "(nat \<times> nat TaskEntry list, nat, kstate) lib_env" where
  "module_env = \<lparr>le_kernel = solo kenv0 9 (\<lambda>st w. w\<lparr>lw_ext := st\<rparr>) lw_ext, le_queue = list_queue, le_order = (\<lambda>p. []),
     le_now = (\<lambda>w. 0), le_affinity = (\<lambda>c w. (0, w)), le_spawn = (\<lambda>w. (4, w)), le_others = (\<lambda>w. w)\<rparr>"

definition module_server :: "(nat \<times> nat TaskEntry list, nat, kstate) lib_server" where
  "module_server = \<lparr>ls_id = 0, ls_cpu_id = 0,
     ls_pool = [4 \<mapsto> \<lparr>w_id = 0, w_tid = 4, w_status = Running, w_current_task = Some 1, w_server_id = 0\<rparr>],
     ls_total_workers = 1, ls_locked = False,
     ls_world = \<lparr>lw_queue = \<lparr>tq_pending = (10, [TaskEntry_new 2 0 7]), tq_preempted = (10, []), tq_in_progress = Map.empty\<rparr>,
       lw_channels = [4 \<mapsto> mpsc_channel], lw_done = False, lw_ext = kst1\<rparr>\<rparr>"

theorem module_deadlock_witness: "handle_umcg_event module_env 130 module_server = None"
proof -
  let ?R = "alone (\<lambda>e. e = kenv0)" and ?tq = "\<lparr>tq_pending = (10, []), tq_preempted = (10, []), tq_in_progress = Map.empty\<rparr>"
  have nxt: "get_next_task (le_queue module_env) (remove_in_progress 1 (lw_queue (ls_world module_server))) = (Some (TaskEntry_new 2 0 7), ?tq)"
    by (simp add: module_env_def module_server_def remove_in_progress_def get_next_task_def)
  have m: "module_kernel SYS_UMCG_CTL ?R 9 lw_ext (le_kernel module_env)" by (simp add: module_env_def solo_module)
  have o: "others_act True 9 ?R"
    by (auto simp: others_act_def alone_def may_end_def split: bflags.splits kblock.splits)
  let ?y = "(ls_world module_server)\<lparr>lw_queue := mark_in_progress 2 4 0 ?tq,
    lw_channels := (lw_channels (ls_world module_server))(4 \<mapsto> mpsc_channel\<lparr>mpsc_buf := mpsc_buf mpsc_channel @ [Function 7]\<rparr>)\<rparr>"
  have k0: "lw_ext (ls_world module_server) = kst1" by (simp add: module_server_def)
  then have k: "lw_ext ?y = kst1" by simp
  have "ctl_of kenv0 9 (switch_args 4) (Some [0, 0]) kst1 = Some (Some (- K_EINVAL, []), kst1)"
    by (simp add: ctl_of_def switch_args_def umcg_ctl_def umcg_ctx_switch_def kreturn_def kst_defs)
  then have c: "\<exists>rv ws st'. module_call ?R 9 (switch_args (worker_tid 130)) (Some [0, 0]) (lw_ext ?y) rv ws st'"
    unfolding k wake_4 by (intro exI module_call.returns) (simp_all add: alone_def)
  have p: "ls_pool module_server (worker_tid 130) = Some \<lparr>w_id = 0, w_tid = 4, w_status = Running, w_current_task = Some 1, w_server_id = 0\<rparr>"
    "\<not> ls_locked module_server" "lw_channels (ls_world module_server) (worker_tid 130) = Some mpsc_channel"
    by (simp_all add: module_server_def wake_4)
  have t: "te_state (TaskEntry_new 2 0 7) = TS_Pending 7" "te_id (TaskEntry_new 2 0 7) = 2" by (simp_all add: TaskEntry_new_def)
  have s: "may_call kst1 9" "ks_workers kst1 9 = None" by (simp_all add: may_call_def kst_defs)
  show ?thesis
    by (rule module_deadlock [OF wake_4(1) p(1) _ _ p(2) nxt t(1) p(3) _ m o _ _ _ c])
      (simp_all add: k0 kreach_run s t(2) wake_4 module_env_def fun_upd_def)
qed

end
