(* ===== verification/Kernel_Owner.thy ===== *)
theory Kernel_Owner
  imports Kernel_Call
begin

text \<open>
  Which worker an event that the kernel module reports belongs to, when the programs use the
  module as \<open>attempt2.rs\<close> does: a worker registers with the id made of its own thread id, and
  only threads that are not workers ask for context switches.

  An abstract machine keeps what matters for this: the id and the cell of every worker, and
  the cells. Every step of the module is a step of this machine or leaves its state alone,
  and on the machine a cell has one worker for its whole life.
\<close>

subsection \<open>Programs that follow the rules\<close>

definition obeys :: "kstate \<Rightarrow> pid_t \<Rightarrow> u64 \<Rightarrow> u64 \<Rightarrow> bool" where
  "obeys st t cmd abs_timeout \<longleftrightarrow>
     (cmd = cmd_u64 Cmd_RegisterWorker \<longrightarrow> abs_timeout = worker_id_of t) \<and>
     (cmd = cmd_u64 Cmd_CtxSwitch \<longrightarrow> ks_workers st t = None)"

inductive prog_step :: "bool \<Rightarrow> kstate \<Rightarrow> kstate \<Rightarrow> bool" for interrupts :: bool where
  call: "may_call st t \<Longrightarrow> obeys st t cmd abs_timeout \<Longrightarrow>
    umcg_ctl e t flags cmd next_tid abs_timeout events event_sz st = Some (r, st') \<Longrightarrow> prog_step interrupts st st'"
| hook: "khook interrupts st st' \<Longrightarrow> prog_step interrupts st st'"

inductive prog_reach :: "bool \<Rightarrow> kstate \<Rightarrow> bool" for interrupts :: bool where
  init: "prog_reach interrupts kinit"
| step: "prog_reach interrupts st \<Longrightarrow> prog_step interrupts st st' \<Longrightarrow> prog_reach interrupts st'"

lemma prog_step_kstep: "prog_step i st st' \<Longrightarrow> kstep i st st'"
  by (induction rule: prog_step.induct) (auto intro: kstep.intros)

lemma prog_reach_kreach: "prog_reach i st \<Longrightarrow> kreach i st"
  by (induction rule: prog_reach.induct) (auto intro: kreach.intros prog_step_kstep)

subsection \<open>The abstract machine\<close>

record owners =
  o_worker :: "pid_t \<Rightarrow> (u64 \<times> nat option) option"
  o_cell :: "nat \<Rightarrow> u64 option"
  o_next :: nat

definition own_kinds :: "UmcgEventType set" where
  "own_kinds = {Ev_Block, Ev_Wait, Ev_Exit, Ev_Preempt}"

definition own_init :: owners where
  "own_init = \<lparr>o_worker = Map.empty, o_cell = Map.empty, o_next = 0\<rparr>"

text \<open>Only threads of a set \<open>A\<close> register; in the module these are the threads that are not in a call.\<close>

inductive own_step :: "pid_t set \<Rightarrow> owners \<Rightarrow> owners \<Rightarrow> bool" for A :: "pid_t set" where
  register: "t \<in> A \<Longrightarrow> o_worker w t = None \<Longrightarrow> own_step A w (w\<lparr>o_worker := (o_worker w)(t \<mapsto> (worker_id_of t, None))\<rparr>)"
| switch: "o_worker w t = Some (i, p) \<Longrightarrow>
    own_step A w (w\<lparr>o_worker := (o_worker w)(t \<mapsto> (i, Some (o_next w))), o_cell := (o_cell w)(o_next w \<mapsto> 0), o_next := o_next w + 1\<rparr>)"
| send: "o_worker w t = Some (i, Some c) \<Longrightarrow> ev \<in> own_kinds \<Longrightarrow>
    own_step A w (w\<lparr>o_cell := (o_cell w)(c \<mapsto> i OR event_u64 ev)\<rparr>)"
| leave: "o_worker w t = Some (i, Some c) \<Longrightarrow>
    own_step A w (w\<lparr>o_worker := (o_worker w)(t := None), o_cell := (o_cell w)(c \<mapsto> i OR event_u64 Ev_Exit)\<rparr>)"
| free: "own_step A w (w\<lparr>o_cell := (o_cell w)(c := None)\<rparr>)"

definition owners_of :: "kstate \<Rightarrow> owners" where
  "owners_of st = \<lparr>o_worker = (\<lambda>t. map_option (\<lambda>w. (kw_id w, kw_slot w)) (ks_workers st t)),
     o_cell = ks_slots st, o_next = ks_next st\<rparr>"

text \<open>A state of the module that may follow another one.\<close>

definition simulated :: "pid_t set \<Rightarrow> kstate \<Rightarrow> kstate \<Rightarrow> bool" where
  "simulated A st st' \<longleftrightarrow> owners_of st' = owners_of st \<or> own_step A (owners_of st) (owners_of st')"

lemma owners_frames [simp]:
  "owners_of (set_syscall_return t v st) = owners_of st" "owners_of (st\<lparr>ks_wake := x\<rparr>) = owners_of st"
  "owners_of (st\<lparr>ks_calls := y\<rparr>) = owners_of st" "owners_of (st\<lparr>ks_idle := i\<rparr>) = owners_of st"
  by (simp_all add: owners_of_def set_syscall_return_def)

lemma owners_simps [simp]:
  "o_worker (owners_of st) t = map_option (\<lambda>w. (kw_id w, kw_slot w)) (ks_workers st t)"
  "o_cell (owners_of st) = ks_slots st" "o_next (owners_of st) = ks_next st"
  by (simp_all add: owners_of_def)

lemma owners_set_worker:
  "owners_of (set_worker t w st) = (owners_of st)\<lparr>o_worker := (o_worker (owners_of st))(t \<mapsto> (kw_id w, kw_slot w))\<rparr>"
  by (simp add: owners_of_def set_worker_def fun_eq_iff)

lemma owners_same [simp]:
  "ks_workers st t = Some w \<Longrightarrow> kw_id w' = kw_id w \<Longrightarrow> kw_slot w' = kw_slot w \<Longrightarrow> owners_of (set_worker t w' st) = owners_of st"
  by (auto simp: owners_of_def set_worker_def fun_eq_iff)

lemma owners_idle [simp]:
  "ks_workers st t = Some w \<Longrightarrow> kw_id w' = kw_id w \<Longrightarrow> kw_slot w' = kw_slot w \<Longrightarrow>
     owners_of (umcg_worker_event_idle t w' ev st) = owners_of st"
  by (simp add: umcg_worker_event_idle_def owners_of_def set_worker_def fun_eq_iff)

lemma owners_get_events:
  assumes "umcg_server_get_events events k sz st = Some (rv, ws, st')" and "kinv st"
  shows "owners_of st' = owners_of st"
proof -
  from assms(2) have "distinct (ks_idle st)" by (simp add: kinv_defs)
  from get_events_result [OF assms(1) this] obtain us where
    st': "st' = st\<lparr>ks_idle := ks_idle st', ks_workers := runnable us (ks_workers st)\<rparr>" by blast
  have "owners_of (st\<lparr>ks_idle := i, ks_workers := runnable us (ks_workers st)\<rparr>) = owners_of st" for i
    by (auto simp: owners_of_def runnable_def fun_eq_iff option.map_comp comp_def)
  with st' show ?thesis by metis
qed

lemma simulated_refl [simp]: "simulated A st st"
  by (simp add: simulated_def)

subsection \<open>Every step of the module is simulated\<close>

lemma send_simulated:
  assumes "umcg_worker_event_to_server w ev st1 = Some st'" and "ks_workers st t = Some w" and "owners_of st1 = owners_of st"
    and "ev \<in> own_kinds"
  shows "simulated A st st'"
proof -
  from assms(1) obtain c where c: "kw_slot w = Some c" "st' = st1\<lparr>ks_slots := (ks_slots st1)(c \<mapsto> event_word w ev)\<rparr>"
    by (auto simp: to_server_Some)
  have "ks_slots st1 = ks_slots st" using arg_cong [OF assms(3), of o_cell] by simp
  then have "owners_of st' = (owners_of st)\<lparr>o_cell := (o_cell (owners_of st))(c \<mapsto> kw_id w OR event_u64 ev)\<rparr>"
    unfolding assms(3) [symmetric] c(2) by (simp add: owners_of_def event_word_def)
  moreover have "o_worker (owners_of st) t = Some (kw_id w, Some c)" using assms(2) c(1) by simp
  ultimately show ?thesis using own_step.send [OF _ assms(4)] unfolding simulated_def by metis
qed

lemma unregister_simulated:
  assumes "umcg_unregister t st = Some st'"
  shows "simulated A st st'"
proof (cases "ks_workers st t")
  case (Some w)
  with assms obtain c where c: "kw_slot w = Some c"
    "st' = st\<lparr>ks_workers := (ks_workers st)(t := None), ks_slots := (ks_slots st)(c \<mapsto> event_word w Ev_Exit)\<rparr>"
    by (auto simp: umcg_unregister_def to_server_Some)
  have "owners_of st' = (owners_of st)\<lparr>o_worker := (o_worker (owners_of st))(t := None),
      o_cell := (o_cell (owners_of st))(c \<mapsto> kw_id w OR event_u64 Ev_Exit)\<rparr>"
    unfolding c(2) by (simp add: owners_of_def event_word_def fun_eq_iff del: event_u64.simps)
  moreover have "o_worker (owners_of st) t = Some (kw_id w, Some c)" using Some c(1) by simp
  ultimately show ?thesis using own_step.leave unfolding simulated_def by metis
qed (use assms in \<open>simp add: umcg_unregister_def\<close>)

lemma action_simulated:
  assumes "blockq_action flags t b old st = Some (r, st')" and "kinv st"
  shows "simulated A st st'"
proof -
  have run: "simulated A st (bh_state x)" if x: "run_action flags t b st = Some x" for x
  proof (cases "\<exists>c ev sz. b = OnSwitch c ev sz")
    case True
    then obtain c ev sz where b: "b = OnSwitch c ev sz" by blast
    have f: "simulated A st (free_slot c st1)" if "owners_of st1 = owners_of st" for st1
    proof -
      have "owners_of (free_slot c st1) = (owners_of st)\<lparr>o_cell := (o_cell (owners_of st))(c := None)\<rparr>"
        unfolding that [symmetric] by (simp add: owners_of_def free_slot_def)
      then show ?thesis using own_step.free unfolding simulated_def by metis
    qed
    from x assms(2) show ?thesis
      by (auto simp: b run_action_def umcg_server_ctx_switch_bh_def bh_state_def
          intro!: f dest!: owners_get_events split: if_splits option.splits)
  next
    case False
    with x assms(2) have "owners_of (bh_state x) = owners_of st"
      by (auto simp: run_action_def sleep_bh_def umcg_server_wait_worker_bh_def umcg_server_wait_bh_def bh_state_def
          dest!: owners_get_events split: kblock.splits if_splits option.splits)
    then show ?thesis by (simp add: simulated_def)
  qed
  show ?thesis
    using assms(1)
  proof (cases rule: action_cases)
    case (finished rv ws st1)
    with run [OF finished(1)] show ?thesis by (simp add: bh_state_def simulated_def)
  next
    case (blocked ws st1)
    with run [OF blocked(1)] show ?thesis by (simp add: bh_state_def simulated_def)
  qed
qed

lemma wait_simulated:
  assumes "umcg_wait e t nt to events sz st = Some (r, st')" and "kinv st"
  shows "simulated A st st'"
proof (cases "ks_workers st t")
  case None
  consider (same) "st' = st"
    | (worker) nx where "ks_workers st nt = Some nx"
        "blockq_action Normal t (OnWorker nt) [] (set_worker nt (nx\<lparr>kw_bq := Some t\<rparr>) st) = Some (r, st')"
    | (poll) rv ws where "umcg_server_get_events events 0 sz st = Some (rv, ws, st')"
    | (idle) "blockq_action Normal t (OnIdle to events sz) [] st = Some (r, st')"
    using assms(1) None by (auto simp: umcg_wait_def kreturn_def blockq_check_def split: option.splits if_splits)
  then show ?thesis
  proof cases
    case worker
    then have "owners_of st' = owners_of st"
      by (auto simp: blockq_action_def run_action_def umcg_server_wait_worker_bh_def split: if_splits)
    then show ?thesis by (simp add: simulated_def)
  next
    case poll
    from owners_get_events [OF this assms(2)] show ?thesis by (simp add: simulated_def)
  next
    case idle
    from action_simulated [OF this assms(2)] show ?thesis .
  qed simp
next
  case (Some w)
  let ?w = "w\<lparr>kw_status := K_Waiting, kw_timer := kw_timer w \<or> to \<noteq> 0\<rparr>"
  consider (same) "st' = st" | (send) st1 where "umcg_worker_event_to_server w Ev_Wait
      (set_syscall_return t 0 (set_worker t ?w st)) = Some st1" "thread_maybe_sleep_uninterruptible t st1 = Some (r, st')"
    using assms(1) Some by (auto simp: umcg_wait_def kreturn_def bind_eq_Some_conv split: if_splits)
  then show ?thesis
  proof cases
    case send
    have "simulated A st st1" by (rule send_simulated [OF send(1) Some]) (simp_all add: Some own_kinds_def)
    with send(2) show ?thesis by (auto simp: thread_maybe_sleep_uninterruptible_def simulated_def)
  qed simp
qed

lemma server_switch_simulated:
  assumes "umcg_ctx_switch e t nt to events sz st = Some (r, st')" and "ks_workers st t = None"
  shows "simulated A st st'"
proof -
  consider (same) "st' = st" | (start) nx where "ks_workers st nt = Some nx"
      "blockq_check t (OnSwitch (ks_next st) events sz)
        (set_worker nt (nx\<lparr>kw_status := K_Running, kw_start := ke_now e, kw_bq := Some t, kw_slot := Some (ks_next st), kw_timer := False\<rparr>)
          (st\<lparr>ks_slots := (ks_slots st)(ks_next st \<mapsto> 0), ks_next := ks_next st + 1\<rparr>)) = Some (r, st')"
    using assms by (auto simp: umcg_ctx_switch_def kreturn_def Let_def split: option.splits if_splits)
  then show ?thesis
  proof cases
    case start
    then have "owners_of st' = (owners_of st)\<lparr>o_worker := (o_worker (owners_of st))(nt \<mapsto> (kw_id nx, Some (o_next (owners_of st)))),
        o_cell := (o_cell (owners_of st))(o_next (owners_of st) \<mapsto> 0), o_next := o_next (owners_of st) + 1\<rparr>"
      by (auto simp: switch_blocks owners_set_worker) (simp add: owners_of_def)
    moreover have "o_worker (owners_of st) nt = Some (kw_id nx, kw_slot nx)" using start(1) by simp
    ultimately show ?thesis using own_step.switch unfolding simulated_def by metis
  qed simp
qed

lemma register_simulated:
  assumes "umcg_register_worker e t (worker_id_of t) st = Some (r, st')" and "t \<in> A"
  shows "simulated A st st'"
proof -
  have "owners_of st' = owners_of st \<or> ks_workers st t = None \<and>
      owners_of st' = (owners_of st)\<lparr>o_worker := (o_worker (owners_of st))(t \<mapsto> (worker_id_of t, None))\<rparr>"
    using assms(1)
    by (auto simp: umcg_register_worker_def kreturn_def thread_maybe_sleep_uninterruptible_def umcg_worker_event_idle_def
        owners_set_worker split: if_splits)
  then show ?thesis using own_step.register [of t A "owners_of st"] assms(2) by (auto simp: simulated_def)
qed

lemma ctl_simulated:
  assumes "umcg_ctl e t flags cmd nt to events sz st = Some (r, st')" and "obeys st t cmd to" and "kinv st" and "t \<in> A"
  shows "simulated A st st'"
proof -
  consider (same) "owners_of st' = owners_of st"
    | (register) "cmd = cmd_u64 Cmd_RegisterWorker" "umcg_register_worker e t to st = Some (r, st')"
    | (unregister) "umcg_unregister t st = Some st'"
    | (wait) "umcg_wait e t nt to events (scast sz) st = Some (r, st')"
    | (switch) "cmd = cmd_u64 Cmd_CtxSwitch" "umcg_ctx_switch e t nt to events (scast sz) st = Some (r, st')"
    using assms(1) by (auto simp: umcg_ctl_def kreturn_def bind_eq_Some_conv split: if_splits)
  then show ?thesis
  proof cases
    case same
    then show ?thesis by (simp add: simulated_def)
  next
    case register
    with assms(2,4) show ?thesis by (intro register_simulated) (simp_all add: obeys_def)
  next
    case unregister
    then show ?thesis by (rule unregister_simulated)
  next
    case wait
    then show ?thesis using assms(3) by (rule wait_simulated)
  next
    case switch
    with assms(2) show ?thesis by (intro server_switch_simulated) (simp_all add: obeys_def)
  qed
qed

lemma hook_simulated:
  assumes "khook i st st'" and "kinv st"
  shows "simulated A st st'"
  using assms
proof (induction rule: khook.induct)
  case (action st t b old flags r st')
  then show ?case using action_simulated by blast
next
  case (pause st t worker sc st')
  then show ?case by (auto simp: umcg_worker_pause_def simulated_def split: if_splits)
next
  case (syscall_pause t st st')
  show ?case
  proof (cases "\<exists>w. ks_workers st t = Some w \<and> kw_status w = K_Paused")
    case True
    then obtain w where w: "ks_workers st t = Some w" "kw_status w = K_Paused" by blast
    with syscall_pause show ?thesis
      by (intro send_simulated [of w Ev_Block "set_worker t (w\<lparr>kw_status := K_Blocked, kw_bq := None\<rparr>) st" _ _ t])
        (simp_all add: umcg_syscall_pause_def own_kinds_def)
  qed (use syscall_pause in \<open>auto simp: umcg_syscall_pause_def split: option.splits if_splits\<close>)
next
  case (schedule st t worker interval e st')
  show ?case
  proof (cases "kw_status worker \<noteq> K_Blocked \<and> ke_now e \<ge> kw_start worker + interval")
    case True
    with schedule show ?thesis
      by (intro send_simulated [of worker Ev_Preempt "set_worker t (worker\<lparr>kw_status := K_Runnable\<rparr>) st" _ _ t])
        (simp_all add: umcg_worker_schedule_return_def own_kinds_def)
  next
    case False
    with schedule have "owners_of st' = owners_of st"
      by (auto simp: umcg_worker_schedule_return_def split: if_splits)
    then show ?thesis by (simp add: simulated_def)
  qed
next
  case (timeout st t worker)
  then have "owners_of (umcg_worker_timeout t worker st) = owners_of st"
    by (simp add: umcg_worker_timeout_def Let_def)
  then show ?case by (simp add: simulated_def)
next
  case (free st t st')
  then show ?case unfolding umcg_worker_thread_free_def by (intro unregister_simulated) simp
qed

lemma prog_step_simulated: "prog_step i st st' \<Longrightarrow> kinv st \<Longrightarrow> simulated {t. ks_calls st t = None} st st'"
  by (induction rule: prog_step.induct) (auto simp: may_call_def intro: ctl_simulated hook_simulated)

subsection \<open>A cell has one worker\<close>

text \<open>Ids are those of the threads, and pointers lead to cells that have been allocated.\<close>

definition own_inv :: "owners \<Rightarrow> bool" where
  "own_inv w \<longleftrightarrow> (\<forall>t i p. o_worker w t = Some (i, p) \<longrightarrow> i = worker_id_of t \<and> (\<forall>c. p = Some c \<longrightarrow> c < o_next w))"

text \<open>Cell \<open>c\<close> belongs to worker \<open>t\<close>: no other worker points to it, and what it holds came from \<open>t\<close>.\<close>

definition cell_of :: "nat \<Rightarrow> pid_t \<Rightarrow> owners \<Rightarrow> bool" where
  "cell_of c t w \<longleftrightarrow> c < o_next w \<and> (\<forall>u i. o_worker w u = Some (i, Some c) \<longrightarrow> u = t) \<and>
     (\<forall>v. o_cell w c = Some v \<longrightarrow> v = 0 \<or> (\<exists>ev \<in> own_kinds. v = worker_id_of t OR event_u64 ev))"

lemma own_step_inv: "own_step A w w' \<Longrightarrow> own_inv w \<Longrightarrow> own_inv w'"
  by (induction rule: own_step.induct) (auto simp: own_inv_def less_Suc_eq split: if_splits)

lemma own_step_cell:
  assumes "own_step A w w'" and "own_inv w" and "cell_of c t w"
  shows "cell_of c t w'"
  using assms
proof (induction rule: own_step.induct)
  case (send w u i d ev)
  then have "d = c \<Longrightarrow> u = t \<and> i = worker_id_of t" by (auto simp: cell_of_def own_inv_def)
  with send show ?case by (auto simp: cell_of_def)
next
  case (leave w u i d)
  then show ?case by (auto simp: cell_of_def own_inv_def own_kinds_def split: if_splits simp del: event_u64.simps)
qed (auto simp: cell_of_def own_inv_def split: if_splits)

lemma switch_cell:
  assumes "own_inv w" and "o_worker w t = Some (i, p)"
  shows "cell_of (o_next w) t (w\<lparr>o_worker := (o_worker w)(t \<mapsto> (i, Some (o_next w))), o_cell := (o_cell w)(o_next w \<mapsto> 0), o_next := o_next w + 1\<rparr>)"
  using assms by (auto simp: cell_of_def own_inv_def)

lemma prog_reach_own: "prog_reach i st \<Longrightarrow> own_inv (owners_of st)"
proof (induction rule: prog_reach.induct)
  case init
  show ?case by (simp add: own_inv_def kinit_def)
next
  case (step st st')
  from prog_step_simulated [OF step(2) kreach_kinv [OF prog_reach_kreach [OF step(1)]]] step(3) show ?case
    by (auto simp: simulated_def intro: own_step_inv)
qed

lemma prog_step_cell:
  assumes "prog_step i st st'" and "prog_reach i st" and "cell_of c t (owners_of st)"
  shows "cell_of c t (owners_of st')"
  using prog_step_simulated [OF assms(1) kreach_kinv [OF prog_reach_kreach [OF assms(2)]]] assms(3) prog_reach_own [OF assms(2)]
  by (auto simp: simulated_def intro: own_step_cell)

text \<open>A thread that is in a call does not become a worker.\<close>

lemma own_step_workers: "own_step A w w' \<Longrightarrow> o_worker w t = None \<Longrightarrow> t \<notin> A \<Longrightarrow> o_worker w' t = None"
  by (induction rule: own_step.induct) auto

lemma prog_step_workers:
  assumes "prog_step i st st'" and "prog_reach i st" and "ks_calls st t \<noteq> None" and "ks_workers st t = None"
  shows "ks_workers st' t = None"
proof -
  have "o_worker (owners_of st') t = None"
    using prog_step_simulated [OF assms(1) kreach_kinv [OF prog_reach_kreach [OF assms(2)]]] assms(3,4)
      own_step_workers [of _ "owners_of st" "owners_of st'" t]
    by (auto simp: simulated_def simp del: owners_simps(1)) (simp_all add: owners_of_def)
  then show ?thesis by simp
qed

end
