(* ===== verification/Kernel_Idle.thy ===== *)
theory Kernel_Idle
  imports Kernel_Owner
begin

text \<open>
  What a wait on the kernel module reports to a server when only threads that are not workers
  ask for context switches: \<open>WAKE\<close> and \<open>TIMEOUT\<close> events of registered workers, and nothing else.
\<close>

subsection \<open>The words of one report\<close>

definition idle_kinds :: "UmcgEventType set" where
  "idle_kinds = {Ev_Wake, Ev_Timeout}"

lemma get_events_loop_words:
  assumes "get_events_loop events k rv sz ts m = Some (r, ws, sz', ts', m')" and "distinct ts" and "v \<in> set ws"
  shows "\<exists>t wk. m t = Some wk \<and> v \<in> {event_word wk (kw_event wk), event_word wk Ev_Timeout}"
  using assms
proof (induction ts arbitrary: k rv sz m ws)
  case (Cons t ts)
  show ?case
  proof (cases "sz \<le> 1")
    case False
    with Cons.prems obtain wk where wk: "m t = Some wk" by (cases "m t") auto
    let ?m = "m(t \<mapsto> wk\<lparr>kw_status := K_Runnable\<rparr>)"
    have more: ?thesis if "get_events_loop events k' rv' s' ts ?m = Some (r, ws1, sz', ts', m')" "v \<in> set ws1" for k' rv' s' ws1
    proof -
      from Cons.IH [OF that(1) _ that(2)] Cons.prems(2) obtain u wu where
        "?m u = Some wu" "v \<in> {event_word wu (kw_event wu), event_word wu Ev_Timeout}" by auto
      moreover have "event_word wu = event_word wk \<and> kw_event wu = kw_event wk" if "u = t"
        using calculation(1) that by (auto simp: event_word_def fun_eq_iff)
      ultimately show ?thesis using wk by (cases "u = t") auto
    qed
    from Cons.prems(1,3) False wk consider "v \<in> {event_word wk (kw_event wk), event_word wk Ev_Timeout}"
      | k' rv' s' ws1 where "get_events_loop events k' rv' s' ts ?m = Some (r, ws1, sz', ts', m')" "v \<in> set ws1"
      by (auto simp: Let_def split: if_splits)
    then show ?thesis using more wk by cases blast+
  qed (use Cons.prems in auto)
qed simp

lemma get_events_loop_none:
  assumes "get_events_loop events k rv sz ts m = Some (0, ws, sz', ts', m')" and "0 \<le> rv"
  shows "ws = [] \<and> rv = 0"
  using assms
proof (induction ts arbitrary: k rv sz m ws)
  case (Cons t ts)
  show ?case
  proof (cases "sz \<le> 1")
    case False
    with Cons.prems obtain wk where wk: "m t = Some wk" by (cases "m t") auto
    have more: False if "get_events_loop events k' rv' s' ts m1 = Some (0, ws1, sz', ts', m')" "0 < rv'" for k' rv' s' m1 ws1
      using Cons.IH [OF that(1)] that(2) by simp
    from Cons.prems False wk show ?thesis
      by (auto simp: Let_def K_EFAULT_def split: if_splits) (use more Cons.prems(2) in force)+
  qed (use Cons.prems in auto)
qed simp

subsection \<open>The invariant\<close>

text \<open>The last idle event of a worker, and what a blocked wait has written so far.\<close>

definition tame :: "kstate \<Rightarrow> bool" where
  "tame st \<longleftrightarrow> (\<forall>t wk. ks_workers st t = Some wk \<longrightarrow> kw_event wk \<in> idle_kinds) \<and>
     (\<forall>t to ev sz old. ks_calls st t = Some (OnIdle to ev sz, old) \<longrightarrow> set old \<subseteq> {0})"

definition quiet_block :: "kblock \<Rightarrow> u64 list \<Rightarrow> bool" where
  "quiet_block b old \<longleftrightarrow> (\<forall>to ev sz. b = OnIdle to ev sz \<longrightarrow> set old \<subseteq> {0})"

lemma tame_frames [simp]:
  "tame (st\<lparr>ks_wake := y\<rparr>) = tame st" "tame (st\<lparr>ks_slots := z\<rparr>) = tame st" "tame (st\<lparr>ks_next := n\<rparr>) = tame st"
  "tame (st\<lparr>ks_idle := u\<rparr>) = tame st" "tame (set_syscall_return t v st) = tame st" "tame (free_slot c st) = tame st"
  by (simp_all add: tame_def set_syscall_return_def free_slot_def)

lemma tame_calls:
  "tame st \<Longrightarrow> tame st' \<Longrightarrow> tame (st\<lparr>ks_calls := (ks_calls st')(t := None)\<rparr>)"
  "tame st \<Longrightarrow> tame st' \<Longrightarrow> quiet_block b old \<Longrightarrow> tame (st\<lparr>ks_calls := (ks_calls st')(t \<mapsto> (b, old))\<rparr>)"
  by (simp_all add: tame_def quiet_block_def)

lemma tame_remove: "tame st \<Longrightarrow> tame (st\<lparr>ks_workers := (ks_workers st)(t := None)\<rparr>)"
  by (simp add: tame_def)

lemma tame_set_worker: "tame st \<Longrightarrow> kw_event w \<in> idle_kinds \<Longrightarrow> tame (set_worker t w st)"
  by (auto simp: tame_def set_worker_def)

lemma tame_same: "tame st \<Longrightarrow> ks_workers st t = Some w \<Longrightarrow> kw_event w' = kw_event w \<Longrightarrow> tame (set_worker u w' st)"
  by (auto simp: tame_def set_worker_def)

lemma tame_idle: "tame st \<Longrightarrow> ev \<in> idle_kinds \<Longrightarrow> tame (umcg_worker_event_idle t w ev st)"
  by (simp add: umcg_worker_event_idle_def tame_set_worker)

lemma tame_get_events:
  assumes "umcg_server_get_events events k sz st = Some (rv, ws, st')" and "kinv st" and "tame st"
  shows "tame st'" and "\<forall>v \<in> set ws. v = 0 \<or> (\<exists>t wk. ks_workers st t = Some wk \<and> (\<exists>ev \<in> idle_kinds. v = event_word wk ev))"
    and "rv = 0 \<Longrightarrow> set ws \<subseteq> {0}"
proof -
  from assms(2) have d: "distinct (ks_idle st)" by (simp add: kinv_defs)
  from get_events_result [OF assms(1) d] obtain us where
    st': "st' = st\<lparr>ks_idle := ks_idle st', ks_workers := runnable us (ks_workers st)\<rparr>" by blast
  have "tame (st\<lparr>ks_idle := i, ks_workers := runnable us (ks_workers st)\<rparr>)" for i
    using assms(3) by (auto simp: tame_def runnable_def split: if_splits)
  with st' show "tame st'" by metis
  from assms(1) obtain ws1 sz' idle m where
    l: "get_events_loop events k 0 (unat sz) (ks_idle st) (ks_workers st) = Some (rv, ws1, sz', idle, m)"
    and "ws = ws1 @ (if sz' > 0 \<and> writable events (k + length ws1) then [0] else [])"
    by (auto simp: umcg_server_get_events_def split: option.splits)
  then have ws: "set ws \<subseteq> insert 0 (set ws1)" by auto
  have t: "Ev_Timeout \<in> idle_kinds" by (simp add: idle_kinds_def)
  show "\<forall>v \<in> set ws. v = 0 \<or> (\<exists>t wk. ks_workers st t = Some wk \<and> (\<exists>ev \<in> idle_kinds. v = event_word wk ev))"
  proof
    fix v
    assume "v \<in> set ws"
    with ws consider "v = 0" | "v \<in> set ws1" by auto
    then show "v = 0 \<or> (\<exists>t wk. ks_workers st t = Some wk \<and> (\<exists>ev \<in> idle_kinds. v = event_word wk ev))"
    proof cases
      case 2
      from get_events_loop_words [OF l d 2] assms(3) t show ?thesis unfolding tame_def by blast
    qed simp
  qed
  show "rv = 0 \<Longrightarrow> set ws \<subseteq> {0}" using get_events_loop_none l ws by fastforce
qed

lemma over_subset: "set (over ws old) \<subseteq> set ws \<union> set old"
  by (auto simp: over_def dest: in_set_dropD)

lemma tame_run:
  assumes "run_action flags t b st = Some x" and "kinv st" and "tame st"
  shows "tame (bh_state x)" and "x = StillBlocked ws st1 \<Longrightarrow> quiet_block b ws"
proof -
  show "tame (bh_state x)"
    using assms
    by (auto simp: run_action_def sleep_bh_def umcg_server_wait_worker_bh_def umcg_server_wait_bh_def umcg_server_ctx_switch_bh_def
        bh_state_def dest: tame_get_events(1) split: kblock.splits if_splits option.splits)
  assume "x = StillBlocked ws st1"
  then show "quiet_block b ws"
    using assms
    by (auto simp: quiet_block_def run_action_def umcg_server_wait_bh_def dest!: tame_get_events(3) split: if_splits option.splits) blast
qed

lemma tame_action:
  assumes "blockq_action flags t b old st = Some (r, st')" and "kinv st" and "tame st" and "quiet_block b old"
  shows "tame st'"
  using assms(1)
proof (cases rule: action_cases)
  case (finished rv ws st1)
  with tame_run(1) [OF finished(1) assms(2,3)] show ?thesis by (simp add: bh_state_def tame_calls)
next
  case (blocked ws st1)
  have "quiet_block b (over ws old)"
    using tame_run(2) [OF blocked(1) assms(2,3) refl] assms(4) over_subset [of ws old] by (auto simp: quiet_block_def)
  with tame_run(1) [OF blocked(1) assms(2,3)] blocked(3) show ?thesis by (simp add: bh_state_def tame_calls)
qed

subsection \<open>Every step keeps the invariant\<close>

lemma tame_send: "umcg_worker_event_to_server w ev st = Some st' \<Longrightarrow> tame st \<Longrightarrow> tame st'"
  by (auto simp: to_server_Some)

lemma tame_unregister: "umcg_unregister t st = Some st' \<Longrightarrow> tame st \<Longrightarrow> tame st'"
  using tame_send [OF _ tame_remove] by (auto simp: umcg_unregister_def split: option.splits)

lemma quiet_Nil [simp]: "quiet_block b []"
  by (simp add: quiet_block_def)

lemma tame_sleep: "thread_maybe_sleep_uninterruptible t st = Some (r, st') \<Longrightarrow> tame st \<Longrightarrow> tame st'"
  by (auto simp: thread_maybe_sleep_uninterruptible_def intro!: tame_calls)

lemma tame_wait:
  assumes "umcg_wait e t nt to events sz st = Some (r, st')" and "kinv st" and "tame st"
  shows "tame st'"
proof (cases "ks_workers st t")
  case None
  consider (same) "st' = st"
    | (worker) nx where "ks_workers st nt = Some nx"
        "blockq_action Normal t (OnWorker nt) [] (set_worker nt (nx\<lparr>kw_bq := Some t\<rparr>) st) = Some (r, st')"
    | (poll) rv ws where "umcg_server_get_events events 0 sz st = Some (rv, ws, st')"
    | (idle) "blockq_action Normal t (OnIdle to events sz) [] st = Some (r, st')"
    using assms(1) None by (auto simp: umcg_wait_def kreturn_def blockq_check_def split: option.splits if_splits)
  then show ?thesis
  proof cases
    case worker
    then have "tame (set_worker nt (nx\<lparr>kw_bq := Some t\<rparr>) st)" using assms(3) by (intro tame_same) simp_all
    with worker show ?thesis
      by (auto simp: blockq_action_def run_action_def umcg_server_wait_worker_bh_def intro: tame_calls assms(3) split: if_splits option.splits)
  next
    case poll
    from tame_get_events(1) [OF this assms(2,3)] show ?thesis .
  next
    case idle
    from tame_action [OF this assms(2,3)] show ?thesis by simp
  qed (use assms(3) in simp)
next
  case (Some w)
  let ?w = "w\<lparr>kw_status := K_Waiting, kw_timer := kw_timer w \<or> to \<noteq> 0\<rparr>"
  consider (same) "st' = st" | (send) st1 where "umcg_worker_event_to_server w Ev_Wait
      (set_syscall_return t 0 (set_worker t ?w st)) = Some st1" "thread_maybe_sleep_uninterruptible t st1 = Some (r, st')"
    using assms(1) Some by (auto simp: umcg_wait_def kreturn_def bind_eq_Some_conv split: if_splits)
  then show ?thesis
  proof cases
    case send
    have "tame (set_syscall_return t 0 (set_worker t ?w st))" using tame_same [OF assms(3) Some] by simp
    from tame_sleep [OF send(2) tame_send [OF send(1) this]] show ?thesis .
  qed (use assms(3) in simp)
qed

lemma tame_switch:
  assumes "umcg_ctx_switch e t nt to events sz st = Some (r, st')" and "ks_workers st t = None" and "tame st"
  shows "tame st'"
proof -
  consider (same) "st' = st" | (start) nx st1 where "ks_workers st nt = Some nx"
      "st1 = set_worker nt (nx\<lparr>kw_status := K_Running, kw_start := ke_now e, kw_bq := Some t, kw_slot := Some (ks_next st), kw_timer := False\<rparr>)
          (st\<lparr>ks_slots := (ks_slots st)(ks_next st \<mapsto> 0), ks_next := ks_next st + 1\<rparr>)"
      "blockq_check t (OnSwitch (ks_next st) events sz) st1 = Some (r, st')"
    using assms by (auto simp: umcg_ctx_switch_def kreturn_def Let_def split: option.splits if_splits)
  then show ?thesis
  proof cases
    case start
    have "tame (st\<lparr>ks_slots := (ks_slots st)(ks_next st \<mapsto> 0), ks_next := ks_next st + 1\<rparr>)" using assms(3) by (simp add: tame_def)
    then have "tame st1" unfolding start(2) using start(1) by (intro tame_same [where t = nt and w = nx]) simp_all
    with start(3) show ?thesis by (auto simp: switch_blocks start(2) intro: tame_calls assms(3))
  qed (use assms(3) in simp)
qed

lemma tame_ctl:
  assumes "umcg_ctl e t flags cmd nt to events sz st = Some (r, st')" and "obeys st t cmd to" and "kinv st" and "tame st"
  shows "tame st'"
proof -
  consider (same) "tame st' = tame st"
    | (register) "umcg_register_worker e t to st = Some (r, st')"
    | (unregister) "umcg_unregister t st = Some st'"
    | (wait) "umcg_wait e t nt to events (scast sz) st = Some (r, st')"
    | (switch) "cmd = cmd_u64 Cmd_CtxSwitch" "umcg_ctx_switch e t nt to events (scast sz) st = Some (r, st')"
    using assms(1) by (auto simp: umcg_ctl_def kreturn_def bind_eq_Some_conv split: if_splits)
  then show ?thesis
  proof cases
    case register
    with assms(4) show ?thesis
      by (auto simp: umcg_register_worker_def kreturn_def idle_kinds_def intro!: tame_idle dest!: tame_sleep split: if_splits)
  next
    case unregister
    then show ?thesis using assms(4) by (rule tame_unregister)
  next
    case wait
    then show ?thesis using assms(3,4) by (rule tame_wait)
  next
    case switch
    with assms(2) show ?thesis by (intro tame_switch [OF switch(2) _ assms(4)]) (simp add: obeys_def)
  qed (use assms(4) in simp)
qed

lemma tame_hook:
  assumes "khook i st st'" and "kinv st" and "tame st"
  shows "tame st'"
  using assms
proof (induction rule: khook.induct)
  case (action st t b old flags r st')
  have "quiet_block b old" using action(1,5) unfolding tame_def quiet_block_def by blast
  from tame_action [OF action(3-5) this] show ?case .
next
  case (pause st t worker sc st')
  then show ?case by (auto simp: umcg_worker_pause_def intro: tame_same split: if_splits)
next
  case (syscall_pause t st st')
  then show ?case by (auto simp: umcg_syscall_pause_def intro: tame_same dest!: tame_send split: option.splits if_splits)
next
  case (schedule st t worker interval e st')
  then show ?case
    by (auto simp: umcg_worker_schedule_return_def idle_kinds_def intro: tame_same intro!: tame_idle dest!: tame_send split: if_splits)
next
  case (timeout st t worker)
  then show ?case by (auto simp: umcg_worker_timeout_def Let_def idle_kinds_def intro: tame_same intro!: tame_idle)
next
  case (free st t st')
  then show ?case using tame_unregister unfolding umcg_worker_thread_free_def by blast
qed

lemma prog_reach_tame: "prog_reach i st \<Longrightarrow> tame st"
proof (induction rule: prog_reach.induct)
  case init
  show ?case by (simp add: tame_def kinit_def)
next
  case (step st st')
  note k = kreach_kinv [OF prog_reach_kreach [OF step(1)]]
  from step(2) show ?case
  proof (cases rule: prog_step.cases)
    case (call t cmd to e flags nt events sz r)
    then show ?thesis using tame_ctl [OF call(3,2) k step(3)] by simp
  next
    case hook
    then show ?thesis using tame_hook [OF _ k step(3)] by simp
  qed
qed

subsection \<open>What a wait reports\<close>

definition idle_word :: "pid_t set \<Rightarrow> u64 \<Rightarrow> bool" where
  "idle_word T v \<longleftrightarrow> (\<exists>t \<in> T. \<exists>ev \<in> idle_kinds. v = worker_id_of t OR event_u64 ev)"

lemma get_events_idle:
  assumes "umcg_server_get_events events k sz st = Some (rv, ws, st')" and "prog_reach i st" and "v \<in> set ws" and "v \<noteq> 0"
  shows "idle_word (dom (ks_workers st)) v"
proof -
  note k = kreach_kinv [OF prog_reach_kreach [OF assms(2)]]
  from tame_get_events(2) [OF assms(1) k prog_reach_tame [OF assms(2)]] assms(3,4) obtain t wk ev where
    t: "ks_workers st t = Some wk" "ev \<in> idle_kinds" "v = event_word wk ev" by blast
  have "kw_id wk = worker_id_of t" using prog_reach_own [OF assms(2)] t(1) by (auto simp: own_inv_def)
  with t show ?thesis by (auto simp: idle_word_def event_word_def)
qed

lemma idle_action_words:
  assumes "blockq_action flags t (OnIdle to ev sz) old st = Some (Some (rv, ws), st')" and "prog_reach i st"
    and "set old \<subseteq> {0}" and "v \<in> set ws" and "v \<noteq> 0"
  shows "idle_word (dom (ks_workers st)) v"
  using assms(1)
proof (cases rule: action_cases)
  case (finished rv1 ws1 st1)
  from finished(2) assms(3-5) over_subset [of ws1 old] have v: "v \<in> set ws1" by auto
  with finished(1) show ?thesis
    by (auto simp: run_action_def umcg_server_wait_bh_def split: if_splits option.splits
        intro!: get_events_idle [OF _ assms(2) v assms(5)])
qed simp

end
