(* ===== verification/A2_Module.thy ===== *)
theory A2_Module
  imports Kernel_Owner A2_Schedule_Props
begin

text \<open>
  The scheduler of \<open>attempt2.rs\<close> on the kernel module, if the module is registered under the
  number that \<open>umcg_base.rs\<close> calls. Theory \<open>A2_Schedule\<close> assumes a contract of context switches;
  here it is proved of the module: whatever the other threads do while the server is
  blocked, its switch reports nothing or one event of the worker it switched to.
\<close>

subsection \<open>A switch reports its own worker\<close>

text \<open>Any steps of other threads that follow the rules, as long as the server is blocked.\<close>

definition program_rules :: "bool \<Rightarrow> pid_t \<Rightarrow> krules" where
  "program_rules i srv = \<lparr>kr_env = (\<lambda>e. True),
     kr_step = (\<lambda>st st'. prog_step i st st' \<and> ks_calls st' srv = ks_calls st srv), kr_end = may_end i\<rparr>"

text \<open>A state in which the server, which is no worker, can make a call.\<close>

definition server_ready :: "bool \<Rightarrow> pid_t \<Rightarrow> kstate \<Rightarrow> bool" where
  "server_ready i srv st \<longleftrightarrow> prog_reach i st \<and> ks_calls st srv = None \<and> ks_workers st srv = None"

lemma ready_may_call: "server_ready i srv st \<Longrightarrow> may_call st srv"
  by (simp add: server_ready_def may_call_def)

lemma tid_cast [simp]: "ucast (scast (t :: pid_t) :: i64) = t"
  by (rule bit_word_eqI) (simp add: bit_simps)

lemma switch_obeys: "ks_workers st srv = None \<Longrightarrow> obeys st srv (cmd_u64 Cmd_CtxSwitch) 0"
  by (simp add: obeys_def)

lemma ctl_switch:
  "ctl_of e srv (switch_args t) (Some [0, 0]) st = umcg_ctl e srv 0 (cmd_u64 Cmd_CtxSwitch) t 0 (Some 2) 2 st"
  by (simp add: ctl_of_def switch_args_def numeral_2_eq_2 [symmetric] del: One_nat_def)

lemma ctl_switch_eq: "umcg_ctl e srv 0 (cmd_u64 Cmd_CtxSwitch) t 0 ev 2 st = umcg_ctx_switch e srv t 0 ev 2 st"
  by (simp add: umcg_ctl_def)

text \<open>A switch that starts makes the cell that belongs to its worker.\<close>

lemma switch_start:
  assumes "umcg_ctx_switch e srv t 0 (Some 2) 2 st = Some (r, st')" and "ks_workers st srv = None" and "own_inv (owners_of st)"
  shows "(\<exists>err. r = Some (- err, []) \<and> 0 < err \<and> st' = st) \<or>
    (\<exists>nx. ks_workers st t = Some nx \<and> r = None \<and> ks_calls st' = (ks_calls st)(srv \<mapsto> (OnSwitch (ks_next st) (Some 2) 2, [])) \<and>
      ks_workers st' = (ks_workers st)(t \<mapsto> nx\<lparr>kw_status := K_Running, kw_start := ke_now e, kw_bq := Some srv,
        kw_slot := Some (ks_next st), kw_timer := False\<rparr>) \<and>
      ks_slots st' = (ks_slots st)(ks_next st \<mapsto> 0) \<and> cell_of (ks_next st) t (owners_of st') \<and> ks_workers st' srv = None)"
proof -
  consider (err) err where "r = Some (- err, [])" "0 < err" "st' = st"
    | (start) nx where "ks_workers st t = Some nx" "r = None"
      "st' = (set_worker t (nx\<lparr>kw_status := K_Running, kw_start := ke_now e, kw_bq := Some srv, kw_slot := Some (ks_next st), kw_timer := False\<rparr>)
          (st\<lparr>ks_slots := (ks_slots st)(ks_next st \<mapsto> 0), ks_next := ks_next st + 1\<rparr>))
            \<lparr>ks_calls := (ks_calls st)(srv \<mapsto> (OnSwitch (ks_next st) (Some 2) 2, []))\<rparr>"
    using assms(1,2)
    by (auto simp: umcg_ctx_switch_def kreturn_def Let_def switch_blocks kerrno_defs split: option.splits if_splits)
  then show ?thesis
  proof cases
    case start
    have "cell_of (o_next (owners_of st)) t ((owners_of st)\<lparr>o_worker := (o_worker (owners_of st))(t \<mapsto> (kw_id nx, Some (o_next (owners_of st)))),
        o_cell := (o_cell (owners_of st))(o_next (owners_of st) \<mapsto> 0), o_next := o_next (owners_of st) + 1\<rparr>)"
      using assms(3) start(1) by (intro switch_cell [where p = "kw_slot nx"]) simp_all
    moreover have "owners_of st' = (owners_of st)\<lparr>o_worker := (o_worker (owners_of st))(t \<mapsto> (kw_id nx, Some (o_next (owners_of st)))),
        o_cell := (o_cell (owners_of st))(o_next (owners_of st) \<mapsto> 0), o_next := o_next (owners_of st) + 1\<rparr>"
      by (simp add: start(3) owners_set_worker) (simp add: owners_of_def)
    ultimately have "cell_of (ks_next st) t (owners_of st')" by simp
    moreover have "srv \<noteq> t" using start(1) assms(2) by auto
    ultimately show ?thesis using start assms(2) by auto
  qed blast
qed

text \<open>While the server is blocked, its call and the owner of its cell stay.\<close>

lemma others_keep:
  assumes "(kr_step (program_rules i srv))\<^sup>*\<^sup>* st st'" and "prog_reach i st" and "cell_of c t (owners_of st)"
    and "ks_calls st srv \<noteq> None" and "ks_workers st srv = None"
  shows "prog_reach i st' \<and> ks_calls st' srv = ks_calls st srv \<and> cell_of c t (owners_of st') \<and> ks_workers st' srv = None"
  using assms
proof (induction rule: rtranclp_induct)
  case (step st1 st2)
  then have "prog_step i st1 st2" "ks_calls st2 srv = ks_calls st1 srv" by (simp_all add: program_rules_def)
  with step show ?case by (auto intro: prog_reach.step prog_step_cell prog_step_workers simp del: not_None_eq)
qed simp

lemma module_switch_own:
  assumes "module_call (program_rules i srv) srv (switch_args t) (Some [0, 0]) st rv ws st'" and r: "server_ready i srv st"
  shows "rv < 0 \<and> ws = [] \<or> rv = 0 \<and> (\<exists>ev \<in> own_kinds. ws = [worker_id_of t OR event_u64 ev, 0])"
    and "server_ready i srv st'"
proof -
  have reach: "prog_reach i st" and server: "ks_workers st srv = None" using r by (simp_all add: server_ready_def)
  have "(rv < 0 \<and> ws = [] \<or> rv = 0 \<and> (\<exists>ev \<in> own_kinds. ws = [worker_id_of t OR event_u64 ev, 0])) \<and>
      server_ready i srv st'"
    using assms(1)
  proof (cases rule: module_call.cases)
    case (returns e)
    from switch_start [OF returns(2) [unfolded ctl_switch ctl_switch_eq] server prog_reach_own [OF reach]] r show ?thesis
      by (auto simp: server_ready_def)
  next
    case (blocks e st1 st2 b old flags)
    note ctl = blocks(2) [unfolded ctl_switch]
    from switch_start [OF ctl [unfolded ctl_switch_eq] server prog_reach_own [OF reach]] obtain c where
      c: "ks_calls st1 srv = Some (OnSwitch c (Some 2) 2, [])" "cell_of c t (owners_of st1)" "ks_workers st1 srv = None"
      by auto
    have "prog_step i st st1" by (rule prog_step.call [OF ready_may_call [OF r] switch_obeys [OF server] ctl])
    from others_keep [OF blocks(3) prog_reach.step [OF reach this] c(2) _ c(3)] c(1) blocks(4)
    have r2: "prog_reach i st2" and o: "cell_of c t (owners_of st2)" and b: "b = OnSwitch c (Some 2) 2" "old = []"
      and s2: "ks_calls st2 srv = Some (OnSwitch c (Some 2) 2, [])" and w2: "ks_workers st2 srv = None" by auto
    note act = blocks(6) [unfolded b]
    have p: "prog_step i st2 st'"
      using blocks(5) by (intro prog_step.hook khook.action [OF blocks(4) _ blocks(6)]) (simp add: program_rules_def)
    have "ks_calls st' srv = None" using act by (cases rule: action_cases) auto
    then have r': "server_ready i srv st'"
      using prog_reach.step [OF r2 p] prog_step_workers [OF p r2 _ w2] s2 by (simp add: server_ready_def)
    from switch_event [OF prog_reach_kreach [OF r2] s2 _ act] show ?thesis
    proof
      assume "rv < 0 \<and> ws = []"
      then show ?thesis using r' by simp
    next
      assume "rv = 0 \<and> (\<exists>v. ws = [v, 0] \<and> own_event v \<and> ks_slots st2 c = Some v)"
      then obtain v where v: "rv = 0" "ws = [v, 0]" "own_event v" "ks_slots st2 c = Some v" by blast
      with o own_event_type(1) [OF v(3)] show ?thesis using r' by (auto simp: cell_of_def)
    qed (simp add: writable_def)
  qed
  then show "rv < 0 \<and> ws = [] \<or> rv = 0 \<and> (\<exists>ev \<in> own_kinds. ws = [worker_id_of t OR event_u64 ev, 0])"
    and "server_ready i srv st'" by blast+
qed

subsection \<open>The contract\<close>

text \<open>\<open>K\<close> answers the switches of the server as the module does, in some order of the other threads' steps.\<close>

definition answers_switches :: "krules \<Rightarrow> bool \<Rightarrow> pid_t \<Rightarrow> ('w \<Rightarrow> kstate) \<Rightarrow> 'w kernel \<Rightarrow> bool" where
  "answers_switches R i srv kst K \<longleftrightarrow> (\<forall>t w. server_ready i srv (kst w) \<longrightarrow>
     (\<exists>rv. answers (K (switch_args t) (Some [0, 0]) w) rv \<and>
        module_call R srv (switch_args t) (Some [0, 0]) (kst w) rv
          (sr_written (K (switch_args t) (Some [0, 0]) w)) (kst (sr_world (K (switch_args t) (Some [0, 0]) w)))))"

lemma answers_switchesD:
  assumes "answers_switches (program_rules i srv) i srv kst K" and "server_ready i srv (kst w)"
  shows "sr_written (K (switch_args t) (Some [0, 0]) w) = [] \<or>
      (\<exists>ev \<in> own_kinds. sr_written (K (switch_args t) (Some [0, 0]) w) = [worker_id_of t OR event_u64 ev, 0])"
    and "server_ready i srv (kst (sr_world (K (switch_args t) (Some [0, 0]) w)))"
proof -
  from assms obtain rv where "module_call (program_rules i srv) srv (switch_args t) (Some [0, 0]) (kst w) rv
      (sr_written (K (switch_args t) (Some [0, 0]) w)) (kst (sr_world (K (switch_args t) (Some [0, 0]) w)))"
    unfolding answers_switches_def by blast
  note m = module_switch_own [OF this assms(2)]
  from m(1) show "sr_written (K (switch_args t) (Some [0, 0]) w) = [] \<or>
      (\<exists>ev \<in> own_kinds. sr_written (K (switch_args t) (Some [0, 0]) w) = [worker_id_of t OR event_u64 ev, 0])" by blast
  from m(2) show "server_ready i srv (kst (sr_world (K (switch_args t) (Some [0, 0]) w)))" .
qed

text \<open>
  The same kernel, except that it refuses calls in worlds where the server could not make
  one. It meets the contract of \<open>A2_Schedule\<close> in every world.
\<close>

definition refusing :: "('w \<Rightarrow> bool) \<Rightarrow> 'w kernel \<Rightarrow> 'w kernel" where
  "refusing P K args buf w = (if P w then K args buf w else sysres_of (- K_EINVAL) [] w)"

lemma refusing_contract:
  assumes "answers_switches (program_rules i srv) i srv kst K" and "\<And>args buf w. dom (wd_channels (sr_world (K args buf w))) = dom (wd_channels w)"
  shows "switch_kernel (refusing (\<lambda>w. server_ready i srv (kst w)) K)"
  using answers_switchesD(1) [OF assms(1)] assms(2)
  by unfold_locales (auto simp: refusing_def own_events_def own_kinds_def simp del: event_u64.simps)

subsection \<open>A run never leaves the worlds in which calls are possible\<close>

locale ready_kernel =
  fixes E :: "('q, 'm, 't, 'c, 'x) env" and ok :: "'x \<Rightarrow> bool"
  assumes switch_ok: "ok (wd_ext w) \<Longrightarrow> ok (wd_ext (sr_world (kernel E (switch_args t) (Some [0, 0]) w)))"
begin

definition F :: "('q, 'm, 't, 'c, 'x) env" where
  "F = E\<lparr>kernel := refusing (\<lambda>w. ok (wd_ext w)) (kernel E)\<rparr>"

abbreviation fine :: "('q, 'm, 't, 'c, 'x) server \<Rightarrow> bool" where
  "fine s \<equiv> ok (wd_ext (world s))"

lemma F_simps [simp]: "queue F = queue E" "manager F = manager E"
  by (simp_all add: F_def)

lemma F_same [simp]:
  "push_pending F w s = push_pending E w s" "pop_running F s = pop_running E s" "handle_wait F w s = handle_wait E w s"
  "start_running F w s = start_running E w s"
  by (simp_all add: push_pending_def pop_running_def handle_wait_def start_running_def split: option.split)

lemma ctx_switch_agree: "fine s \<Longrightarrow> ctx_switch F w s = ctx_switch E w s"
  by (simp add: ctx_switch_def umcg_syscall_def F_def refusing_def)

lemma ctx_switch_fine:
  assumes "fine s" and "ctx_switch E w s = (r, evs, s')"
  shows "fine s'"
proof -
  have "scast (of_nat EVENT_BUFFER_SIZE :: i32) = (2 :: u64)" by (simp add: EVENT_BUFFER_SIZE_def)
  with assms switch_ok [of "world s" "worker_tid w"] show ?thesis
    by (auto simp: ctx_switch_def umcg_syscall_def switch_args_def Let_def)
qed

lemma status_fine [simp]: "fine (set_status w st s) = fine s"
  by (simp add: set_status_def)

lemma handle_event_agree:
  "fine s \<Longrightarrow> handle_event F e s = handle_event E e s \<and> fine (snd (handle_event E e s))"
proof (induction "card (blocked_workers (states s))" arbitrary: e s rule: less_induct)
  case less
  show ?case
  proof (cases rule: handle_event_cases [where e = e and s = s])
    case wake_blocked
    let ?s = "set_status (event_worker e) Running s"
    obtain r evs s' where sw: "ctx_switch E (event_worker e) ?s = (r, evs, s')" by (metis prod_cases3)
    have sf: "ctx_switch F (event_worker e) ?s = (r, evs, s')" using less.prems sw by (simp add: ctx_switch_agree)
    have f: "fine s'" using less.prems by (intro ctx_switch_fine [OF _ sw]) simp
    have "card (blocked_workers (states s')) < card (blocked_workers (states s))"
      using sw wake_blocked(2) by (auto simp: set_status_def dest!: ctx_switch_frame card_unblock)
    from less.hyps [OF this f] f show ?thesis
      by (simp add: handle_event_wake_blocked [OF wake_blocked sw] handle_event_wake_blocked [OF wake_blocked sf] split: list.split)
  qed (use less.prems in \<open>simp_all add: handle_event_eqs\<close>)
qed

lemma handle_events_agree:
  "fine s \<Longrightarrow> handle_events F es s = handle_events E es s \<and> fine (snd (handle_events E es s))"
proof (induction es arbitrary: s)
  case (Cons e es)
  obtain r s' where h: "handle_event E e s = (r, s')" by fastforce
  with handle_event_agree [OF Cons.prems, of e] Cons.IH [of s'] show ?case by (cases r) simp_all
qed simp

lemma dispatch_agree:
  assumes "fine s"
  shows "dispatch F w t s = dispatch E w t s" and "dispatch E w t s = Inl s' \<Longrightarrow> fine s'"
    and "dispatch E w t s = Inr (r, s') \<Longrightarrow> fine s'"
proof -
  have f1: "case start_running E w s of Inl s1 \<Rightarrow> fine s1 | Inr s1 \<Rightarrow> fine s1"
    using assms by (auto simp: start_running_def push_pending_def split: option.splits)
  have f2: "fine s2" if "send_task w x s1 = Some s2" "fine s1" for x s1 s2
    using that by (auto simp: send_task_def split: option.splits)
  have "dispatch F w t s = dispatch E w t s \<and> (case dispatch E w t s of Inl s' \<Rightarrow> fine s' | Inr q \<Rightarrow> fine (snd q))"
  proof (cases "wd_channels (world s) w")
    case None
    with assms show ?thesis by (simp add: dispatch_def)
  next
    case (Some tx)
    show ?thesis
    proof (cases "start_running E w s")
      case (Inl s1)
      with Some f1 show ?thesis by (simp add: dispatch_def)
    next
      case (Inr s1)
      with f1 have s1: "fine s1" by simp
      show ?thesis
      proof (cases "send_task w (Function (tt_task t)) s1")
        case None
        with Some Inr s1 show ?thesis by (simp add: dispatch_def)
      next
        case (Some s2)
        from f2 [OF this s1] have s2: "fine s2" .
        obtain r evs s3 where sw: "ctx_switch E w s2 = (r, evs, s3)" by (metis prod_cases3)
        obtain x s4 where h: "handle_events E (live_events evs) s3 = (x, s4)" by fastforce
        from handle_events_agree [OF ctx_switch_fine [OF s2 sw], of "live_events evs"] h have
          "handle_events F (live_events evs) s3 = (x, s4)" "fine s4" by simp_all
        with Some Inr \<open>wd_channels (world s) w = Some tx\<close> sw h show ?thesis
          by (cases x) (simp_all add: dispatch_def ctx_switch_agree [OF s2])
      qed
    qed
  qed
  then show "dispatch F w t s = dispatch E w t s" "dispatch E w t s = Inl s' \<Longrightarrow> fine s'" "dispatch E w t s = Inr (r, s') \<Longrightarrow> fine s'"
    by auto
qed

lemma body_agree:
  assumes "fine s"
  shows "try_schedule_body F s = try_schedule_body E s" and "try_schedule_body E s = Inl s' \<Longrightarrow> fine s'"
    and "try_schedule_body E s = Inr (r, s') \<Longrightarrow> fine s'"
proof -
  have f: "fine (set_tasks m (set_pending p s))" "fine (push_pending E w s1) = fine s1" "fine (set_pending p s)" for m p w s1
    using assms by (simp_all add: set_tasks_def set_pending_def push_pending_def)
  note d = dispatch_agree [OF f(1)]
  show "try_schedule_body F s = try_schedule_body E s"
    by (simp add: try_schedule_body_def Let_def d(1) split: option.split prod.split)
  show "try_schedule_body E s = Inl s' \<Longrightarrow> fine s'"
    using f(3) by (auto simp: try_schedule_body_def Let_def f(2) dest: d(2) split: option.splits prod.splits if_splits)
  show "try_schedule_body E s = Inr (r, s') \<Longrightarrow> fine s'"
    using assms f(1) by (auto simp: try_schedule_body_def Let_def f(2) dest: d(3) split: option.splits prod.splits if_splits)
qed

lemma try_schedule_agree:
  assumes "fine s"
  shows "try_schedule_tasks F s = try_schedule_tasks E s" and "try_schedule_tasks E s = Some (r, s') \<Longrightarrow> fine s'"
proof -
  show "try_schedule_tasks F s = try_schedule_tasks E s"
    unfolding try_schedule_tasks_def
  proof (rule rust_loop_agree [where P = fine])
    show "Some (try_schedule_body F s) = Some (try_schedule_body E s)" if "fine s" for s
      by (simp add: body_agree(1) [OF that])
    show "fine s'" if "fine s" "Some (try_schedule_body E s) = Some (Inl s')" for s s'
      using that(2) by (intro body_agree(2) [OF that(1)]) simp
  qed (rule assms)
  assume "try_schedule_tasks E s = Some (r, s')"
  then have "rust_loop (\<lambda>s. Some (try_schedule_body E s)) s = Some (r, s')" by (simp add: try_schedule_tasks_def)
  then have "fine (snd (r, s'))"
  proof (rule rust_loop_invariant [where P = fine and Q = "\<lambda>q. fine (snd q)"])
    show "fine s'" if "fine s" "Some (try_schedule_body E s) = Some (Inl s')" for s s'
      using that(2) by (intro body_agree(2) [OF that(1)]) simp
    show "fine (snd q)" if "fine s" "Some (try_schedule_body E s) = Some (Inr q)" for s q
      using that(2) by (cases q) (auto intro: body_agree(3) [OF that(1)])
  qed (rule assms)
  then show "fine s'" by simp
qed

end

subsection \<open>A kernel made of the module\<close>

text \<open>
  A kernel that runs the module for one server and preempts the worker as soon as a switch
  has made it run.
\<close>

definition preempting :: "kenv \<Rightarrow> pid_t \<Rightarrow> (kstate \<Rightarrow> 'w \<Rightarrow> 'w) \<Rightarrow> ('w \<Rightarrow> kstate) \<Rightarrow> 'w kernel" where
  "preempting e srv upd kst a buf w =
     (let stuck = sysres_of 0 [] w in
      case ctl_of e srv a buf (kst w) of
        None \<Rightarrow> stuck
      | Some (Some (rv, ws), st') \<Rightarrow> sysres_of rv ws (upd st' w)
      | Some (None, st1) \<Rightarrow>
          (case umcg_worker_schedule_return 0 e (ucast (a_next_tid a)) st1 of
             None \<Rightarrow> stuck
           | Some st2 \<Rightarrow>
               (case ks_calls st2 srv of
                  None \<Rightarrow> stuck
                | Some (b, old) \<Rightarrow>
                    (case blockq_action Normal srv b old st2 of
                       Some (Some (rv, ws), st') \<Rightarrow> sysres_of rv ws (upd st' w)
                     | _ \<Rightarrow> stuck))))"

lemma switch_completes:
  assumes "ks_slots st c = Some v" and "v \<noteq> 0"
  shows "blockq_action Normal srv (OnSwitch c (Some 2) 2) [] st =
    Some (Some (0, [v, 0]), (free_slot c st)\<lparr>ks_calls := (ks_calls st)(srv := None)\<rparr>)"
proof -
  have "get_events_loop (Some 2) 1 0 1 ts m = Some (0, [], 1, ts, m)" for ts m by (cases ts) simp_all
  then have "umcg_server_get_events (Some 2) 1 1 st = Some (0, [0], st)"
    by (simp add: umcg_server_get_events_def writable_def)
  with assms show ?thesis
    by (simp add: blockq_action_def run_action_def umcg_server_ctx_switch_bh_def writable_def free_slot_def)
qed

lemma preempting_answers:
  assumes upd: "\<And>st w. kst (upd st w) = st" and env: "kr_env R e" and "\<And>b. kr_end R b Normal"
    and hook: "\<And>st st'. khook i st st' \<Longrightarrow> ks_calls st' srv = ks_calls st srv \<Longrightarrow> kr_step R st st'"
  shows "answers_switches R i srv kst (preempting e srv upd kst)"
  unfolding answers_switches_def
proof (intro allI impI)
  fix t w
  let ?r = "preempting e srv upd kst (switch_args t) (Some [0, 0]) w"
  assume r: "server_ready i srv (kst w)"
  then have own: "own_inv (owners_of (kst w))" and server: "ks_workers (kst w) srv = None"
    by (auto simp: server_ready_def intro: prog_reach_own)
  have fin: "\<exists>rv. answers ?r rv \<and> module_call R srv (switch_args t) (Some [0, 0]) (kst w) rv (sr_written ?r) (kst (sr_world ?r))"
    if "module_call R srv (switch_args t) (Some [0, 0]) (kst w) rv ws st'" "?r = sysres_of rv ws (upd st' w)" for rv ws st'
    using that upd by (intro exI [of _ rv]) simp
  have "umcg_ctx_switch e srv t 0 (Some 2) 2 (kst w) \<noteq> None"
    using server by (simp add: umcg_ctx_switch_def kreturn_def Let_def switch_blocks split: option.split)
  then obtain x st1 where c: "umcg_ctx_switch e srv t 0 (Some 2) 2 (kst w) = Some (x, st1)" by auto
  then have ctl: "ctl_of e srv (switch_args t) (Some [0, 0]) (kst w) = Some (x, st1)" by (simp only: ctl_switch ctl_switch_eq)
  from switch_start [OF c server own]
  show "\<exists>rv. answers ?r rv \<and> module_call R srv (switch_args t) (Some [0, 0]) (kst w) rv (sr_written ?r) (kst (sr_world ?r))"
  proof (elim disjE exE conjE)
    fix err assume "x = Some (- err, [])"
    with ctl show ?thesis by (intro fin [OF module_call.returns [OF env]]) (simp_all add: preempting_def)
  next
    fix nx
    assume x: "x = None" and nx: "ks_workers (kst w) t = Some nx"
      and calls: "ks_calls st1 = (ks_calls (kst w))(srv \<mapsto> (OnSwitch (ks_next (kst w)) (Some 2) 2, []))"
      and workers: "ks_workers st1 = (ks_workers (kst w))(t \<mapsto> nx\<lparr>kw_status := K_Running, kw_start := ke_now e, kw_bq := Some srv,
        kw_slot := Some (ks_next (kst w)), kw_timer := False\<rparr>)"
      and slots: "ks_slots st1 = (ks_slots (kst w))(ks_next (kst w) \<mapsto> 0)"
    let ?c = "ks_next (kst w)" and ?wk = "nx\<lparr>kw_status := K_Running, kw_start := ke_now e, kw_bq := Some srv,
        kw_slot := Some (ks_next (kst w)), kw_timer := False\<rparr>"
    define st2 where "st2 = (set_worker t (?wk\<lparr>kw_status := K_Runnable\<rparr>) st1)
      \<lparr>ks_slots := (ks_slots st1)(?c \<mapsto> event_word ?wk Ev_Preempt)\<rparr>"
    have sched: "umcg_worker_schedule_return 0 e t st1 = Some st2"
      by (simp add: umcg_worker_schedule_return_def workers umcg_worker_event_to_server_def slots st2_def)
    have calls2: "ks_calls st2 srv = Some (OnSwitch ?c (Some 2) 2, [])" by (simp add: st2_def calls)
    have "kr_step R st1 st2"
      using sched calls2 by (auto simp: workers calls intro!: hook khook.schedule [where t = t])
    then have steps: "(kr_step R)\<^sup>*\<^sup>* st1 st2" by blast
    have "ks_slots st2 ?c = Some (event_word ?wk Ev_Preempt)" by (simp add: st2_def)
    note act = switch_completes [OF this event_word_neq_0, of srv]
    show ?thesis
    proof (rule fin [OF module_call.blocks [OF env ctl [unfolded x] steps calls2 _ act]])
      show "kr_end R (OnSwitch ?c (Some 2) 2) Normal" by (rule assms(3))
      show "?r = sysres_of 0 [event_word ?wk Ev_Preempt, 0] (upd ((free_slot ?c st2)\<lparr>ks_calls := (ks_calls st2)(srv := None)\<rparr>) w)"
        using ctl x sched calls2 act by (simp add: preempting_def switch_args_def)
    qed
  qed
qed

lemma preempting_program:
  "(\<And>st w. kst (upd st w) = st) \<Longrightarrow> answers_switches (program_rules i srv) i srv kst (preempting e srv upd kst)"
  by (rule preempting_answers) (simp_all add: program_rules_def may_end_def prog_step.hook)

text \<open>The environment of the demo with this kernel; server thread 9 and worker thread 4 of theory \<open>Kernel_Safety\<close>.\<close>

definition a2_module_env ::
  "(nat \<times> u64 list, nat \<times> nat tracked_task list, nat, nat \<times> bool \<times> u64 list, kstate) env" where
  "a2_module_env = \<lparr>kernel = preempting kenv0 9 (\<lambda>st w. w\<lparr>wd_ext := st\<rparr>) wd_ext, queue = list_queue,
     manager = task_queue_ops list_queue, consumer = list_chan, others = (\<lambda>w. w), sched = null_sched\<rparr>"

lemma preempting_frame:
  "wd_channels (sr_world (preempting e srv (\<lambda>st w. w\<lparr>wd_ext := st\<rparr>) kst a buf w)) = wd_channels w"
  "wd_tasks (sr_world (preempting e srv (\<lambda>st w. w\<lparr>wd_ext := st\<rparr>) kst a buf w)) = wd_tasks w"
  by (auto simp: preempting_def Let_def split: option.split prod.split)

interpretation a2_module_env: ready_kernel a2_module_env "server_ready False 9"
  by unfold_locales (auto simp: a2_module_env_def intro: answers_switchesD(2) [OF preempting_program])

lemma prog_reach_run: "prog_reach i kst1" "prog_reach i kst2"
proof -
  have "worker_id_of 4 = 128" by (simp add: worker_id_of_def UMCG_WORKER_ID_SHIFT_def)
  then show 1: "prog_reach i kst1"
    by (intro prog_reach.step [OF prog_reach.init prog_step.call [OF _ _ run_register]]) (simp_all add: may_call_def kinit_def obeys_def)
  show "prog_reach i kst2"
    by (rule prog_reach.step [OF 1 prog_step.call [OF _ _ run_wait]]) (simp_all add: may_call_def kst_defs obeys_def)
qed

definition a2_module_server ::
  "(nat \<times> u64 list, nat \<times> nat tracked_task list, nat, nat \<times> bool \<times> u64 list, kstate) server" where
  "a2_module_server = \<lparr>srv_id = 0, states = [128 \<mapsto> Waiting],
     worker_queues = \<lparr>pending = (3, [128]), running = (3, []), preempted = (3, [])\<rparr>,
     world = \<lparr>wd_tasks = (10, [TrackedTask_new 1 0 5 ''a'']), wd_channels = [128 \<mapsto> mpsc_channel], wd_events = (10, True, []),
              wd_done = False, wd_wait = False, wd_ext = kst2\<rparr>\<rparr>"

lemma a2_module_inv: "server_inv snd fst a2_module_server"
proof -
  have "busy [128 \<mapsto> Waiting] = {}" by (auto simp: busy_def split: if_splits)
  moreover have "(128 :: u64) \<in> range worker_id_of" using worker_id_4 by (metis rangeI)
  ultimately show ?thesis by (auto simp: server_inv_def a2_module_server_def)
qed

subsection \<open>Properties\<close>

text \<open>
  C6: The scheduler of \<open>attempt2.rs\<close> on the kernel module. Take a server whose kernel answers
  context switches as the module does, in a reachable state of the module and with any
  steps of the other threads (which register under their own ids and leave switching to
  servers) while the server is blocked; during a switch no task is added and no channel comes
  or goes. Then \<open>try_schedule_tasks\<close> returns, keeps the invariant of the queues and statuses,
  and when it returns without an error no pending worker or no task is left; the server can
  make its next call.
\<close>
theorem schedules_on_module:
  assumes "array_queue (queue E) items cap" and "manage_task (manager E) waiting limit"
    and m: "answers_switches (program_rules i srv) i srv (\<lambda>w. kst (wd_ext w)) (kernel E)"
    and chan: "\<And>args buf w. dom (wd_channels (sr_world (kernel E args buf w))) = dom (wd_channels w)"
    and quiet: "\<And>args buf w. length (waiting (wd_tasks (sr_world (kernel E args buf w)))) \<le> length (waiting (wd_tasks w))"
    and "server_inv items cap s" and s: "server_ready i srv (kst (wd_ext (world s)))"
  shows "\<exists>r s'. try_schedule_tasks E s = Some (r, s') \<and> server_inv items cap s' \<and>
    (r = Inr () \<longrightarrow> items (pending (worker_queues s')) = [] \<or> waiting (wd_tasks (world s')) = []) \<and>
    server_ready i srv (kst (wd_ext (world s')))"
proof -
  have rk: "ready_kernel E (\<lambda>x. server_ready i srv (kst x))"
    using answers_switchesD(2) [OF m] by unfold_locales auto
  let ?F = "ready_kernel.F E (\<lambda>x. server_ready i srv (kst x))"
  note F = ready_kernel.F_def [OF rk]
  have "sched_loop ?F items cap waiting limit"
  proof (intro sched_loop.intro server_loop.intro sched_loop_axioms.intro)
    show "switch_kernel (kernel ?F)" using refusing_contract [OF m chan] by (simp add: F)
    show "length (waiting (wd_tasks (sr_world (kernel ?F args buf w)))) \<le> length (waiting (wd_tasks w))" for args buf w
      using quiet by (simp add: F refusing_def)
  qed (use assms(1,2) in \<open>simp_all add: F\<close>)
  from sched_loop.try_schedule_returns [OF this assms(6)] sched_loop.work_conserving_def [OF this] obtain r s' where
    "try_schedule_tasks ?F s = Some (r, s')" "server_inv items cap s'"
    "r = Inr () \<longrightarrow> items (pending (worker_queues s')) = [] \<or> waiting (wd_tasks (world s')) = []" by auto
  moreover from this(1) have "try_schedule_tasks E s = Some (r, s')" using ready_kernel.try_schedule_agree(1) [OF rk s] by simp
  ultimately show ?thesis using ready_kernel.try_schedule_agree(2) [OF rk s] by blast
qed

theorem schedules_on_module_witness:
  "\<exists>r s'. try_schedule_tasks a2_module_env a2_module_server = Some (r, s') \<and> server_inv snd fst s' \<and>
    server_ready False 9 (wd_ext (world s'))"
proof -
  have r: "server_ready False 9 (wd_ext (world a2_module_server))"
    using prog_reach_run(2) by (simp add: server_ready_def a2_module_server_def) (simp add: kst_defs)
  have "answers_switches (program_rules False 9) False 9 wd_ext (kernel a2_module_env)"
    unfolding a2_module_env_def by (simp add: preempting_program)
  from schedules_on_module [where kst = "\<lambda>x. x" and E = a2_module_env and items = snd and cap = fst and waiting = snd and limit = fst, OF _ _ this _ _ a2_module_inv r]
  show ?thesis
    using list_queue.array_queue_axioms list_tasks.task_queue_contract by (auto simp: a2_module_env_def preempting_frame)
qed

end
