(* ===== verification/A2_Preempt.thy ===== *)
theory A2_Preempt
  imports A2_Module A2_Event_Loop
begin

text \<open>
  A worker of \<open>attempt2.rs\<close> that the kernel module preempts. The module reports \<open>PREEMPT\<close> to the
  server and makes the worker runnable; it runs again only if a server switches to it.
  \<open>handle_event\<close> answers such an event with an error and leaves the worker marked running, and
  nothing in the event loop switches to a worker that is marked running.
\<close>

subsection \<open>The event loop on the module\<close>

lemma event_loop_body_InlE:
  assumes "event_loop_body E (c, s) = Some (Inl (c', s'))"
  obtains r s1 s2 where "try_schedule_tasks E s = Some (r, s1)" "consume_events E s1 = Some s2" "s' = let_others_run E s2"
  using assms by (auto simp: event_loop_body_def split: option.splits if_splits)

text \<open>The agreement of theory \<open>A2_Module\<close>, carried on to the event loop.\<close>

locale ready_loop = ready_kernel E ok
  for E :: "('q, 'm, 't, 'c, 'x) env" and ok :: "'x \<Rightarrow> bool" +
  assumes others_ok: "ok (wd_ext w) \<Longrightarrow> ok (wd_ext (others E w))"
begin

lemma F_loop_simps [simp]: "consumer F = consumer E" "others F = others E"
  by (simp_all add: F_def)

lemma consume_body_agree:
  assumes "fine s"
  shows "consume_body F s = consume_body E s" and "consume_body E s = Inl s' \<Longrightarrow> fine s'" and "consume_body E s = Inr s' \<Longrightarrow> fine s'"
proof -
  have f: "fine (set_events c s)" for c using assms by (simp add: set_events_def)
  note h = handle_event_agree [OF f]
  show "consume_body F s = consume_body E s" using h by (simp add: consume_body_def Let_def split: option.split)
  show "consume_body E s = Inl s' \<Longrightarrow> fine s'" using f h by (auto simp: consume_body_def Let_def split: option.splits if_splits)
  show "consume_body E s = Inr s' \<Longrightarrow> fine s'" using assms by (auto simp: consume_body_def Let_def split: option.splits if_splits)
qed

lemma consume_agree:
  assumes "fine s"
  shows "consume_events F s = consume_events E s" and "consume_events E s = Some s' \<Longrightarrow> fine s'"
proof -
  have keep: "fine s'" if "fine s" "Some (consume_body E s) = Some (Inl s')" for s s'
    using that(2) by (intro consume_body_agree(2) [OF that(1)]) simp
  show "consume_events F s = consume_events E s"
    unfolding consume_events_def
    by (rule rust_loop_agree [where P = fine]) (use assms keep in \<open>auto simp: consume_body_agree(1)\<close>)
  assume "consume_events E s = Some s'"
  then have "rust_loop (\<lambda>s. Some (consume_body E s)) s = Some s'" by (simp add: consume_events_def)
  then show "fine s'"
    by (rule rust_loop_invariant [where P = fine and Q = fine]) (use assms keep in \<open>auto intro: consume_body_agree(3)\<close>)
qed

lemma loop_body_agree:
  assumes "fine s"
  shows "event_loop_body F (c, s) = event_loop_body E (c, s)" and "event_loop_body E (c, s) = Some (Inl (c', s')) \<Longrightarrow> fine s'"
proof -
  have t: "try_schedule_tasks F s = try_schedule_tasks E s" by (rule try_schedule_agree(1) [OF assms])
  have c: "consume_events F s1 = consume_events E s1" if "try_schedule_tasks E s = Some (r, s1)" for r s1
    by (rule consume_agree(1) [OF try_schedule_agree(2) [OF assms that]])
  have o: "let_others_run F s1 = let_others_run E s1" for s1 by (simp add: let_others_run_def)
  show "event_loop_body F (c, s) = event_loop_body E (c, s)"
    using c by (auto simp: event_loop_body_def t o split: option.split prod.split)
  assume "event_loop_body E (c, s) = Some (Inl (c', s'))"
  then show "fine s'"
  proof (rule event_loop_body_InlE)
    fix r s1 s2
    assume "try_schedule_tasks E s = Some (r, s1)" "consume_events E s1 = Some s2" "s' = let_others_run E s2"
    then show ?thesis using consume_agree(2) [OF try_schedule_agree(2) [OF assms]] by (simp add: let_others_run_def others_ok)
  qed
qed

lemma loop_agree:
  assumes "fine s"
  shows "loop_iter (event_loop_body F) n (c, s) = loop_iter (event_loop_body E) n (c, s)"
    and "run_event_loop F s = run_event_loop E s"
proof -
  show "loop_iter (event_loop_body F) n (c, s) = loop_iter (event_loop_body E) n (c, s)"
    using assms
  proof (induction n arbitrary: c s)
    case (Suc n)
    from loop_body_agree [OF Suc.prems] Suc.IH show ?case by (auto split: option.split sum.split)
  qed simp
  show "run_event_loop F s = run_event_loop E s"
    unfolding run_event_loop_def
    by (rule rust_loop_agree [where P = "\<lambda>(c, s). fine s"]) (use assms in \<open>auto simp: loop_body_agree\<close>)
qed

end

subsection \<open>A worker marked running is never switched to\<close>

text \<open>
  \<open>obs\<close> is anything about the routed events and the kernel that only a switch to thread \<open>t0\<close> can
  end, and that excludes routed \<open>WAIT\<close> events and a routed \<open>BLOCK\<close> of its worker.
\<close>

locale left_behind = server_loop E items cap
  for E :: "('q, 'm, 't, 'c, 'x) env" and items :: "'q \<Rightarrow> u64 list" and cap :: "'q \<Rightarrow> nat" +
  fixes t0 :: pid_t and obs :: "'c \<Rightarrow> 'x \<Rightarrow> bool"
  assumes switch_obs: "t \<noteq> t0 \<Longrightarrow> obs (wd_events w) (wd_ext w) \<Longrightarrow>
      obs (wd_events (sr_world (kernel E (switch_args t) (Some [0, 0]) w))) (wd_ext (sr_world (kernel E (switch_args t) (Some [0, 0]) w)))"
    and recv_obs: "obs c x \<Longrightarrow> ch_try_recv (consumer E) c = Some (e, c') \<Longrightarrow>
      obs c' x \<and> event_type e \<noteq> event_u64 Ev_Wait \<and> (event_worker e = worker_id_of t0 \<longrightarrow> event_type e \<noteq> event_u64 Ev_Block)"
    and others_obs: "obs (wd_events w) (wd_ext w) \<Longrightarrow> obs (wd_events (others E w)) (wd_ext (others E w))"
    and others_chan: "dom (wd_channels (others E w)) = dom (wd_channels w)"
begin

abbreviation w0 :: u64 where "w0 \<equiv> worker_id_of t0"

definition stays :: "('q, 'm, 't, 'c, 'x) server \<Rightarrow> bool" where
  "stays s \<longleftrightarrow> inv s \<and> states s w0 = Some Running \<and> obs (wd_events (world s)) (wd_ext (world s))"

lemma ctx_switch_stays:
  assumes "stays s" and "ctx_switch E w s = (r, evs, s')" and "w = worker_id_of t" and "w \<noteq> w0"
  shows "stays s'"
proof -
  have sz: "scast (of_nat EVENT_BUFFER_SIZE :: i32) = (2 :: u64)" by (simp add: EVENT_BUFFER_SIZE_def)
  have "t \<noteq> t0" using assms(3,4) by auto
  with assms(1) switch_obs [of t "world s"] have
    "obs (wd_events (sr_world (kernel E (switch_args t) (Some [0, 0]) (world s)))) (wd_ext (sr_world (kernel E (switch_args t) (Some [0, 0]) (world s))))"
    by (simp add: stays_def)
  then have "obs (wd_events (world s')) (wd_ext (world s'))"
    using assms(2,3) sz by (auto simp: ctx_switch_def umcg_syscall_def switch_args_def Let_def)
  with assms(1) ctx_switch_inv [OF assms(2)] ctx_switch_frame [OF assms(2)] show ?thesis by (simp add: stays_def)
qed

text \<open>An event that is no reason to change the status of the worker.\<close>

definition harmless :: "u64 \<Rightarrow> bool" where
  "harmless e \<longleftrightarrow> event_worker e = w0 \<longrightarrow> event_type e \<notin> {event_u64 Ev_Block, event_u64 Ev_Wait}"

lemma own_harmless: "w = worker_id_of t \<Longrightarrow> w \<noteq> w0 \<Longrightarrow> harmless (w OR event_u64 ev)"
  by (simp add: harmless_def event_worker_of_word)

lemma handle_event_stays:
  assumes "stays s" and "event_ok e s" and "harmless e"
  shows "stays (snd (handle_event E e s))"
proof (rule handle_event_rule [where I = "\<lambda>e s. stays s \<and> event_ok e s \<and> harmless e" and J = "\<lambda>_ s. stays s"])
  fix e s r evs s'
  assume I: "stays s \<and> event_ok e s \<and> harmless e" and b: "states s (event_worker e) = Some Blocked"
    and sw: "ctx_switch E (event_worker e) (set_status (event_worker e) Running s) = (r, evs, s')"
  from I b obtain t where t: "event_worker e = worker_id_of t" using worker_ids unfolding stays_def by metis
  have w: "event_worker e \<noteq> w0" using I b by (auto simp: stays_def)
  have "stays (set_status (event_worker e) Running s)"
    using I b w inv_set_busy [of s "event_worker e" Running] by (auto simp: stays_def busy_def) (simp_all add: set_status_def)
  from ctx_switch_stays [OF this sw t w] have "stays s'" .
  moreover have "states s' (event_worker e) = Some Running"
    using ctx_switch_frame [OF sw] by (simp add: set_status_def)
  ultimately show "case live_events evs of [] \<Rightarrow> stays s' | e' # _ \<Rightarrow> stays s' \<and> event_ok e' s' \<and> harmless e'"
    using own_event_ok [OF _ t] own_harmless [OF t w] ctx_switch_own [OF sw t] by auto
next
  fix e s
  assume "stays s \<and> event_ok e s \<and> harmless e" "event_type e = event_u64 Ev_Block"
  then show "stays (handle_block (event_worker e) s)"
    using inv_handle_block by (auto simp: stays_def harmless_def) (auto simp: handle_block_def set_status_def split: option.split)
next
  fix e s
  assume I: "stays s \<and> event_ok e s \<and> harmless e" "event_type e = event_u64 Ev_Wait"
  then have "inv (handle_wait E (event_worker e) s)" by (intro inv_handle_wait) (auto simp: stays_def event_ok_def)
  with I show "stays (handle_wait E (event_worker e) s)"
    by (auto simp: stays_def harmless_def)
      (auto simp: handle_wait_def push_pending_def pop_running_def set_status_def split: option.split)
qed (use assms in auto)

end

context left_behind
begin

lemma dispatch_stays:
  assumes s: "stays s" and w: "states s w = Some Waiting" "w \<notin> set (items (pending (worker_queues s)))"
  shows "case dispatch E w tracked s of Inl s' \<Rightarrow> stays s' | Inr (r, s') \<Rightarrow> stays s'"
proof -
  from s have i: "inv s" by (simp add: stays_def)
  from i w obtain t where t: "w = worker_id_of t" using worker_ids by blast
  have w0: "w \<noteq> w0" using s w by (auto simp: stays_def)
  from i w obtain tx where tx: "wd_channels (world s) w = Some tx" unfolding server_inv_def by blast
  from start_running_inv [OF i w] obtain s1 where s1: "start_running E w s = Inr s1" "inv s1"
    "states s1 = (states s)(w \<mapsto> Running)" "world s1 = world s" by blast
  then have "stays s1" using s w0 by (simp add: stays_def)
  show ?thesis
  proof (cases "send_task w (Function (tt_task tracked)) s1")
    case None
    with tx s1 \<open>stays s1\<close> show ?thesis by (simp add: dispatch_def)
  next
    case (Some s2)
    have "wd_events (world s2) = wd_events (world s1)" "wd_ext (world s2) = wd_ext (world s1)"
      using Some by (auto simp: send_task_def split: option.splits)
    with \<open>stays s1\<close> send_task_frame [OF Some] have s2: "stays s2" by (simp add: stays_def)
    obtain r evs s3 where sw: "ctx_switch E w s2 = (r, evs, s3)" by (metis prod_cases3)
    have s3: "stays s3" by (rule ctx_switch_stays [OF s2 sw t w0])
    have "states s3 w = Some Running" using send_task_frame [OF Some] s1 ctx_switch_frame [OF sw] by simp
    then have h: "stays (snd (handle_event E (w OR event_u64 ev) s3))" for ev
      by (intro handle_event_stays [OF s3 own_event_ok [OF _ t] own_harmless [OF t w0]])
    have "stays (snd (handle_events E (live_events evs) s3))"
      using ctx_switch_own [OF sw t] s3 h by (auto split: prod.splits sum.splits) (metis snd_conv)+
    with tx s1 Some sw show ?thesis by (auto simp: dispatch_def split: prod.splits sum.splits)
  qed
qed

lemma try_schedule_body_stays:
  assumes "stays s"
  shows "case try_schedule_body E s of Inl s' \<Rightarrow> stays s' | Inr (r, s') \<Rightarrow> stays s'"
proof (cases "q_pop (queue E) (pending (worker_queues s))")
  case None
  with assms show ?thesis by (simp add: try_schedule_body_def)
next
  case (Some wp)
  obtain w p where wp: "wp = (w, p)" by (cases wp)
  note pop = Some [unfolded wp]
  from assms have "inv s" by (simp add: stays_def)
  note i = pop_pending_inv [OF this pop]
  let ?s = "set_pending p s"
  obtain x m where rm: "mt_remove (manager E) (wd_tasks (world ?s)) = (x, m)" by fastforce
  have st: "stays (set_tasks m ?s)" using i assms by (simp add: stays_def) (simp add: set_tasks_def set_pending_def)
  have st': "states (set_tasks m ?s) w = Some Waiting" "w \<notin> set (items (pending (worker_queues (set_tasks m ?s))))"
    using i by (simp_all add: set_tasks_def set_pending_def)
  from i have w: "states ?s w = Some Waiting" by (simp add: set_pending_def)
  have "stays (push_pending E w (set_tasks m ?s))"
    using st push_back_inv [OF _ st'] by (simp add: stays_def) (simp add: push_pending_def)
  then show ?thesis
    using dispatch_stays [OF st st'] pop w rm by (auto simp: try_schedule_body_def Let_def split: option.splits)
qed

lemma try_schedule_stays:
  assumes "try_schedule_tasks E s = Some (r, s')" and "stays s"
  shows "stays s'"
proof -
  from assms(1) have "rust_loop (\<lambda>s. Some (try_schedule_body E s)) s = Some (r, s')" by (simp add: try_schedule_tasks_def)
  then have "case (r, s') of (r, s') \<Rightarrow> stays s'"
    by (rule pure_loop_invariant [where P = stays]) (use assms(2) in \<open>simp_all add: try_schedule_body_stays\<close>)
  then show ?thesis by simp
qed

lemma consume_body_stays:
  assumes "stays s"
  shows "case consume_body E s of Inl s' \<Rightarrow> stays s' | Inr s' \<Rightarrow> stays s'"
proof (cases "ch_try_recv (consumer E) (wd_events (world s))")
  case None
  with assms show ?thesis by (simp add: consume_body_def)
next
  case (Some ec)
  obtain e c where ec: "ec = (e, c)" by (cases ec)
  from assms recv_obs [OF _ Some [unfolded ec]] have
    r: "obs c (wd_ext (world s))" "event_type e \<noteq> event_u64 Ev_Wait" "harmless e"
    by (auto simp: stays_def harmless_def)
  have "stays (set_events c s)" using assms r(1) by (simp add: stays_def set_events_def server_inv_def)
  moreover from handle_event_stays [OF this _ r(3)] r(2) have "stays (snd (handle_event E e (set_events c s)))"
    by (simp add: event_ok_def)
  ultimately show ?thesis using Some ec by (simp add: consume_body_def Let_def)
qed

lemma consume_stays:
  assumes "consume_events E s = Some s'" and "stays s"
  shows "stays s'"
proof -
  from assms(1) have "rust_loop (\<lambda>s. Some (consume_body E s)) s = Some s'" by (simp add: consume_events_def)
  then show ?thesis
    by (rule pure_loop_invariant [where P = stays]) (use assms(2) consume_body_stays in simp_all)
qed

lemma loop_body_stays:
  assumes "stays s"
  shows "event_loop_body E (c, s) = Some (Inl (c', s')) \<Longrightarrow> stays s'"
    and "event_loop_body E (c, s) = Some (Inr (Returns (r, s'))) \<Longrightarrow> stays s'"
proof -
  have o: "stays (let_others_run E s)" if "stays s" for s
    using that others_obs [of "world s"] others_chan by (simp add: stays_def let_others_run_def server_inv_def)
  show "event_loop_body E (c, s) = Some (Inl (c', s')) \<Longrightarrow> stays s'"
    by (erule event_loop_body_InlE) (simp add: o consume_stays try_schedule_stays [OF _ assms])
  show "event_loop_body E (c, s) = Some (Inr (Returns (r, s'))) \<Longrightarrow> stays s'"
    using assms by (auto simp: event_loop_body_def split: option.splits if_splits)
qed

lemma loop_stays:
  assumes "stays s"
  shows "loop_iter (event_loop_body E) n (c, s) = Some (c', s') \<Longrightarrow> stays s'"
    and "run_event_loop E s = Some (Returns (r, s')) \<Longrightarrow> stays s'"
proof -
  show "loop_iter (event_loop_body E) n (c, s) = Some (c', s') \<Longrightarrow> stays s'"
    using assms
  proof (induction n arbitrary: c s)
    case (Suc n)
    then show ?case by (auto split: option.splits sum.splits intro: loop_body_stays(1))
  qed simp
  assume "run_event_loop E s = Some (Returns (r, s'))"
  then have "rust_loop (event_loop_body E) (0, s) = Some (Returns (r, s'))" by (simp add: run_event_loop_def)
  then have "\<forall>q. Returns (r, s') = Returns q \<longrightarrow> stays (snd q)"
    by (rule rust_loop_invariant [where P = "\<lambda>(c, s). stays s" and Q = "\<lambda>x. \<forall>q. x = Returns q \<longrightarrow> stays (snd q)"])
      (use assms in \<open>auto intro: loop_body_stays\<close>)
  then show "stays s'" by simp
qed

end

subsection \<open>Only a switch ends the wait of a runnable worker\<close>

definition shelved :: "pid_t \<Rightarrow> kstate \<Rightarrow> bool" where
  "shelved t st \<longleftrightarrow> (\<exists>wk. ks_workers st t = Some wk \<and> kw_status wk = K_Runnable)"

text \<open>The steps of programs that do not switch to thread \<open>t0\<close>.\<close>

inductive spare_step :: "bool \<Rightarrow> pid_t \<Rightarrow> kstate \<Rightarrow> kstate \<Rightarrow> bool" for interrupts :: bool and t0 :: pid_t where
  call: "may_call st t \<Longrightarrow> obeys st t cmd abs_timeout \<Longrightarrow> (cmd = cmd_u64 Cmd_CtxSwitch \<Longrightarrow> next_tid \<noteq> t0) \<Longrightarrow>
    umcg_ctl e t flags cmd next_tid abs_timeout events event_sz st = Some (r, st') \<Longrightarrow> spare_step interrupts t0 st st'"
| hook: "khook interrupts st st' \<Longrightarrow> spare_step interrupts t0 st st'"

lemma spare_prog: "spare_step i t0 st st' \<Longrightarrow> prog_step i st st'"
  by (induction rule: spare_step.induct) (auto intro: prog_step.intros)

lemma shelved_frames [simp]:
  "shelved t (st\<lparr>ks_calls := x\<rparr>) = shelved t st" "shelved t (st\<lparr>ks_wake := y\<rparr>) = shelved t st" "shelved t (st\<lparr>ks_slots := z\<rparr>) = shelved t st"
  "shelved t (st\<lparr>ks_idle := u\<rparr>) = shelved t st" "shelved t (set_syscall_return t' v st) = shelved t st" "shelved t (free_slot c st) = shelved t st"
  by (simp_all add: shelved_def set_syscall_return_def free_slot_def)

lemma shelved_set_worker: "shelved t (set_worker t' w st) \<longleftrightarrow> (if t' = t then kw_status w = K_Runnable else shelved t st)"
  by (simp add: shelved_def set_worker_def)

lemma shelved_idle: "shelved t (umcg_worker_event_idle t' w ev st) \<longleftrightarrow> (if t' = t then kw_status w = K_Runnable else shelved t st)"
  by (simp add: umcg_worker_event_idle_def shelved_set_worker)

lemmas shelved_simps = shelved_set_worker shelved_idle to_server_Some

lemma shelved_get_events:
  assumes "umcg_server_get_events events k sz st = Some (rv, ws, st')" and "kinv st" and "shelved t st"
  shows "shelved t st'"
proof -
  from assms(2) have "distinct (ks_idle st)" by (simp add: kinv_defs)
  from get_events_result [OF assms(1) this] obtain us where
    st': "st' = st\<lparr>ks_idle := ks_idle st', ks_workers := runnable us (ks_workers st)\<rparr>" by blast
  have "shelved t (st\<lparr>ks_idle := i, ks_workers := runnable us (ks_workers st)\<rparr>)" for i
    using assms(3) by (auto simp: shelved_def runnable_def)
  with st' show ?thesis by metis
qed

lemma shelved_action:
  assumes "blockq_action flags t' b old st = Some (r, st')" and "kinv st" and "shelved t st"
  shows "shelved t st'"
proof -
  have run: "shelved t (bh_state x)" if "run_action flags t' b st = Some x" for x
    using that assms(2,3)
    by (auto simp: run_action_def sleep_bh_def umcg_server_wait_worker_bh_def umcg_server_wait_bh_def umcg_server_ctx_switch_bh_def
        bh_state_def dest: shelved_get_events split: kblock.splits if_splits option.splits)
  show ?thesis
    using assms(1)
  proof (cases rule: action_cases)
    case (finished rv ws st1)
    with run [OF finished(1)] show ?thesis by (simp add: bh_state_def)
  next
    case (blocked ws st1)
    with run [OF blocked(1)] show ?thesis by (simp add: bh_state_def)
  qed
qed

lemma shelved_unregister: "umcg_unregister t' st = Some st' \<Longrightarrow> shelved t st \<Longrightarrow> t' \<noteq> t \<Longrightarrow> shelved t st'"
  by (auto simp: umcg_unregister_def shelved_def to_server_Some split: option.splits)

lemma shelved_wait:
  assumes "umcg_wait e t' nt to events sz st = Some (r, st')" and "kinv st" and "shelved t st" and "t' \<noteq> t"
  shows "shelved t st'"
proof (cases "ks_workers st t'")
  case None
  have worker: "shelved t st'"
    if "ks_workers st nt = Some nx" "blockq_action Normal t' (OnWorker nt) [] (set_worker nt (nx\<lparr>kw_bq := Some t'\<rparr>) st) = Some (r, st')" for nx
    using that assms(3)
    by (auto simp: blockq_action_def run_action_def umcg_server_wait_worker_bh_def shelved_set_worker split: if_splits)
      (auto simp: shelved_def)
  show ?thesis
    using assms(1-3) None
    by (auto simp: umcg_wait_def kreturn_def blockq_check_def intro: worker shelved_action shelved_get_events split: option.splits if_splits)
next
  case (Some w)
  with assms show ?thesis
    by (auto simp: umcg_wait_def kreturn_def bind_eq_Some_conv thread_maybe_sleep_uninterruptible_def shelved_simps split: if_splits)
qed

lemma shelved_switch:
  assumes "umcg_ctx_switch e t' nt to events sz st = Some (r, st')" and "ks_workers st t' = None" and "nt \<noteq> t" and "shelved t st"
  shows "shelved t st'"
proof -
  have "shelved t (st\<lparr>ks_slots := x, ks_next := n\<rparr>)" for x n using assms(4) by (simp add: shelved_def)
  then show ?thesis
    using assms by (auto simp: umcg_ctx_switch_def kreturn_def Let_def switch_blocks shelved_set_worker split: option.splits if_splits)
qed

lemma shelved_ctl:
  assumes "umcg_ctl e t' flags cmd nt to events sz st = Some (r, st')" and "obeys st t' cmd to" and "kinv st" and "shelved t st" and "t' \<noteq> t"
    and "cmd = cmd_u64 Cmd_CtxSwitch \<Longrightarrow> nt \<noteq> t"
  shows "shelved t st'"
proof -
  consider (same) "shelved t st' = shelved t st"
    | (register) "umcg_register_worker e t' to st = Some (r, st')"
    | (unregister) "umcg_unregister t' st = Some st'"
    | (wait) "umcg_wait e t' nt to events (scast sz) st = Some (r, st')"
    | (switch) "cmd = cmd_u64 Cmd_CtxSwitch" "umcg_ctx_switch e t' nt to events (scast sz) st = Some (r, st')"
    using assms(1) by (auto simp: umcg_ctl_def kreturn_def bind_eq_Some_conv split: if_splits)
  then show ?thesis
  proof cases
    case register
    with assms(4,5) show ?thesis
      by (auto simp: umcg_register_worker_def kreturn_def thread_maybe_sleep_uninterruptible_def shelved_simps split: if_splits)
  next
    case switch
    then show ?thesis using assms(2,4,6) by (intro shelved_switch [OF switch(2) _ _ assms(4)]) (simp_all add: obeys_def)
  next
    case unregister
    then show ?thesis using assms(4,5) by (rule shelved_unregister)
  next
    case wait
    then show ?thesis using assms(3-5) by (rule shelved_wait)
  qed (use assms(4) in simp)
qed

lemma shelved_hook:
  assumes "khook i st st'" and "kinv st" and "shelved t st"
  shows "shelved t st'"
  using assms
proof (induction rule: khook.induct)
  case (action st t' b old flags r st')
  then show ?case using shelved_action by blast
next
  case (pause st t' worker sc st')
  then show ?case by (auto simp: umcg_worker_pause_def shelved_set_worker split: if_splits) (simp_all add: shelved_def)
next
  case (syscall_pause t' st st')
  then show ?case by (auto simp: umcg_syscall_pause_def shelved_simps split: option.splits if_splits) (simp_all add: shelved_def)
next
  case (schedule st t' worker interval e st')
  then show ?case by (auto simp: umcg_worker_schedule_return_def shelved_simps split: if_splits) (simp_all add: shelved_def)
next
  case (timeout st t' worker)
  then show ?case by (auto simp: umcg_worker_timeout_def Let_def shelved_simps) (simp_all add: shelved_def)
next
  case (free st t' st')
  have "t' \<noteq> t" using free(1,4) by (auto simp: may_call_def shelved_def)
  with free show ?case using shelved_unregister unfolding umcg_worker_thread_free_def by blast
qed

lemma spare_step_shelved:
  assumes "spare_step i t0 st st'" and "kinv st" and "shelved t0 st"
  shows "shelved t0 st'"
  using assms
proof (induction rule: spare_step.induct)
  case (call st t cmd to nt e flags events sz r st')
  have "t \<noteq> t0" using call(1,6) by (auto simp: may_call_def shelved_def)
  with call show ?case by (intro shelved_ctl [OF call(4,2)])
next
  case (hook st st')
  then show ?case by (rule shelved_hook)
qed

subsection \<open>The event loop and the module together\<close>

text \<open>Other threads follow the rules of theory \<open>A2_Module\<close> and do not switch to thread \<open>t0\<close>.\<close>

definition sparing_rules :: "bool \<Rightarrow> pid_t \<Rightarrow> pid_t \<Rightarrow> krules" where
  "sparing_rules i srv t0 = (program_rules i srv)
     \<lparr>kr_step := (\<lambda>st st'. spare_step i t0 st st' \<and> ks_calls st' srv = ks_calls st srv)\<rparr>"

lemma sparing_program:
  assumes "module_call (sparing_rules i srv t0) t a buf st rv ws st'"
  shows "module_call (program_rules i srv) t a buf st rv ws st'"
  using assms
proof (induction rule: module_call.induct)
  case (returns e rv ws st')
  then show ?case by (intro module_call.returns [of _ e]) (simp_all add: sparing_rules_def)
next
  case (blocks e st1 st2 b old flags rv ws st')
  have "(kr_step (program_rules i srv))\<^sup>*\<^sup>* st1 st2"
    by (rule rtranclp_mono [THEN predicate2D, OF _ blocks(3)]) (auto simp: sparing_rules_def program_rules_def intro: spare_prog)
  from module_call.blocks [OF _ blocks(2) this blocks(4) _ blocks(6)] blocks(1,5) show ?case by (simp add: sparing_rules_def)
qed

lemma ready_kinv: "prog_reach i st \<Longrightarrow> kinv st"
  using kreach_kinv prog_reach_kreach by blast

lemma spare_steps_shelved:
  assumes "(kr_step (sparing_rules i srv t0))\<^sup>*\<^sup>* st st'" and "prog_reach i st" and "shelved t0 st"
  shows "prog_reach i st' \<and> shelved t0 st'"
  using assms
proof (induction rule: rtranclp_induct)
  case (step st1 st2)
  then have s: "spare_step i t0 st1 st2" "prog_reach i st1" "shelved t0 st1" by (simp_all add: sparing_rules_def)
  show ?case using prog_reach.step [OF s(2) spare_prog [OF s(1)]] spare_step_shelved [OF s(1) ready_kinv [OF s(2)] s(3)] by simp
qed simp

lemma module_switch_shelved:
  assumes "module_call (sparing_rules i srv t0) srv (switch_args t) (Some [0, 0]) st rv ws st'"
    and r: "server_ready i srv st" and p: "shelved t0 st" and "t \<noteq> t0"
  shows "shelved t0 st'"
proof -
  have reach: "prog_reach i st" and server: "ks_workers st srv = None" using r by (simp_all add: server_ready_def)
  have start: "shelved t0 st1" "prog_reach i st1" if "ctl_of e srv (switch_args t) (Some [0, 0]) st = Some (x, st1)" for e x st1
  proof -
    note ctl = that [unfolded ctl_switch]
    show "shelved t0 st1" using shelved_switch [OF ctl [unfolded ctl_switch_eq] server assms(4) p] .
    show "prog_reach i st1"
      by (rule prog_reach.step [OF reach prog_step.call [OF ready_may_call [OF r] switch_obeys [OF server] ctl]])
  qed
  show ?thesis
    using assms(1)
  proof (cases rule: module_call.cases)
    case (returns e)
    from start(1) [OF returns(2)] show ?thesis .
  next
    case (blocks e st1 st2 b old flags)
    from spare_steps_shelved [OF blocks(3) start(2,1) [OF blocks(2)]] have "prog_reach i st2" "shelved t0 st2" by simp_all
    with shelved_action [OF blocks(6) ready_kinv] show ?thesis by blast
  qed
qed

text \<open>The events of idle workers, which a wait reports, are neither \<open>WAIT\<close> nor \<open>BLOCK\<close> when only servers switch.\<close>

definition idle_event :: "u64 \<Rightarrow> bool" where
  "idle_event e \<longleftrightarrow> event_type e \<notin> {event_u64 Ev_Wait, event_u64 Ev_Block}"

abbreviation idle_events :: "u64 list \<Rightarrow> bool" where
  "idle_events es \<equiv> \<forall>e \<in> set es. idle_event e"

text \<open>
  A server on the module: the containers' contracts, the kernel's answers, and what other
  threads do during a switch and between two iterations.
\<close>

locale module_loop =
  q: array_queue "queue E" items cap + mt: manage_task "manager E" waiting limit + ch: bounded_channel "consumer E" msgs room receiver
  for E :: "('q, 'm, 't, 'c, 'x) env" and items :: "'q \<Rightarrow> u64 list" and cap :: "'q \<Rightarrow> nat"
    and waiting :: "'m \<Rightarrow> 't tracked_task list" and limit :: "'m \<Rightarrow> nat"
    and msgs :: "'c \<Rightarrow> u64 list" and room :: "'c \<Rightarrow> nat" and receiver :: "'c \<Rightarrow> bool" +
  fixes i :: bool and srv :: pid_t and t0 :: pid_t and kst :: "'x \<Rightarrow> kstate"
  assumes switches: "answers_switches (sparing_rules i srv t0) i srv (\<lambda>w. kst (wd_ext w)) (kernel E)"
    and during: "dom (wd_channels (sr_world (kernel E args buf w))) = dom (wd_channels w)"
      "length (waiting (wd_tasks (sr_world (kernel E args buf w)))) \<le> length (waiting (wd_tasks w))"
      "\<forall>e \<in> set (msgs (wd_events (sr_world (kernel E args buf w)))). e \<in> set (msgs (wd_events w)) \<or> idle_event e"
      "length (msgs (wd_events (sr_world (kernel E args buf w)))) \<le> length (msgs (wd_events w))"
    and between: "dom (wd_channels (others E w)) = dom (wd_channels w)"
      "\<forall>e \<in> set (msgs (wd_events (others E w))). e \<in> set (msgs (wd_events w)) \<or> idle_event e"
      "(\<lambda>st st'. spare_step i t0 st st' \<and> ks_calls st' srv = ks_calls st srv \<and> ks_workers st' srv = ks_workers st srv)\<^sup>*\<^sup>*
        (kst (wd_ext w)) (kst (wd_ext (others E w)))"
begin

abbreviation ready :: "'x \<Rightarrow> bool" where
  "ready x \<equiv> server_ready i srv (kst x)"

lemma between_ready:
  assumes "ready (wd_ext w)"
  shows "ready (wd_ext (others E w))" and "shelved t0 (kst (wd_ext w)) \<Longrightarrow> shelved t0 (kst (wd_ext (others E w)))"
proof -
  have steps: "server_ready i srv st' \<and> (shelved t0 st \<longrightarrow> shelved t0 st')"
    if "(\<lambda>st st'. spare_step i t0 st st' \<and> ks_calls st' srv = ks_calls st srv \<and> ks_workers st' srv = ks_workers st srv)\<^sup>*\<^sup>* st st'"
      "server_ready i srv st" for st st'
    using that
  proof (induction rule: rtranclp_induct)
    case (step st1 st2)
    then have s: "spare_step i t0 st1 st2" and r: "prog_reach i st1" by (simp_all add: server_ready_def)
    from prog_reach.step [OF r spare_prog [OF s]] spare_step_shelved [OF s ready_kinv [OF r]] step show ?case
      by (auto simp: server_ready_def)
  qed simp
  from steps [OF between(3) assms] show "ready (wd_ext (others E w))"
    "shelved t0 (kst (wd_ext w)) \<Longrightarrow> shelved t0 (kst (wd_ext (others E w)))" by simp_all
qed

lemma program: "answers_switches (program_rules i srv) i srv (\<lambda>w. kst (wd_ext w)) (kernel E)"
  using switches unfolding answers_switches_def by (blast intro: sparing_program)

lemma ready_loop: "ready_loop E ready"
  using answers_switchesD(2) [OF program] between_ready(1) by unfold_locales auto

end

sublocale module_loop \<subseteq> guard: ready_loop E "\<lambda>x. server_ready i srv (kst x)"
  by (rule ready_loop)

context module_loop
begin

lemma guarded: "kernel guard.F = refusing (\<lambda>w. ready (wd_ext w)) (kernel E)"
  by (simp add: guard.F_def)

lemma idle_eventD: "idle_event e \<Longrightarrow> event_type e \<noteq> event_u64 Ev_Wait \<and> event_type e \<noteq> event_u64 Ev_Block"
  by (simp add: idle_event_def)

lemma contract: "switch_kernel (kernel guard.F)"
  using refusing_contract [OF program during(1)] by (simp add: guarded)

lemma behind: "left_behind guard.F items cap t0 (\<lambda>c x. idle_events (msgs c) \<and> ready x \<and> shelved t0 (kst x))"
proof (intro left_behind.intro left_behind_axioms.intro server_loop.intro)
  fix t and w :: "('m, 't, 'c, 'x) world"
  assume t: "t \<noteq> t0" and o: "idle_events (msgs (wd_events w)) \<and> ready (wd_ext w) \<and> shelved t0 (kst (wd_ext w))"
  let ?w = "sr_world (kernel E (switch_args t) (Some [0, 0]) w)"
  from o switches obtain rv where "module_call (sparing_rules i srv t0) srv (switch_args t) (Some [0, 0]) (kst (wd_ext w)) rv
      (sr_written (kernel E (switch_args t) (Some [0, 0]) w)) (kst (wd_ext ?w))"
    unfolding answers_switches_def by blast
  from module_switch_shelved [OF this _ _ t] o have "shelved t0 (kst (wd_ext ?w))" by blast
  moreover have "idle_events (msgs (wd_events ?w))" using o during(3) by blast
  ultimately show
    "idle_events (msgs (wd_events (sr_world (kernel guard.F (switch_args t) (Some [0, 0]) w)))) \<and>
     ready (wd_ext (sr_world (kernel guard.F (switch_args t) (Some [0, 0]) w))) \<and>
     shelved t0 (kst (wd_ext (sr_world (kernel guard.F (switch_args t) (Some [0, 0]) w))))"
    using o answers_switchesD(2) [OF program, of w] by (simp add: guarded refusing_def)
next
  fix c x e c'
  assume "idle_events (msgs c) \<and> ready x \<and> shelved t0 (kst x)" and "ch_try_recv (consumer guard.F) c = Some (e, c')"
  with ch.recv_SomeD [of c e c'] show "(idle_events (msgs c') \<and> ready x \<and> shelved t0 (kst x)) \<and> event_type e \<noteq> event_u64 Ev_Wait \<and>
      (event_worker e = worker_id_of t0 \<longrightarrow> event_type e \<noteq> event_u64 Ev_Block)"
    using idle_eventD [of e] by simp
next
  fix w :: "('m, 't, 'c, 'x) world"
  assume "idle_events (msgs (wd_events w)) \<and> ready (wd_ext w) \<and> shelved t0 (kst (wd_ext w))"
  with between(2) between_ready show "idle_events (msgs (wd_events (others guard.F w))) \<and> ready (wd_ext (others guard.F w)) \<and>
      shelved t0 (kst (wd_ext (others guard.F w)))" by simp blast
qed (use contract q.array_queue_axioms between(1) in simp_all)

lemma loop: "event_loop guard.F items cap waiting limit msgs room receiver"
proof (intro event_loop.intro sched_loop.intro server_loop.intro sched_loop_axioms.intro event_loop_axioms.intro)
  fix args buf and w :: "('m, 't, 'c, 'x) world"
  assume n: "no_wait (msgs (wd_events w))"
  then show "no_wait (msgs (wd_events (sr_world (kernel guard.F args buf w))))"
    using during(3) [of args buf w] idle_eventD by (auto simp: guarded refusing_def no_wait_def simp del: event_u64.simps)
  from n show "no_wait (msgs (wd_events (others guard.F w)))"
    using between(2) [of w] idle_eventD by (auto simp: no_wait_def simp del: event_u64.simps)
qed (use contract q.array_queue_axioms mt.manage_task_axioms ch.bounded_channel_axioms during(2,4) between(1) in
    \<open>simp_all add: guarded refusing_def\<close>)

definition abandoned :: "('q, 'm, 't, 'c, 'x) server \<Rightarrow> bool" where
  "abandoned s \<longleftrightarrow> server_inv items cap s \<and> states s (worker_id_of t0) = Some Running \<and> shelved t0 (kst (wd_ext (world s)))"

lemma loop_abandons:
  assumes "abandoned s" and "ready (wd_ext (world s))" and "idle_events (msgs (wd_events (world s)))"
  shows "(\<exists>c s'. loop_iter (event_loop_body E) n (0, s) = Some (c, s') \<and> abandoned s') \<or>
    (\<exists>s'. run_event_loop E s = Some (Returns (Inr (), s')) \<and> wd_done (world s') \<and> abandoned s')"
proof -
  let ?stays = "left_behind.stays items cap t0 (\<lambda>c x. idle_events (msgs c) \<and> ready x \<and> shelved t0 (kst x))"
  note stays = left_behind.stays_def [OF behind]
  from assms have s: "?stays s" by (simp add: stays abandoned_def)
  have a: "abandoned s'" if "?stays s'" for s' using that by (simp add: stays abandoned_def)
  have "event_loop.loop_inv items cap msgs s"
    using assms idle_eventD by (simp add: event_loop.loop_inv_def [OF loop] abandoned_def no_wait_def)
  note agree = guard.loop_agree [OF assms(2)]
  note stay = left_behind.loop_stays [OF behind s, unfolded agree, THEN a]
  from event_loop.loop_progress [OF loop \<open>event_loop.loop_inv items cap msgs s\<close>, of n, unfolded agree] show ?thesis
    using stay by blast
qed

end

subsection \<open>A concrete run\<close>

text \<open>The module and the server of theory \<open>A2_Module\<close> after the only task was started and preempted.\<close>

definition kst_left :: kstate where
  "kst_left = kst2\<lparr>ks_workers := [4 \<mapsto> kworker4\<lparr>kw_status := K_Runnable, kw_bq := Some 9, kw_slot := Some 0\<rparr>], ks_next := 1\<rparr>"

definition a2_left_server ::
  "(nat \<times> u64 list, nat \<times> nat tracked_task list, nat, nat \<times> bool \<times> u64 list, kstate) server" where
  "a2_left_server = \<lparr>srv_id = 0, states = [128 \<mapsto> Running],
     worker_queues = \<lparr>pending = (3, []), running = (3, [128]), preempted = (3, [])\<rparr>,
     world = \<lparr>wd_tasks = (10, []), wd_channels = [128 \<mapsto> mpsc_channel\<lparr>mpsc_buf := [Function 5]\<rparr>], wd_events = (10, True, []),
              wd_done = False, wd_wait = False, wd_ext = kst_left\<rparr>\<rparr>"

text \<open>The run: the switch to worker 4 ends with its preemption.\<close>

lemma left_switch:
  "preempting kenv0 9 (\<lambda>st w. w\<lparr>wd_ext := st\<rparr>) wd_ext (switch_args 4) (Some [0, 0]) w =
     sysres_of 0 [128 OR event_u64 Ev_Preempt, 0] (w\<lparr>wd_ext := kst_left\<rparr>)" if "wd_ext w = kst2"
proof -
  have c: "ctl_of kenv0 9 (switch_args 4) (Some [0, 0]) kst2 = Some (None, kst3)"
    unfolding ctl_switch using run_switch by simp
  let ?st = "kst3\<lparr>ks_workers := [4 \<mapsto> kworker4\<lparr>kw_status := K_Runnable, kw_bq := Some 9, kw_slot := Some 0\<rparr>],
    ks_slots := [0 \<mapsto> 128 OR event_u64 Ev_Preempt]\<rparr>"
  have s: "umcg_worker_schedule_return 0 kenv0 4 kst3 = Some ?st"
    by (simp add: umcg_worker_schedule_return_def umcg_worker_event_to_server_def set_worker_def event_word_def kst_defs del: event_u64.simps)
  have "128 OR event_u64 Ev_Preempt \<noteq> 0" by simp
  from switch_completes [of ?st 0, OF _ this, of 9]
  have a: "blockq_action Normal 9 (OnSwitch 0 (Some 2) 2) [] ?st = Some (Some (0, [128 OR event_u64 Ev_Preempt, 0]), kst_left)"
    by (simp add: kst_left_def free_slot_def kst_defs fun_upd_def fun_eq_iff del: event_u64.simps)
  have "ks_calls ?st 9 = Some (OnSwitch 0 (Some 2) 2, [])" by (simp add: kst_defs)
  with c s a that show ?thesis by (simp add: preempting_def switch_args_def del: event_u64.simps)
qed

lemma handle_preempt:
  "handle_event E (worker_id_of t OR event_u64 Ev_Preempt) s =
     (Inl (InvalidWorkerEvent (worker_id_of t) (worker_id_of t OR event_u64 Ev_Preempt)), s)"
  using handle_event_other [of "worker_id_of t OR event_u64 Ev_Preempt" E s]
  unfolding event_type_of_word event_worker_of_word by simp

lemma left_run:
  "try_schedule_tasks a2_module_env a2_module_server =
     Some (Inl (InvalidWorkerEvent 128 (128 OR event_u64 Ev_Preempt)), a2_left_server)"
proof -
  note h = handle_preempt [of _ 4, unfolded worker_id_4]
  have tid: "worker_tid 128 = 4" unfolding worker_id_4 [symmetric] by simp
  have n: "128 OR event_u64 Ev_Preempt \<noteq> 0" by simp
  have sz: "scast (of_nat EVENT_BUFFER_SIZE :: i32) = (2 :: u64)" by (simp add: EVENT_BUFFER_SIZE_def)
  have sw: "ctx_switch a2_module_env 128 s = (0, [128 OR event_u64 Ev_Preempt, 0], s\<lparr>world := (world s)\<lparr>wd_ext := kst_left\<rparr>\<rparr>)"
    if "wd_ext (world s) = kst2" for s
    using left_switch [OF that] sz by (simp add: ctx_switch_def umcg_syscall_def tid switch_args_def a2_module_env_def Let_def overwrite_def sysres_of_def del: event_u64.simps)
  have env: "queue a2_module_env = list_queue" "manager a2_module_env = task_queue_ops list_queue" by (simp_all add: a2_module_env_def)
  show ?thesis
    unfolding try_schedule_tasks_def
    by (subst rust_loop.simps) (simp add: env Let_def task_queue_ops_def remove_task_def mpsc_channel_def TrackedTask_new_def try_schedule_body_def dispatch_def start_running_def send_task_def mpsc_send_def
        set_pending_def set_tasks_def set_status_def a2_module_server_def a2_left_server_def sw live_events_def n h
        del: event_u64.simps)
qed

lemma left_inv: "server_inv snd fst a2_left_server"
proof -
  have "busy [128 \<mapsto> Running] = {128}" by (auto simp: busy_def split: if_splits)
  moreover have "(128 :: u64) \<in> range worker_id_of" using worker_id_4 by (metis rangeI)
  ultimately show ?thesis by (auto simp: server_inv_def a2_left_server_def)
qed

text \<open>The state after the run is a state of the module.\<close>

lemma left_ready: "server_ready False 9 (wd_ext (world a2_left_server))"
proof -
  have "server_ready False 9 (wd_ext (world a2_module_server))"
    using prog_reach_run(2) by (simp add: server_ready_def a2_module_server_def) (simp add: kst_defs)
  from a2_module_env.try_schedule_agree(2) [OF this left_run] show ?thesis .
qed

lemma preempting_events:
  "wd_events (sr_world (preempting e srv (\<lambda>st w. w\<lparr>wd_ext := st\<rparr>) kst a buf w)) = wd_events w"
  by (auto simp: preempting_def Let_def split: option.split prod.split)

interpretation a2_module_loop: module_loop a2_module_env snd fst snd fst
    "\<lambda>(n, alive, xs). xs" "\<lambda>(n, alive, xs). n" "\<lambda>(n, alive, xs). alive" False 9 4 "\<lambda>x. x"
proof (intro module_loop.intro module_loop_axioms.intro)
  show "answers_switches (sparing_rules False 9 4) False 9 (\<lambda>w. wd_ext w) (kernel a2_module_env)"
    unfolding a2_module_env_def
    by (simp, rule preempting_answers) (auto simp: sparing_rules_def program_rules_def may_end_def intro: spare_step.hook)
qed (use list_queue.array_queue_axioms list_tasks.task_queue_contract list_chan.bounded_channel_axioms in
    \<open>simp_all add: a2_module_env_def preempting_frame preempting_events\<close>)

interpretation a2_left: left_behind a2_module_env.F snd fst 4
    "\<lambda>c x. (\<forall>e \<in> set ((\<lambda>(n, alive, xs). xs) c). idle_event e) \<and> server_ready False 9 x \<and> shelved 4 x"
  by (rule a2_module_loop.behind)

subsection \<open>Properties\<close>



end
