(* ===== verification/A2_Routed.thy ===== *)
theory A2_Routed
  imports Kernel_Idle A2_Preempt A2_Router
begin

text \<open>
  The routing thread of \<open>attempt2.rs\<close> on the kernel module: every event it sends to a server is
  the \<open>WAKE\<close> or \<open>TIMEOUT\<close> of a registered worker, which is what the event loop of the servers
  relies on, and the index into \<open>worker_to_server\<close> does not panic.
\<close>

subsection \<open>The calls of the routing thread\<close>

definition wait_args :: "u64 \<Rightarrow> sysargs" where
  "wait_args to = \<lparr>a_nr = SYS_UMCG_CTL, a_flags = 0, a_cmd = cmd_u64 Cmd_Wait, a_next_tid = 0, a_timeout = to, a_event_sz = 10\<rparr>"

definition server_args :: sysargs where
  "server_args = \<lparr>a_nr = SYS_UMCG_CTL, a_flags = 0, a_cmd = cmd_u64 Cmd_RegisterServer, a_next_tid = 0, a_timeout = 0, a_event_sz = 0\<rparr>"

inductive router_call :: "sysargs \<Rightarrow> u64 list option \<Rightarrow> bool" where
  register: "router_call server_args None"
| wait: "to \<noteq> 0 \<Longrightarrow> router_call (wait_args to) (Some (replicate 10 0))"

text \<open>Other threads follow the rules of theory \<open>Kernel_Owner\<close>, and only threads of \<open>T\<close> are workers.\<close>

definition routed_rules :: "bool \<Rightarrow> pid_t \<Rightarrow> pid_t set \<Rightarrow> krules" where
  "routed_rules i srv T = (program_rules i srv)
     \<lparr>kr_step := (\<lambda>st st'. prog_step i st st' \<and> dom (ks_workers st') \<subseteq> T \<and> ks_calls st' srv = ks_calls st srv)\<rparr>"

definition router_ready :: "bool \<Rightarrow> pid_t \<Rightarrow> pid_t set \<Rightarrow> kstate \<Rightarrow> bool" where
  "router_ready i srv T st \<longleftrightarrow> server_ready i srv st \<and> dom (ks_workers st) \<subseteq> T"

lemma get_events_same:
  assumes "umcg_server_get_events events k sz st = Some (rv, ws, st')" and "kinv st"
  shows "ks_workers st' t = None \<longleftrightarrow> ks_workers st t = None"
proof -
  from assms(2) have "distinct (ks_idle st)" by (simp add: kinv_defs)
  from get_events_result [OF assms(1) this] obtain us where
    st': "st' = st\<lparr>ks_idle := ks_idle st', ks_workers := runnable us (ks_workers st)\<rparr>" by blast
  have "ks_workers st' = runnable us (ks_workers st)" by (subst st') simp
  then show ?thesis by (simp add: runnable_def)
qed

lemma idle_action_same:
  assumes "blockq_action flags t (OnIdle to ev sz) old st = Some (r, st')" and "kinv st"
  shows "ks_workers st' u = None \<longleftrightarrow> ks_workers st u = None"
proof -
  have run: "ks_workers (bh_state x) u = None \<longleftrightarrow> ks_workers st u = None" if "run_action flags t (OnIdle to ev sz) st = Some x" for x
    using that assms(2)
    by (auto simp: run_action_def umcg_server_wait_bh_def bh_state_def get_events_same simp del: not_None_eq split: if_splits option.splits)
  show ?thesis
    using assms(1)
  proof (cases rule: action_cases)
    case (finished rv ws st1)
    with run [OF finished(1)] show ?thesis by (simp add: bh_state_def)
  next
    case (blocked ws st1)
    with run [OF blocked(1)] show ?thesis by (simp add: bh_state_def)
  qed
qed

lemma ctl_router:
  "ctl_of e srv server_args None st = Some (Some (0, []), st)"
  "ctl_of e srv (wait_args to) (Some (replicate 10 0)) st = umcg_wait e srv 0 to (Some 10) 10 st"
  by (simp_all add: ctl_of_def server_args_def wait_args_def umcg_ctl_def kreturn_def)

text \<open>A wait that starts: it answers at once with events of idle workers, or blocks.\<close>

lemma wait_start:
  assumes "umcg_wait e srv 0 to (Some 10) 10 st = Some (x, st1)" and r: "router_ready i srv T st"
  shows "prog_reach i st1" and "dom (ks_workers st1) \<subseteq> T" and "ks_workers st1 srv = None"
    and "x = Some (rv, ws) \<Longrightarrow> (\<forall>v \<in> set ws. v \<noteq> 0 \<longrightarrow> idle_word T v) \<and> ks_calls st1 srv = None"
    and "x = None \<Longrightarrow> \<exists>old. ks_calls st1 srv = Some (OnIdle to (Some 10) 10, old) \<and> set old \<subseteq> {0}"
proof -
  have reach: "prog_reach i st" and server: "ks_workers st srv = None" "ks_calls st srv = None" and T: "dom (ks_workers st) \<subseteq> T"
    using r by (simp_all add: router_ready_def server_ready_def)
  note k = ready_kinv [OF reach]
  have "umcg_ctl e srv 0 (cmd_u64 Cmd_Wait) 0 to (Some 10) 10 st = Some (x, st1)" using assms(1) by (simp add: umcg_ctl_def)
  then show r1: "prog_reach i st1"
    using reach server by (intro prog_reach.step [OF reach prog_step.call]) (simp_all add: may_call_def obeys_def)
  have mono: "idle_word T v" if "idle_word (dom (ks_workers st)) v" for v using that T by (auto simp: idle_word_def)
  consider (err) err where "x = Some (- err, [])" "st1 = st"
    | (poll) rv1 rv ws where "umcg_server_get_events (Some 10) 0 10 st = Some (rv1, ws, st1)" "x = Some (rv, ws)"
    | (idle) "blockq_action Normal srv (OnIdle to (Some 10) 10) [] st = Some (x, st1)"
    using assms(1) server(1) by (auto simp: umcg_wait_def kreturn_def blockq_check_def split: if_splits)
  then have "(\<forall>u. ks_workers st1 u = None \<longleftrightarrow> ks_workers st u = None) \<and>
    (\<forall>rv ws. x = Some (rv, ws) \<longrightarrow> (\<forall>v \<in> set ws. v \<noteq> 0 \<longrightarrow> idle_word T v) \<and> ks_calls st1 srv = None) \<and>
    (x = None \<longrightarrow> (\<exists>old. ks_calls st1 srv = Some (OnIdle to (Some 10) 10, old) \<and> set old \<subseteq> {0}))"
  proof cases
    case err
    then show ?thesis using server by simp
  next
    case poll
    have "ks_calls st1 = ks_calls st" using poll(1) by (auto simp: umcg_server_get_events_def split: option.splits)
    with poll get_events_same [OF poll(1) k] get_events_idle [OF poll(1) reach] mono server show ?thesis by auto
  next
    case idle
    have "\<exists>old. ks_calls st1 srv = Some (OnIdle to (Some 10) 10, old)" if "x = None"
      using idle that by (cases rule: action_cases) simp_all
    moreover have "ks_calls st1 srv = None" if "x \<noteq> None" using idle that by (cases rule: action_cases) simp_all
    ultimately show ?thesis
      using idle_action_same [OF idle k] idle_action_words [of Normal srv to "Some 10" 10 "[]" st _ _ st1 i] idle reach mono prog_reach_tame [OF r1]
      unfolding tame_def by (cases x) auto
  qed
  then show "dom (ks_workers st1) \<subseteq> T" "ks_workers st1 srv = None"
    "x = Some (rv, ws) \<Longrightarrow> (\<forall>v \<in> set ws. v \<noteq> 0 \<longrightarrow> idle_word T v) \<and> ks_calls st1 srv = None"
    "x = None \<Longrightarrow> \<exists>old. ks_calls st1 srv = Some (OnIdle to (Some 10) 10, old) \<and> set old \<subseteq> {0}"
    using T server(1) by (auto simp: dom_def)
qed

text \<open>While the routing thread is blocked its call stays, and it does not become a worker.\<close>

lemma router_blocked:
  assumes "(kr_step (routed_rules i srv T))\<^sup>*\<^sup>* st st'" and "prog_reach i st" and "dom (ks_workers st) \<subseteq> T"
    and "ks_calls st srv \<noteq> None" and "ks_workers st srv = None"
  shows "prog_reach i st' \<and> dom (ks_workers st') \<subseteq> T \<and> ks_calls st' srv = ks_calls st srv \<and> ks_workers st' srv = None"
  using assms
proof (induction rule: rtranclp_induct)
  case (step st1 st2)
  then have "prog_step i st1 st2" "dom (ks_workers st2) \<subseteq> T" "ks_calls st2 srv = ks_calls st1 srv" by (simp_all add: routed_rules_def)
  with step show ?case by (auto intro: prog_reach.step prog_step_workers simp del: not_None_eq)
qed simp

lemma module_router_call:
  assumes "module_call (routed_rules i srv T) srv a buf st rv ws st'" and a: "router_call a buf" and r: "router_ready i srv T st"
  shows "(\<forall>v \<in> set ws. v \<noteq> 0 \<longrightarrow> idle_word T v) \<and> router_ready i srv T st'"
  using a
proof cases
  case register
  from assms(1) show ?thesis
  proof (cases rule: module_call.cases)
    case (returns e)
    then show ?thesis using r by (simp add: register ctl_router)
  qed (simp add: register ctl_router)
next
  case (wait to)
  from assms(1) show ?thesis
  proof (cases rule: module_call.cases)
    case (returns e)
    from wait_start [OF returns(2) [unfolded wait(1,2) ctl_router] r] show ?thesis by (simp add: router_ready_def server_ready_def)
  next
    case (blocks e st1 st2 b old flags)
    note s = wait_start [OF blocks(2) [unfolded wait(1,2) ctl_router] r]
    from s(5) obtain old1 where old: "ks_calls st1 srv = Some (OnIdle to (Some 10) 10, old1)" "set old1 \<subseteq> {0}" by blast
    from router_blocked [OF blocks(3) s(1,2) _ s(3)] old blocks(4) have
      r2: "prog_reach i st2" "dom (ks_workers st2) \<subseteq> T" "ks_workers st2 srv = None" and b: "b = OnIdle to (Some 10) 10" "old = old1"
      by auto
    note act = blocks(6) [unfolded b]
    have "prog_step i st2 st'"
      using blocks(5) by (intro prog_step.hook khook.action [OF blocks(4) _ blocks(6)]) (simp add: routed_rules_def program_rules_def)
    from prog_reach.step [OF r2(1) this] have "prog_reach i st'" .
    moreover have "ks_calls st' srv = None" using act by (cases rule: action_cases) auto
    moreover note idle_action_same [OF act ready_kinv [OF r2(1)]]
    ultimately have "router_ready i srv T st'" using r2 by (auto simp: router_ready_def server_ready_def dom_def)
    moreover have "idle_word T v" if "v \<in> set ws" "v \<noteq> 0" for v
      using idle_action_words [OF act r2(1) old(2) that] r2(2) by (auto simp: idle_word_def)
    ultimately show ?thesis by blast
  qed
qed

subsection \<open>The routing thread on the module\<close>

definition answers_router :: "krules \<Rightarrow> bool \<Rightarrow> pid_t \<Rightarrow> pid_t set \<Rightarrow> ('w \<Rightarrow> kstate) \<Rightarrow> 'w kernel \<Rightarrow> bool" where
  "answers_router R i srv T kst K \<longleftrightarrow> (\<forall>a buf w. router_call a buf \<and> router_ready i srv T (kst w) \<longrightarrow>
     (\<exists>rv. answers (K a buf w) rv \<and> module_call R srv a buf (kst w) rv (sr_written (K a buf w)) (kst (sr_world (K a buf w)))))"

lemma answers_routerD:
  assumes "answers_router (routed_rules i srv T) i srv T kst K" and "router_call a buf" and "router_ready i srv T (kst w)"
  shows "(\<forall>v \<in> set (sr_written (K a buf w)). v \<noteq> 0 \<longrightarrow> idle_word T v) \<and> router_ready i srv T (kst (sr_world (K a buf w)))"
  using assms module_router_call unfolding answers_router_def by blast

lemma idle_word_event:
  assumes "idle_word T v"
  shows "idle_event v" and "\<exists>t \<in> T. event_worker v = worker_id_of t"
proof -
  from assms obtain t ev where t: "t \<in> T" "ev \<in> idle_kinds" "v = worker_id_of t OR event_u64 ev" by (auto simp: idle_word_def)
  then show "\<exists>t \<in> T. event_worker v = worker_id_of t" by auto
  have "event_type v = event_u64 ev" unfolding t(3) by (rule event_type_of_word)
  then show "idle_event v" using t(2) by (auto simp: idle_event_def idle_kinds_def)
qed

locale routed_module = ch: bounded_channel "rt_chan R" msgs room receiver
  for R :: "('c, 'x) routing_env" and msgs :: "'c \<Rightarrow> u64 list" and room :: "'c \<Rightarrow> nat" and receiver :: "'c \<Rightarrow> bool" +
  fixes rs :: routing_server and i :: bool and srv :: pid_t and T :: "pid_t set" and kst :: "'x \<Rightarrow> kstate"
  assumes calls: "answers_router (routed_rules i srv T) i srv T (\<lambda>w. kst (rw_ext w)) (rt_kernel R)"
    and known: "worker_id_of ` T \<subseteq> dom (worker_to_server rs)"
    and clock: "rt_clock R w + 50000 < 2 ^ 64"
    and kernel_chan: "rw_senders (sr_world (rt_kernel R a buf w)) j = Some c' \<Longrightarrow>
      \<exists>c. rw_senders w j = Some c \<and> set (msgs c') \<subseteq> set (msgs c)"
    and others_chan: "rw_senders (rt_others R w) j = Some c' \<Longrightarrow> \<exists>c. rw_senders w j = Some c \<and> set (msgs c') \<subseteq> set (msgs c)"
    and others_steps: "(\<lambda>st st'. prog_step i st st' \<and> dom (ks_workers st') \<subseteq> T \<and> ks_calls st' srv = ks_calls st srv \<and>
        ks_workers st' srv = ks_workers st srv)\<^sup>*\<^sup>* (kst (rw_ext w)) (kst (rw_ext (rt_others R w)))"
begin

abbreviation ready :: "('c, 'x) routing_world \<Rightarrow> bool" where
  "ready w \<equiv> router_ready i srv T (kst (rw_ext w))"

text \<open>All messages on their way to the servers are idle events of workers.\<close>

definition clean :: "('c, 'x) routing_world \<Rightarrow> bool" where
  "clean w \<longleftrightarrow> ready w \<and> (\<forall>j c. rw_senders w j = Some c \<longrightarrow> (\<forall>e \<in> set (msgs c). idle_word T e))"

lemma kernel_clean:
  assumes "router_call a buf" and "clean w"
  shows "clean (sr_world (rt_kernel R a buf w))" and "\<forall>v \<in> set (sr_written (rt_kernel R a buf w)). v \<noteq> 0 \<longrightarrow> idle_word T v"
  using answers_routerD [OF calls assms(1)] assms(2) kernel_chan by (fastforce simp: clean_def)+

lemma others_clean:
  assumes "clean w"
  shows "clean (rt_others R w)"
proof -
  have "router_ready i srv T st'"
    if "(\<lambda>st st'. prog_step i st st' \<and> dom (ks_workers st') \<subseteq> T \<and> ks_calls st' srv = ks_calls st srv \<and>
        ks_workers st' srv = ks_workers st srv)\<^sup>*\<^sup>* st st'" "router_ready i srv T st" for st st'
    using that by (induction rule: rtranclp_induct) (auto simp: router_ready_def server_ready_def intro: prog_reach.step)
  from this [OF others_steps] assms have "ready (rt_others R w)" by (simp add: clean_def)
  then show ?thesis using assms others_chan by (fastforce simp: clean_def)
qed

lemma send_clean:
  assumes "send_event R j e w = Some w'" and "clean w" and "idle_word T e"
  shows "clean w'"
proof -
  have sent: "clean (w\<lparr>rw_senders := (rw_senders w)(j \<mapsto> c')\<rparr>)"
    if "clean w" "rw_senders w j = Some c" "ch_send (rt_chan R) e c = Sent c'" for w c c'
    using that assms(3) ch.send_SentD [OF that(3)] by (auto simp: clean_def)
  from assms(1) have "rust_loop (send_body R j e) w = Some w'" by (simp add: send_event_def)
  then show ?thesis
    by (rule rust_loop_invariant [where P = clean and Q = clean])
      (use assms(2) others_clean sent in \<open>auto simp: send_body_def split: option.splits send_result.splits\<close>)
qed

lemma route_clean:
  assumes "\<forall>e \<in> set es. idle_word T e" and "clean w"
  shows "route_events R rs es w \<noteq> Some Panics" and "route_events R rs es w = Some (Returns w') \<Longrightarrow> clean w'"
proof -
  have "case route_events R rs es w of None \<Rightarrow> True | Some Panics \<Rightarrow> False | Some (Returns w') \<Rightarrow> clean w'"
    using assms
  proof (induction es arbitrary: w)
    case (Cons e es)
    from Cons.prems(1) have e: "idle_word T e" by simp
    from idle_word_event(2) [OF e] known obtain j where j: "worker_to_server rs (event_worker e) = Some j" by auto
    show ?case
    proof (cases "send_event R j e w")
      case (Some w1)
      from send_clean [OF this Cons.prems(2) e] Cons.IH [of w1] Cons.prems(1) Some j show ?thesis by simp
    qed (simp add: j)
  qed simp
  then show "route_events R rs es w \<noteq> Some Panics" "route_events R rs es w = Some (Returns w') \<Longrightarrow> clean w'" by auto
qed

lemma wait_call:
  assumes "clean w"
  shows "\<exists>r events w'. umcg_wait_retry_timeout (rt_kernel R) (rt_clock R w) 0 (Some (replicate 10 0)) 10 50000 w =
      Returns (r, Some events, w') \<and> clean w' \<and> (\<forall>v \<in> set events. v \<noteq> 0 \<longrightarrow> idle_word T v)"
proof -
  let ?to = "of_nat (rt_clock R w) + 50000 :: u64"
  have "checked_add (of_nat (rt_clock R w)) 50000 = Some ?to" using clock [of w] by (simp add: checked_add_def unat_of_nat)
  moreover from checked_add_Some [OF this] have "?to \<noteq> 0" using clock [of w] by (auto simp: unat_of_nat)
  then have c: "router_call (wait_args ?to) (Some (replicate 10 0))" by (rule router_call.wait)
  moreover have "set (overwrite ws (replicate 10 0)) \<subseteq> insert 0 (set ws)" for ws :: "u64 list"
    by (auto simp: overwrite_def dest!: in_set_takeD in_set_dropD)
  then have "\<forall>v \<in> set (overwrite (sr_written (rt_kernel R (wait_args ?to) (Some (replicate 10 0)) w)) (replicate 10 0)). v \<noteq> 0 \<longrightarrow> idle_word T v"
    using kernel_clean(2) [OF c assms] by blast
  moreover have "worker_tid 0 = 0" by (simp add: worker_tid_def)
  ultimately show ?thesis
    using kernel_clean(1) [OF c assms]
    by (auto simp: umcg_wait_retry_timeout_def sys_umcg_ctl_def umcg_syscall_def Let_def wait_args_def)
qed

lemma body_clean:
  assumes "clean w"
  shows "routing_body R rs w \<noteq> Some (Inr Panics)" and "routing_body R rs w = Some (Inl w') \<Longrightarrow> clean w'"
    and "routing_body R rs w = Some (Inr (Returns w')) \<Longrightarrow> clean w'"
proof -
  from wait_call [OF others_clean [OF assms]] obtain r events w2 where
    u: "umcg_wait_retry_timeout (rt_kernel R) (rt_clock R (rt_others R w)) 0 (Some (replicate 10 0)) 10 50000 (rt_others R w) =
      Returns (r, Some events, w2)" and w2: "clean w2" and ev: "\<forall>v \<in> set events. v \<noteq> 0 \<longrightarrow> idle_word T v" by blast
  have "\<forall>e \<in> set (takeWhile (\<lambda>e. e \<noteq> 0) events). idle_word T e" using ev by (auto dest: set_takeWhileD)
  note rt = route_clean [OF this w2]
  show "routing_body R rs w \<noteq> Some (Inr Panics)"
    using rt(1) by (auto simp: routing_body_def Let_def u split: WaitResult.splits option.splits outcome.splits if_splits)
  show "routing_body R rs w = Some (Inl w') \<Longrightarrow> clean w'"
    using rt(2) w2 by (auto simp: routing_body_def Let_def u split: WaitResult.splits option.splits outcome.splits if_splits)
  show "routing_body R rs w = Some (Inr (Returns w')) \<Longrightarrow> clean w'"
    using assms by (auto simp: routing_body_def Let_def u split: WaitResult.splits option.splits outcome.splits if_splits)
qed

lemma iter_clean:
  assumes "loop_iter (routing_body R rs) n w = Some w'" and "clean w"
  shows "clean w'"
  using assms
proof (induction n arbitrary: w)
  case (Suc n)
  then show ?case by (auto split: option.splits sum.splits intro: body_clean(2))
qed simp

lemma start_clean:
  assumes "clean w"
  shows "routing_start R rs w \<noteq> Some Panics"
proof
  assume "routing_start R rs w = Some Panics"
  then obtain w1 where w1: "w1 = sr_world (rt_kernel R server_args None w)" "rust_loop (routing_body R rs) w1 = Some Panics"
    by (auto simp: routing_start_def umcg_syscall_def Let_def server_args_def split: if_splits)
  have "clean w1" unfolding w1(1) using router_call.register assms by (rule kernel_clean(1))
  with w1(2) have "(Panics :: ('c, 'x) routing_world outcome) \<noteq> Panics"
  proof (rule rust_loop_invariant [where P = clean and Q = "\<lambda>r. r \<noteq> Panics"])
    show "clean w'" if "clean w" "routing_body R rs w = Some (Inl w')" for w w' using that by (rule body_clean(2))
    show "r \<noteq> Panics" if "clean w" "routing_body R rs w = Some (Inr r)" for w r using body_clean(1) [OF that(1)] that(2) by blast
  qed
  then show False by simp
qed

end

subsection \<open>A concrete run\<close>

text \<open>A kernel that runs the module for one thread: a wait that blocks is ended by its timeout.\<close>

definition timed :: "kenv \<Rightarrow> pid_t \<Rightarrow> (kstate \<Rightarrow> 'w \<Rightarrow> 'w) \<Rightarrow> ('w \<Rightarrow> kstate) \<Rightarrow> 'w kernel" where
  "timed e srv upd kst a buf w =
     (let stuck = sysres_of 0 [] w in
      case ctl_of e srv a buf (kst w) of
        None \<Rightarrow> stuck
      | Some (Some (rv, ws), st') \<Rightarrow> sysres_of rv ws (upd st' w)
      | Some (None, st1) \<Rightarrow>
          (case ks_calls st1 srv of
             None \<Rightarrow> stuck
           | Some (b, old) \<Rightarrow>
               (case blockq_action TimedOut srv b old st1 of
                  Some (Some (rv, ws), st') \<Rightarrow> sysres_of rv ws (upd st' w)
                | _ \<Rightarrow> stuck)))"

lemma timed_answers:
  assumes upd: "\<And>st w. kst (upd st w) = st"
  shows "answers_router (routed_rules i srv T) i srv T kst (timed e srv upd kst)"
  unfolding answers_router_def
proof (intro allI impI)
  fix a buf w
  let ?r = "timed e srv upd kst a buf w" and ?R = "routed_rules i srv T"
  assume a: "router_call a buf \<and> router_ready i srv T (kst w)"
  have fin: "\<exists>rv. answers ?r rv \<and> module_call ?R srv a buf (kst w) rv (sr_written ?r) (kst (sr_world ?r))"
    if "module_call ?R srv a buf (kst w) rv ws st'" "?r = sysres_of rv ws (upd st' w)" for rv ws st'
    using that upd by (intro exI [of _ rv]) simp
  have env: "kr_env ?R e" by (simp add: routed_rules_def program_rules_def)
  from a have "router_call a buf" by simp
  then show "\<exists>rv. answers ?r rv \<and> module_call ?R srv a buf (kst w) rv (sr_written ?r) (kst (sr_world ?r))"
  proof cases
    case register
    then show ?thesis by (intro fin [OF module_call.returns [OF env]]) (simp_all add: timed_def ctl_router)
  next
    case (wait to)
    have s: "ks_workers (kst w) srv = None" and k: "kinv (kst w)"
      using a ready_kinv by (auto simp: router_ready_def server_ready_def)
    have "umcg_server_get_events (Some 10) 0 10 (kst w) \<noteq> None"
      using k by (intro get_events_defined) (force simp: kinv_defs)
    then have "umcg_wait e srv 0 to (Some 10) 10 (kst w) \<noteq> None"
      using s by (auto simp: umcg_wait_def kreturn_def blockq_check_def blockq_action_def run_action_def umcg_server_wait_bh_def)
    then obtain x st1 where c: "umcg_wait e srv 0 to (Some 10) 10 (kst w) = Some (x, st1)" by auto
    then have ctl: "ctl_of e srv a buf (kst w) = Some (x, st1)" by (simp only: wait ctl_router)
    show ?thesis
    proof (cases x)
      case (Some q)
      then obtain rv ws where q: "x = Some (rv, ws)" by (cases q) simp
      with ctl show ?thesis by (intro fin [OF module_call.returns [OF env]]) (simp_all add: timed_def)
    next
      case None
      from wait_start(5) [OF c, of i T] a None obtain old where o: "ks_calls st1 srv = Some (OnIdle to (Some 10) 10, old)" by blast
      have act: "blockq_action TimedOut srv (OnIdle to (Some 10) 10) old st1 =
          Some (Some (- K_ETIMEDOUT, old), st1\<lparr>ks_calls := (ks_calls st1)(srv := None)\<rparr>)"
        by (simp add: blockq_action_def run_action_def umcg_server_wait_bh_def over_def)
      show ?thesis
      proof (rule fin [OF module_call.blocks [OF env ctl [unfolded None] rtranclp.rtrancl_refl o _ act]])
        show "kr_end ?R (OnIdle to (Some 10) 10) TimedOut" using wait(3) by (simp add: routed_rules_def program_rules_def may_end_def)
        show "?r = sysres_of (- K_ETIMEDOUT) old (upd (st1\<lparr>ks_calls := (ks_calls st1)(srv := None)\<rparr>) w)"
          using ctl None o act by (simp add: timed_def)
      qed
    qed
  qed
qed

text \<open>Routing thread 8, and worker thread 4 of server 0 in the state where its registration is to be reported.\<close>

definition router_env :: "(nat \<times> bool \<times> u64 list, kstate) routing_env" where
  "router_env = \<lparr>rt_kernel = timed kenv0 8 (\<lambda>st w. w\<lparr>rw_ext := st\<rparr>) rw_ext, rt_chan = list_chan, rt_others = (\<lambda>w. w), rt_clock = (\<lambda>w. 0)\<rparr>"

definition router_rs :: routing_server where
  "router_rs = EventRoutingServer_new 0 [128 \<mapsto> 0]"

definition router_world :: "u64 list \<Rightarrow> kstate \<Rightarrow> (nat \<times> bool \<times> u64 list, kstate) routing_world" where
  "router_world es st = \<lparr>rw_senders = [0 \<mapsto> (10 - length es, True, es)], rw_done = False, rw_ext = st\<rparr>"

lemma timed_frame: "rw_senders (sr_world (timed e srv (\<lambda>st w. w\<lparr>rw_ext := st\<rparr>) kst a buf w)) = rw_senders w"
  by (auto simp: timed_def Let_def split: option.split prod.split)

interpretation router_module: routed_module router_env "\<lambda>(n, alive, xs). xs" "\<lambda>(n, alive, xs). n" "\<lambda>(n, alive, xs). alive"
    router_rs False 8 "{4}" "\<lambda>x. x"
proof (intro routed_module.intro routed_module_axioms.intro)
  show "answers_router (routed_rules False 8 {4}) False 8 {4} (\<lambda>w. rw_ext w) (rt_kernel router_env)"
    unfolding router_env_def by (simp add: timed_answers)
  show "worker_id_of ` {4} \<subseteq> dom (worker_to_server router_rs)"
    by (simp add: router_rs_def EventRoutingServer_new_def worker_id_4)
qed (use list_chan.bounded_channel_axioms in \<open>simp_all add: router_env_def timed_frame\<close>)

lemma router_run: "loop_iter (routing_body router_env router_rs) 1 (router_world [] kst1) = Some (router_world [130] kst2)"
proof -
  have "umcg_wait kenv0 8 0 50000 (Some 10) 10 kst1 = Some (Some (0, [130, 0]), kst2)"
    by (simp add: umcg_wait_def blockq_check_def blockq_action_def run_action_def umcg_server_wait_bh_def
      umcg_server_get_events_def writable_def event_word_def over_def kst_defs fun_eq_iff)
  then have k: "rt_kernel router_env (wait_args 50000) (Some (replicate 10 0)) (router_world [] kst1) =
      sysres_of 0 [130, 0] (router_world [] kst2)"
    unfolding router_env_def by (simp add: timed_def ctl_router router_world_def)
  have b: "overwrite [130, 0] (replicate 10 0) = 130 # replicate 9 (0 :: u64)"
    by (simp add: overwrite_def eval_nat_numeral)
  have "umcg_wait_retry_timeout (rt_kernel router_env) 0 0 (Some (replicate 10 0)) 10 50000 (router_world [] kst1) =
      Returns (WR_Events 0, Some (130 # replicate 9 0), router_world [] kst2)"
    using k by (simp add: umcg_wait_retry_timeout_def sys_umcg_ctl_def umcg_syscall_def Let_def wait_args_def checked_add_def worker_tid_def
        b sysres_of_def)
  moreover have "route_events router_env router_rs [130] (router_world [] kst2) = Some (Returns (router_world [130] kst2))"
    by (simp add: router_rs_def EventRoutingServer_new_def event_worker_def UMCG_WORKER_ID_SHIFT_def send_event_def send_body_def
        rust_loop_break router_world_def router_env_def)
  ultimately show ?thesis
    by (simp add: routing_body_def router_env_def Let_def) (simp add: router_world_def)
qed

subsection \<open>Properties\<close>

text \<open>
  C8: The routing thread of \<open>attempt2.rs\<close> on the kernel module. If only threads of \<open>T\<close> become workers,
  register under their own ids and leave switching to servers, and every worker of \<open>T\<close> is in
  \<open>worker_to_server\<close>, then the thread never panics, and after every iteration each event on its way
  to a server is the \<open>WAKE\<close> or the \<open>TIMEOUT\<close> of a worker of \<open>T\<close>, whatever the other threads do
  while it waits, sleeps or is blocked in a send. So the servers' event loops receive neither
  \<open>WAIT\<close> nor \<open>BLOCK\<close> events from it, as they have to rely on.
\<close>
theorem routing_on_module:
  assumes m: "routed_module R msgs room receiver rs i srv T kst" and "router_ready i srv T (kst (rw_ext w))"
    and "\<forall>j c. rw_senders w j = Some c \<longrightarrow> (\<forall>e \<in> set (msgs c). idle_word T e)"
  shows "routing_start R rs w \<noteq> Some Panics \<and>
    (\<forall>n w' j c e. loop_iter (routing_body R rs) n w = Some w' \<longrightarrow> rw_senders w' j = Some c \<longrightarrow> e \<in> set (msgs c) \<longrightarrow>
      (\<exists>t \<in> T. e = worker_id_of t OR event_u64 Ev_Wake \<or> e = worker_id_of t OR event_u64 Ev_Timeout))"
proof -
  have c: "routed_module.clean msgs i srv T kst w" using assms(2,3) by (simp add: routed_module.clean_def [OF m])
  have "\<exists>t \<in> T. e = worker_id_of t OR event_u64 Ev_Wake \<or> e = worker_id_of t OR event_u64 Ev_Timeout"
    if "loop_iter (routing_body R rs) n w = Some w'" "rw_senders w' j = Some ch" "e \<in> set (msgs ch)" for n w' j ch e
  proof -
    from routed_module.iter_clean [OF m that(1) c] that(2,3) have "idle_word T e" by (simp add: routed_module.clean_def [OF m])
    then show ?thesis unfolding idle_word_def idle_kinds_def by blast
  qed
  with routed_module.start_clean [OF m c] show ?thesis by blast
qed

theorem routing_on_module_witness:
  "routing_start router_env router_rs (router_world [] kst1) \<noteq> Some Panics \<and>
   loop_iter (routing_body router_env router_rs) 1 (router_world [] kst1) = Some (router_world [130] kst2) \<and>
   130 = worker_id_of 4 OR event_u64 Ev_Wake"
proof -
  have r: "router_ready False 8 {4} (rw_ext (router_world [] kst1))"
    using prog_reach_run(1) by (simp add: router_ready_def server_ready_def router_world_def) (simp add: kst_defs)
  have e: "\<forall>j c. rw_senders (router_world [] kst1) j = Some c \<longrightarrow> (\<forall>e \<in> set ((\<lambda>(n, alive, xs). xs) c). idle_word {4} e)"
    by (simp add: router_world_def)
  have "130 = worker_id_of 4 OR event_u64 Ev_Wake" by (simp add: worker_id_4)
  with routing_on_module [OF router_module.routed_module_axioms r e] router_run show ?thesis by blast
qed

end
