(* ===== verification/A2_Metrics.thy ===== *)
theory A2_Metrics
  imports Prelude "HOL-Library.Log_Nat"
begin

text \<open>
  \<open>ContextSwitchMetrics\<close> of \<open>src/attempt2.rs\<close>: how the timeout of a context switch follows the
  rate of successful switches. The code computes with \<open>f64\<close>; the values are finite and not
  negative, so a double is its rational value, and every operation is the exact result
  rounded to 53 bits, to nearest, ties to even, as IEEE 754 prescribes.
\<close>

subsection \<open>Doubles\<close>

type_synonym f64 = rat

text \<open>The exponent of the leading bit, and the value of the last of the 53 bits.\<close>

definition binade :: "rat \<Rightarrow> int" where
  "binade x = (let (p, q) = quotient_of x; k = bitlen p - bitlen q in if 2 powi k \<le> x then k else k - 1)"

definition ulp :: "rat \<Rightarrow> rat" where
  "ulp x = 2 powi (binade x - 52)"

definition half_even :: "rat \<Rightarrow> int" where
  "half_even y = (let n = \<lfloor>y\<rfloor>; d = y - of_int n in if d < 1 / 2 \<or> d = 1 / 2 \<and> even n then n else n + 1)"

definition f64_round :: "rat \<Rightarrow> f64" where
  "f64_round x = (if x = 0 then 0 else of_int (half_even (x / ulp x)) * ulp x)"

text \<open>\<open>as f64\<close> and \<open>as u64\<close>; the latter cuts off the fraction and saturates.\<close>

definition u64_as_f64 :: "u64 \<Rightarrow> f64" where
  "u64_as_f64 x = f64_round (of_nat (unat x))"

definition f64_as_u64 :: "f64 \<Rightarrow> u64" where
  "f64_as_u64 x = of_int (min \<lfloor>x\<rfloor> (2 ^ 64 - 1))"

lemma binade_bounds:
  assumes "0 < x"
  shows "2 powi binade x \<le> x" and "x < 2 powi (binade x + 1)"
proof -
  obtain p q where pq: "quotient_of x = (p, q)" by fastforce
  have q: "0 < q" using pq by (rule quotient_of_denom_pos)
  have x: "x = of_int p / of_int q" using pq by (rule quotient_of_div)
  have p: "0 < p" using assms q unfolding x by (simp add: zero_less_divide_iff)
  have bnd: "2 powi (bitlen z - 1) \<le> (of_int z :: rat) \<and> (of_int z :: rat) < 2 powi bitlen z" if z: "0 < z" for z
  proof -
    have "0 < bitlen z" using z by (simp add: bitlen_alt_def)
    then have "nat (bitlen z - 1) = nat (bitlen z) - 1" "bitlen z = int (nat (bitlen z))" "0 < nat (bitlen z)" by simp_all
    moreover have "2 ^ nat (bitlen z - 1) \<le> z" "z < 2 ^ nat (bitlen z)" using bitlen_bounds [OF z] by simp_all
    then have "(2 :: rat) ^ nat (bitlen z - 1) \<le> of_int z" "(of_int z :: rat) < 2 ^ nat (bitlen z)"
      by (metis of_int_le_iff of_int_numeral of_int_power, metis of_int_less_iff of_int_numeral of_int_power)
    ultimately show ?thesis by (simp add: power_int_def)
  qed
  let ?a = "bitlen p" and ?b = "bitlen q"
  have l: "2 powi (?a - ?b - 1) \<le> x"
  proof -
    have "2 powi (?a - ?b - 1) * of_int q \<le> (2 powi (?a - ?b - 1) * 2 powi ?b :: rat)" using bnd [OF q] by simp
    also have "\<dots> = 2 powi (?a - 1)" by (simp add: power_int_add [symmetric])
    also have "\<dots> \<le> of_int p" using bnd [OF p] by simp
    finally show ?thesis using q by (simp add: x pos_le_divide_eq)
  qed
  have u: "x < 2 powi (?a - ?b + 1)"
  proof -
    have "of_int p < (2 powi ?a :: rat)" using bnd [OF p] by simp
    also have "\<dots> = 2 powi (?a - ?b + 1) * 2 powi (?b - 1)" by (simp add: power_int_add [symmetric])
    also have "\<dots> \<le> 2 powi (?a - ?b + 1) * of_int q" using bnd [OF q] by simp
    finally show ?thesis using q by (simp add: x pos_divide_less_eq)
  qed
  show "2 powi binade x \<le> x" "x < 2 powi (binade x + 1)"
    using l u by (auto simp: binade_def pq Let_def)
qed

lemma ulp_bounds:
  assumes "0 < x"
  shows "0 < ulp x" and "ulp x \<le> x / 2 ^ 52" and "x / 2 ^ 53 < ulp x"
proof -
  show "0 < ulp x" by (simp add: ulp_def)
  have u: "ulp x = 2 powi binade x / 2 ^ 52" by (simp add: ulp_def power_int_diff)
  show "ulp x \<le> x / 2 ^ 52" unfolding u using binade_bounds(1) [OF assms] by (intro divide_right_mono) simp_all
  show "x / 2 ^ 53 < ulp x" unfolding u using binade_bounds(2) [OF assms] by (simp add: power_int_add)
qed

lemma half_even_near: "\<bar>of_int (half_even y) - y\<bar> \<le> 1 / 2"
proof -
  have "of_int \<lfloor>y\<rfloor> \<le> y" "y < of_int \<lfloor>y\<rfloor> + 1" by linarith+
  then show ?thesis by (auto simp: half_even_def Let_def abs_le_iff)
qed

lemma half_even_eq: "\<bar>y - of_int k\<bar> < 1 / 2 \<Longrightarrow> half_even y = k"
  using half_even_near [of y] by linarith

lemma f64_round_error:
  assumes "0 \<le> x"
  shows "\<bar>f64_round x - x\<bar> \<le> x / 2 ^ 53"
proof (cases "x = 0")
  case True
  then show ?thesis by (simp add: f64_round_def)
next
  case False
  with assms have x: "0 < x" by simp
  note u = ulp_bounds [OF x]
  have "f64_round x - x = (of_int (half_even (x / ulp x)) - x / ulp x) * ulp x"
    using False u(1) by (simp add: f64_round_def left_diff_distrib)
  then have "\<bar>f64_round x - x\<bar> = \<bar>of_int (half_even (x / ulp x)) - x / ulp x\<bar> * ulp x" using u(1) by (simp add: abs_mult)
  also have "\<dots> \<le> 1 / 2 * ulp x" using half_even_near u(1) by (intro mult_right_mono) simp_all
  also have "\<dots> \<le> x / 2 ^ 53" using u(2) by simp
  finally show ?thesis .
qed

text \<open>A value closer to an integer than half of its last bit is rounded to the integer.\<close>

lemma f64_round_int:
  assumes "0 < x" and "x < 2 ^ 53" and "\<bar>x - of_int n\<bar> \<le> x / 2 ^ 54"
  shows "f64_round x = of_int n"
proof -
  note u = ulp_bounds [OF assms(1)]
  have "(2 :: rat) powi binade x < 2 powi 53" using binade_bounds(1) [OF assms(1)] assms(2) by simp
  then have b: "binade x \<le> 52" using power_int_increasing [of 53 "binade x" "2 :: rat"] by (cases "binade x \<le> 52") simp_all
  define j where "j = nat (52 - binade x)"
  have "ulp x = 2 powi (- int j)" using b by (simp add: ulp_def j_def)
  then have j: "ulp x * 2 ^ j = 1" by (simp add: power_int_minus)
  have "\<bar>x / ulp x - of_int (n * 2 ^ j)\<bar> = \<bar>x - of_int n\<bar> / ulp x"
  proof -
    have "of_int (n * 2 ^ j) = (of_int n :: rat) / ulp x" using j u(1) by (simp add: field_simps)
    then show ?thesis using u(1) by (simp add: diff_divide_distrib [symmetric])
  qed
  also have "\<dots> \<le> x / 2 ^ 54 / ulp x" using assms(3) u(1) by (intro divide_right_mono) simp_all
  also have "\<dots> < 1 / 2" using u(1,3) by (simp add: divide_less_eq)
  finally have "half_even (x / ulp x) = n * 2 ^ j" by (rule half_even_eq)
  then have "f64_round x = of_int n * (ulp x * 2 ^ j)" using assms(1) by (simp add: f64_round_def mult.commute mult.left_commute)
  then show ?thesis by (simp add: j)
qed

lemma f64_round_nat:
  assumes "n < 2 ^ 53"
  shows "f64_round (of_nat n) = of_nat n"
proof (cases "n = 0")
  case False
  have "(of_nat n :: rat) < 2 ^ 53" using assms by (metis of_nat_less_iff of_nat_numeral of_nat_power)
  with False f64_round_int [of "of_nat n" "int n"] show ?thesis by simp
qed (simp add: f64_round_def)

lemma f64_round_less:
  assumes "0 \<le> x" and "(x + y) / 2 ^ 53 < y - x"
  shows "f64_round x < f64_round y"
proof -
  have "0 \<le> y" using assms by (auto simp: field_simps)
  then have "f64_round x - x \<le> x / 2 ^ 53" "y - f64_round y \<le> y / 2 ^ 53"
    using f64_round_error [OF assms(1)] f64_round_error [of y] by linarith+
  with assms(2) show ?thesis unfolding add_divide_distrib by linarith
qed

text \<open>The literals of the source, as the compiler reads them.\<close>

lemma literals:
  "f64_round (9 / 10) = 8106479329266893 / 9007199254740992" "f64_round (6 / 5) = 5404319552844595 / 4503599627370496"
  by code_simp+


subsection \<open>The metrics\<close>

record metrics =
  success_count :: u64
  timeout_count :: u64
  total_time :: u64
  last_timeout :: u64

definition ContextSwitchMetrics_new :: metrics where
  "ContextSwitchMetrics_new = \<lparr>success_count = 0, timeout_count = 0, total_time = 0, last_timeout = 1000\<rparr>"

definition update_timeout :: "metrics \<Rightarrow> (u64 \<times> metrics) outcome" where
  "update_timeout m =
     (case checked_add (success_count m) (timeout_count m) of
        None \<Rightarrow> Panics
      | Some all \<Rightarrow>
          if all = 0 then Returns (1000, m)
          else
            let success_rate = f64_round (u64_as_f64 (success_count m) / u64_as_f64 all);
                current = last_timeout m;
                new_timeout =
                  (if success_rate > f64_round (95 / 100)
                   then f64_as_u64 (f64_round (u64_as_f64 current * f64_round (9 / 10)))
                   else if success_rate < f64_round (8 / 10)
                   then f64_as_u64 (f64_round (u64_as_f64 current * f64_round (12 / 10)))
                   else current);
                new_timeout = max 200 (min 10000 new_timeout)
            in Returns (new_timeout, m\<lparr>last_timeout := new_timeout\<rparr>))"

text \<open>The same on integers.\<close>

definition next_timeout :: "nat \<Rightarrow> nat \<Rightarrow> nat \<Rightarrow> nat" where
  "next_timeout s t c = max 200 (min 10000
     (if 20 * s > 19 * (s + t) then 9 * c div 10 else if 5 * s < 4 * (s + t) then 6 * c div 5 else c))"

text \<open>A rate is rounded to the same side of a threshold.\<close>

lemma rate_above:
  fixes s n k :: nat
  assumes n: "0 < n" "n < 2 ^ 47" and s: "s \<le> n" and k: "k \<le> 20"
  shows "f64_round (of_nat k / 20) < f64_round (of_nat s / of_nat n) \<longleftrightarrow> k * n < 20 * s"
    and "f64_round (of_nat s / of_nat n) < f64_round (of_nat k / 20) \<longleftrightarrow> 20 * s < k * n"
proof -
  let ?r = "of_nat s / of_nat n :: rat" and ?k = "of_nat k / 20 :: rat"
  have r: "0 \<le> ?r" "?r \<le> 1" "0 \<le> ?k" "?k \<le> 1" using assms by (simp_all add: divide_le_eq)
  have eq: "?r = ?k" if "20 * s = k * n"
  proof -
    have "(of_nat (20 * s) :: rat) = of_nat (k * n)" using that by simp
    then show ?thesis using n(1) by (simp add: field_simps)
  qed
  have n': "(of_nat n :: rat) < 2 ^ 47" using n(2) by (metis of_nat_less_iff of_nat_numeral of_nat_power)
  have "(?r + ?k) / 2 ^ 53 \<le> 2 / 2 ^ 53" using r by (intro divide_right_mono) (linarith, simp)
  also have "\<dots> \<le> (1 / (20 * 2 ^ 47) :: rat)" by simp
  also have "\<dots> < 1 / (20 * of_nat n)" using n(1) n' by (intro divide_strict_left_mono) simp_all
  finally have gap: "(?r + ?k) / 2 ^ 53 < 1 / (20 * of_nat n)" .
  have 1: "f64_round ?k < f64_round ?r" if "k * n < 20 * s"
  proof (rule f64_round_less)
    have "(of_nat (k * n + 1) :: rat) \<le> of_nat (20 * s)" using that by (intro of_nat_mono) simp
    then have "1 / (20 * of_nat n) \<le> ?r - ?k" using n(1) by (simp add: field_simps)
    with gap show "(?k + ?r) / 2 ^ 53 < ?r - ?k" by (simp add: add.commute)
  qed (rule r)
  have 2: "f64_round ?r < f64_round ?k" if "20 * s < k * n"
  proof (rule f64_round_less)
    have "(of_nat (20 * s + 1) :: rat) \<le> of_nat (k * n)" using that by (intro of_nat_mono) simp
    then have "1 / (20 * of_nat n) \<le> ?k - ?r" using n(1) by (simp add: field_simps)
    with gap show "(?r + ?k) / 2 ^ 53 < ?k - ?r" by simp
  qed (rule r)
  show "f64_round ?k < f64_round ?r \<longleftrightarrow> k * n < 20 * s" "f64_round ?r < f64_round ?k \<longleftrightarrow> 20 * s < k * n"
    using 1 2 eq by (metis linorder_neqE_nat order_less_asym)+
qed


text \<open>A small integer is scaled exactly.\<close>

lemma scaled_floor:
  fixes a b c :: nat and r :: rat
  assumes c: "0 < c" "c \<le> 10000" and b: "0 < b" "b \<le> 10" and r: "0 < r" "r < 2" and near: "\<bar>r - of_nat a / of_nat b\<bar> \<le> r / 2 ^ 54"
  shows "\<lfloor>f64_round (of_nat c * r)\<rfloor> = int (a * c div b)"
proof -
  let ?x = "of_nat c * r" and ?q = "a * c div b" and ?m = "a * c mod b"
  have c': "0 < (of_nat c :: rat)" "(of_nat c :: rat) \<le> 10000" using c of_nat_mono [of c 10000] by simp_all
  have x: "0 < ?x" "?x < 20000"
    using c' r mult_le_less_imp_less [of "of_nat c :: rat" 10000 r 2] by simp_all
  have "(of_nat a * of_nat c :: rat) = of_nat ?q * of_nat b + of_nat ?m"
    by (simp only: of_nat_mult [symmetric] of_nat_add [symmetric] div_mult_mod_eq)
  then have q: "of_nat c * (of_nat a / of_nat b) = (of_nat ?q + of_nat ?m / of_nat b :: rat)" using b(1) by (simp add: field_simps)
  have "\<bar>?x - of_nat c * (of_nat a / of_nat b)\<bar> = of_nat c * \<bar>r - of_nat a / of_nat b\<bar>"
    unfolding right_diff_distrib [symmetric] abs_mult by simp
  also have "\<dots> \<le> of_nat c * (r / 2 ^ 54)" using near c'(1) by (intro mult_left_mono) simp_all
  finally have d: "\<bar>?x - (of_nat ?q + of_nat ?m / of_nat b)\<bar> \<le> ?x / 2 ^ 54" unfolding q by simp
  show ?thesis
  proof (cases "?m = 0")
    case True
    with d have "\<bar>?x - of_int (int ?q)\<bar> \<le> ?x / 2 ^ 54" by simp
    from f64_round_int [OF x(1) _ this] x(2) show ?thesis by simp
  next
    case False
    have "1 / 10 \<le> (1 / of_nat b :: rat)" using b of_nat_mono [of b 10] by (simp add: field_simps)
    moreover have "(1 / of_nat b :: rat) \<le> of_nat ?m / of_nat b" using False b(1) by (intro divide_right_mono) simp_all
    moreover have "of_nat ?m / of_nat b + 1 / of_nat b \<le> (1 :: rat)"
    proof -
      have "?m + 1 \<le> b" using b(1) by (simp add: Suc_leI)
      then have "(of_nat (?m + 1) :: rat) \<le> of_nat b" by (rule of_nat_mono)
      then show ?thesis using b(1) by (simp add: field_simps)
    qed
    ultimately have m: "1 / 10 \<le> (of_nat ?m / of_nat b :: rat)" "of_nat ?m / of_nat b \<le> (9 / 10 :: rat)" by linarith+
    have "\<bar>f64_round ?x - ?x\<bar> \<le> ?x / 2 ^ 53" using x(1) by (intro f64_round_error) simp
    moreover have "y / 2 ^ 54 < 1 / 40 \<and> y / 2 ^ 53 < 1 / 40" if "y < 20000" for y :: rat using that by simp
    note this [OF x(2)]
    ultimately have "of_nat ?q \<le> f64_round ?x" "f64_round ?x < of_nat ?q + 1" using d m by linarith+
    then show ?thesis by (intro floor_unique) simp_all
  qed
qed

lemma unat_scaled:
  assumes "\<lfloor>x\<rfloor> = int n" and "n < 2 ^ 64"
  shows "unat (f64_as_u64 x) = n"
  using assms by (simp add: f64_as_u64_def unat_of_nat)

lemma u64_as_f64_exact: "unat x < 2 ^ 53 \<Longrightarrow> u64_as_f64 x = of_nat (unat x)"
  unfolding u64_as_f64_def by (rule f64_round_nat)

lemma unat_clamp: "unat (max 200 (min 10000 x) :: u64) = max 200 (min 10000 (unat x))"
  by (simp add: max_def min_def word_le_nat_alt)

lemma scaled:
  assumes "200 \<le> unat c" and "unat c \<le> 10000"
  shows "unat (f64_as_u64 (f64_round (u64_as_f64 c * f64_round (9 / 10)))) = 9 * unat c div 10"
    and "unat (f64_as_u64 (f64_round (u64_as_f64 c * f64_round (12 / 10)))) = 6 * unat c div 5"
proof -
  have e: "u64_as_f64 c = of_nat (unat c)" using assms(2) by (intro u64_as_f64_exact) simp
  show "unat (f64_as_u64 (f64_round (u64_as_f64 c * f64_round (9 / 10)))) = 9 * unat c div 10"
    unfolding e using assms by (intro unat_scaled scaled_floor) (simp_all add: literals)
  show "unat (f64_as_u64 (f64_round (u64_as_f64 c * f64_round (12 / 10)))) = 6 * unat c div 5"
    unfolding e using assms by (intro unat_scaled scaled_floor) (simp_all add: literals)
qed

lemma update_timeout_next:
  assumes "unat (success_count m) + unat (timeout_count m) < 2 ^ 47" and "0 < unat (success_count m) + unat (timeout_count m)"
    and "200 \<le> last_timeout m" and "last_timeout m \<le> 10000"
  shows "\<exists>n. update_timeout m = Returns (n, m\<lparr>last_timeout := n\<rparr>) \<and>
    unat n = next_timeout (unat (success_count m)) (unat (timeout_count m)) (unat (last_timeout m))"
proof -
  let ?s = "unat (success_count m)" and ?t = "unat (timeout_count m)" and ?c = "last_timeout m"
  let ?rate = "f64_round (u64_as_f64 (success_count m) / u64_as_f64 (success_count m + timeout_count m))"
  have add: "checked_add (success_count m) (timeout_count m) = Some (success_count m + timeout_count m)"
    using assms(1) by (simp add: checked_add_def)
  then have u: "unat (success_count m + timeout_count m) = ?s + ?t" by (rule checked_add_Some)
  then have nz: "success_count m + timeout_count m \<noteq> 0" using assms(2) by (metis neq0_conv unat_0)
  have e: "u64_as_f64 (success_count m) = of_nat ?s" "u64_as_f64 (success_count m + timeout_count m) = of_nat (?s + ?t)"
    unfolding u [symmetric] by (rule u64_as_f64_exact, use assms(1) u in simp)+
  have rate: "f64_round (of_nat k / 20) < ?rate \<longleftrightarrow> k * (?s + ?t) < 20 * ?s" "?rate < f64_round (of_nat k / 20) \<longleftrightarrow> 20 * ?s < k * (?s + ?t)"
    if "k \<le> 20" for k
    unfolding e by (rule rate_above [OF assms(2,1) _ that], simp)+
  have hi: "f64_round (95 / 100) < ?rate \<longleftrightarrow> 19 * (?s + ?t) < 20 * ?s" using rate(1) [of 19] by simp
  have lo: "?rate < f64_round (8 / 10) \<longleftrightarrow> 5 * ?s < 4 * (?s + ?t)" using rate(2) [of 16] by simp
  have c: "200 \<le> unat ?c" "unat ?c \<le> 10000" using assms(3,4) by (simp_all add: word_le_nat_alt)
  define n where "n = max 200 (min 10000
    (if 19 * (?s + ?t) < 20 * ?s then f64_as_u64 (f64_round (u64_as_f64 ?c * f64_round (9 / 10)))
     else if 5 * ?s < 4 * (?s + ?t) then f64_as_u64 (f64_round (u64_as_f64 ?c * f64_round (12 / 10))) else ?c))"
  have "update_timeout m = Returns (n, m\<lparr>last_timeout := n\<rparr>)"
    by (simp only: update_timeout_def add option.case Let_def nz if_False hi lo n_def)
  moreover have "unat n = next_timeout ?s ?t (unat ?c)"
    unfolding n_def unat_clamp next_timeout_def by (simp only: if_distrib [of unat] scaled [OF c])
  ultimately show ?thesis by blast
qed


text \<open>
  The timeout stays within its bounds, whatever the counters and the last timeout; the sum of
  the counters is checked for overflow.
\<close>

lemma update_timeout_bounds:
  "update_timeout m = Returns (n, m') \<Longrightarrow> 200 \<le> n \<and> n \<le> 10000 \<and> success_count m' = success_count m \<and> timeout_count m' = timeout_count m"
  by (auto simp: update_timeout_def Let_def split: option.splits if_splits)

lemma update_timeout_panics: "update_timeout m = Panics \<longleftrightarrow> 2 ^ 64 \<le> unat (success_count m) + unat (timeout_count m)"
  by (simp add: update_timeout_def Let_def checked_add_def)

text \<open>While nearly all switches succeed the timeout falls to 200 ns, while many fail it rises to 10 us.\<close>

lemma next_timeout_range: "200 \<le> next_timeout s t c \<and> next_timeout s t c \<le> 10000"
  by (simp add: next_timeout_def)

lemma iterate_reaches:
  fixes f :: "nat \<Rightarrow> nat"
  assumes step: "\<And>c. P c \<Longrightarrow> P (f c) \<and> (d c = 0 \<and> f c = c \<or> d (f c) < d c)" and "P c" and "d c \<le> k"
  shows "d ((f ^^ k) c) = 0"
  using assms(2,3)
proof (induction k arbitrary: c)
  case (Suc k)
  from step [OF Suc.prems(1)] Suc.prems(2) have "d (f c) \<le> k" by auto
  with Suc.IH [of "f c"] step [OF Suc.prems(1)] show ?case by (simp add: funpow_swap1)
qed simp

lemma timeout_falls:
  assumes "19 * (s + t) < 20 * s" and "200 \<le> c" and "c \<le> 10000" and "9800 \<le> k"
  shows "(next_timeout s t ^^ k) c = 200"
proof -
  have "(next_timeout s t ^^ k) c - 200 = 0"
  proof (rule iterate_reaches [where P = "\<lambda>c. 200 \<le> c \<and> c \<le> 10000"])
    fix c :: nat
    assume "200 \<le> c \<and> c \<le> 10000"
    then show "(200 \<le> next_timeout s t c \<and> next_timeout s t c \<le> 10000) \<and>
        (c - 200 = 0 \<and> next_timeout s t c = c \<or> next_timeout s t c - 200 < c - 200)"
      using assms(1) by (auto simp: next_timeout_def)
  qed (use assms in auto)
  moreover have "0 < k" using assms(4) by simp
  then have "200 \<le> (next_timeout s t ^^ k) c" using next_timeout_range by (cases k) simp_all
  ultimately show ?thesis by simp
qed

lemma timeout_rises:
  assumes "5 * s < 4 * (s + t)" and "200 \<le> c" and "c \<le> 10000" and "9800 \<le> k"
  shows "(next_timeout s t ^^ k) c = 10000"
proof -
  have "10000 - (next_timeout s t ^^ k) c = 0"
  proof (rule iterate_reaches [where P = "\<lambda>c. 200 \<le> c \<and> c \<le> 10000"])
    fix c :: nat
    assume "200 \<le> c \<and> c \<le> 10000"
    then show "(200 \<le> next_timeout s t c \<and> next_timeout s t c \<le> 10000) \<and>
        (10000 - c = 0 \<and> next_timeout s t c = c \<or> 10000 - next_timeout s t c < 10000 - c)"
      using assms(1) by (auto simp: next_timeout_def)
  qed (use assms in auto)
  moreover have "0 < k" using assms(4) by simp
  then have "(next_timeout s t ^^ k) c \<le> 10000" using next_timeout_range by (cases k) simp_all
  ultimately show ?thesis by simp
qed


subsection \<open>Properties\<close>

text \<open>
  C29: \<open>update_timeout\<close> computes on doubles what it means on integers. With at least one and less
  than \<open>2 ^ 47\<close> attempts and a last timeout within the bounds, the comparisons of the rounded rate
  with the rounded literals 0.95 and 0.8 are the exact ones (also at the thresholds), and the
  products with 0.9 and 1.2 cut down to an integer are the exact quotients, although none of the
  four literals is a double: the new timeout is nine tenths of the old one if more than 19 in 20
  attempts succeeded, six fifths if less than 4 in 5 did, the old one otherwise, kept between 200
  and 10000, and it is stored.
\<close>
theorem update_timeout_exact:
  assumes "unat (success_count m) + unat (timeout_count m) < 2 ^ 47" and "0 < unat (success_count m) + unat (timeout_count m)"
    and "200 \<le> last_timeout m" and "last_timeout m \<le> 10000"
  shows "update_timeout m =
    (let n = of_nat (next_timeout (unat (success_count m)) (unat (timeout_count m)) (unat (last_timeout m)))
     in Returns (n, m\<lparr>last_timeout := n\<rparr>))"
proof -
  from update_timeout_next [OF assms] obtain n where n: "update_timeout m = Returns (n, m\<lparr>last_timeout := n\<rparr>)"
    "next_timeout (unat (success_count m)) (unat (timeout_count m)) (unat (last_timeout m)) = unat n" by metis
  show ?thesis unfolding n(2) by (simp add: n(1))
qed

theorem update_timeout_exact_witness:
  "update_timeout \<lparr>success_count = 39, timeout_count = 1, total_time = 0, last_timeout = 1000\<rparr> =
     Returns (900, \<lparr>success_count = 39, timeout_count = 1, total_time = 0, last_timeout = 900\<rparr>)"
  using update_timeout_exact [of "\<lparr>success_count = 39, timeout_count = 1, total_time = 0, last_timeout = 1000\<rparr>"]
  by (simp add: next_timeout_def)

end
