(* ===== verification/Diagnostics.thy ===== *)
theory Diagnostics
  imports Prelude
begin

text \<open>
  The log line of the sources (\<open>log_with_timestamp\<close>, the same in \<open>lib.rs\<close>, \<open>umcg_base.rs\<close> and
  \<open>task_stats.rs\<close>, with another fraction in \<open>attempt2.rs\<close>) and the diagnostic functions of
  \<open>attempt2.rs\<close> that read the state of the process. The clock, the files under \<open>/proc\<close> (ASCII texts) and the scheduler
  calls are parameters.
\<close>

subsection \<open>Log lines\<close>

definition pad :: "char \<Rightarrow> nat \<Rightarrow> string \<Rightarrow> string" where
  "pad c n s = replicate (n - length s) c @ s"

text \<open>The line for a time of \<open>secs\<close> seconds and \<open>nanos\<close> nanoseconds: \<open>[{:>3}.{:03}] {}\<close>.\<close>

definition log_line :: "nat \<Rightarrow> nat \<Rightarrow> string \<Rightarrow> string" where
  "log_line secs nanos msg =
     ''['' @ pad CHR '' '' 3 (dec_nat (secs mod 1000)) @ ''.'' @ pad CHR ''0'' 3 (dec_nat (nanos div 1000000)) @ ''] '' @ msg"

text \<open>\<open>None\<close>: the clock is before 1970, and \<open>unwrap\<close> panics.\<close>

definition log_with_timestamp :: "(nat \<times> nat) option \<Rightarrow> string \<Rightarrow> string outcome" where
  "log_with_timestamp now msg =
     (case now of None \<Rightarrow> Panics | Some (secs, nanos) \<Rightarrow> Returns (log_line secs nanos msg))"

text \<open>\<open>attempt2.rs\<close> prints the nanoseconds, also padded to three places.\<close>

definition a2_log_line :: "nat \<Rightarrow> nat \<Rightarrow> string \<Rightarrow> string" where
  "a2_log_line secs nanos msg =
     ''['' @ pad CHR '' '' 3 (dec_nat (secs mod 1000)) @ ''.'' @ pad CHR ''0'' 3 (dec_nat nanos) @ ''] '' @ msg"

definition a2_log_with_timestamp :: "(nat \<times> nat) option \<Rightarrow> string \<Rightarrow> string outcome" where
  "a2_log_with_timestamp now msg =
     (case now of None \<Rightarrow> Panics | Some (secs, nanos) \<Rightarrow> Returns (a2_log_line secs nanos msg))"

lemma length_dec_nat: "n < 10 ^ Suc k \<Longrightarrow> length (dec_nat n) \<le> Suc k"
proof (induction k arbitrary: n)
  case 0
  then show ?case by (simp add: dec_nat.simps [of n])
next
  case (Suc k)
  then have "n div 10 < 10 ^ Suc k" by (simp add: div_less_iff_less_mult)
  from Suc.IH [OF this] show ?case by (simp add: dec_nat.simps [of n])
qed

lemma length_pad: "length s \<le> n \<Longrightarrow> length (pad c n s) = n"
  by (simp add: pad_def)

lemma foldl_pad: "foldl (\<lambda>n c. 10 * n + (of_char c - 48)) 0 (replicate k CHR ''0'') = (0 :: nat)"
  "foldl (\<lambda>n c. 10 * n + (of_char c - 48)) 0 (replicate k CHR '' '') = (0 :: nat)"
  by (induction k) simp_all

lemma undec_pad: "undec (pad CHR ''0'' k (dec_nat n)) = n" "undec (pad CHR '' '' k (dec_nat n)) = n"
  using undec_dec_nat [of n] by (simp_all add: pad_def foldl_pad)

text \<open>The stamp has always ten characters, and the time can be read off.\<close>

lemma log_line_stamp:
  assumes "nanos < 10 ^ 9"
  shows "drop 10 (log_line secs nanos msg) = msg"
    and "undec (take 3 (drop 1 (log_line secs nanos msg))) = secs mod 1000"
    and "undec (take 3 (drop 5 (log_line secs nanos msg))) = nanos div 1000000"
proof -
  let ?s = "pad CHR '' '' 3 (dec_nat (secs mod 1000))" and ?m = "pad CHR ''0'' 3 (dec_nat (nanos div 1000000))"
  have "secs mod 1000 < 10 ^ Suc 2" "nanos div 1000000 < 10 ^ Suc 2"
    using assms by (simp_all add: div_less_iff_less_mult)
  then have l: "length ?s = 3" "length ?m = 3" by (simp_all add: length_pad length_dec_nat [of _ 2, simplified])
  then show "drop 10 (log_line secs nanos msg) = msg" by (simp add: log_line_def)
  have "take 3 (drop 1 (log_line secs nanos msg)) = ?s" "take 3 (drop 5 (log_line secs nanos msg)) = ?m"
    using l by (simp_all add: log_line_def)
  then show "undec (take 3 (drop 1 (log_line secs nanos msg))) = secs mod 1000"
    "undec (take 3 (drop 5 (log_line secs nanos msg))) = nanos div 1000000"
    using undec_pad by simp_all
qed

text \<open>
  In \<open>attempt2.rs\<close> the fraction is not what it looks like: five milliseconds and half a second
  after a full second are printed as \<open>7.5000000\<close> and \<open>7.500000000\<close>.
\<close>

lemma a2_log_line_fraction:
  "a2_log_line 7 5000000 msg = ''[  7.5000000] '' @ msg" "a2_log_line 7 500000000 msg = ''[  7.500000000] '' @ msg"
proof -
  have "char_of (55 :: nat) = CHR ''7''" "char_of (53 :: nat) = CHR ''5''" "char_of (48 :: nat) = CHR ''0''"
    by (simp_all add: char_of_def bit_0)
  moreover have "replicate 2 c = [c, c]" for c :: char by (simp add: numeral_2_eq_2)
  ultimately show "a2_log_line 7 5000000 msg = ''[  7.5000000] '' @ msg" "a2_log_line 7 500000000 msg = ''[  7.500000000] '' @ msg"
    by (simp_all add: a2_log_line_def pad_def dec_nat.simps)
qed

subsection \<open>Texts\<close>

text \<open>\<open>str::lines\<close>: the line feed and a carriage return before it are cut off.\<close>

definition strip_cr :: "string \<Rightarrow> string" where
  "strip_cr l = (if l \<noteq> [] \<and> last l = CHR 0x0D then butlast l else l)"

function lines_of :: "string \<Rightarrow> string list" where
  "lines_of s =
     (if s = [] then []
      else case dropWhile (\<lambda>c. c \<noteq> CHR 0x0A) s of
          [] \<Rightarrow> [s]
        | _ # rest \<Rightarrow> strip_cr (takeWhile (\<lambda>c. c \<noteq> CHR 0x0A) s) # lines_of rest)"
  by pat_completeness auto
termination
proof (relation "measure length")
  fix s c rest
  assume "dropWhile (\<lambda>c. c \<noteq> CHR 0x0A) s = c # rest"
  then have "length (c # rest) \<le> length s" by (metis length_dropWhile_le)
  then show "(rest, s) \<in> measure length" by simp
qed simp

declare lines_of.simps [simp del]

definition starts_with :: "string \<Rightarrow> string \<Rightarrow> bool" where
  "starts_with p l \<longleftrightarrow> take (length p) l = p"

text \<open>\<open>split_whitespace\<close>: the words between white space.\<close>

definition white :: "char \<Rightarrow> bool" where
  "white c \<longleftrightarrow> c = CHR '' '' \<or> 9 \<le> (of_char c :: nat) \<and> (of_char c :: nat) \<le> 13"

function words :: "string \<Rightarrow> string list" where
  "words s =
     (let s' = dropWhile white s in
      if s' = [] then [] else takeWhile (\<lambda>c. \<not> white c) s' # words (dropWhile (\<lambda>c. \<not> white c) s'))"
  by pat_completeness auto
termination
proof (relation "measure length")
  fix s s' :: string
  assume s': "s' = dropWhile white s" "s' \<noteq> []"
  then obtain c r where c: "s' = c # r" "\<not> white c" by (metis hd_Cons_tl hd_dropWhile)
  then have "length (dropWhile (\<lambda>c. \<not> white c) s') \<le> length r" by (simp add: length_dropWhile_le)
  also have "\<dots> < length s'" by (simp add: c)
  also have "\<dots> \<le> length s" by (simp add: s'(1) length_dropWhile_le)
  finally show "(dropWhile (\<lambda>c. \<not> white c) s', s) \<in> measure length" by simp
qed simp

declare words.simps [simp del]

text \<open>\<open>parse::<usize>\<close>: an optional plus sign and at least one digit, without overflow.\<close>

definition digit :: "char \<Rightarrow> bool" where
  "digit c \<longleftrightarrow> 48 \<le> (of_char c :: nat) \<and> (of_char c :: nat) \<le> 57"

definition parse_usize :: "string \<Rightarrow> usize option" where
  "parse_usize s =
     (let ds = (if s \<noteq> [] \<and> hd s = CHR ''+'' then tl s else s) in
      if ds \<noteq> [] \<and> list_all digit ds \<and> undec ds < 2 ^ 64 then Some (of_nat (undec ds)) else None)"

subsection \<open>The state of the process\<close>

text \<open>\<open>cpu_set\<close>: the result of \<open>sched_getaffinity\<close>, with \<open>CPU_SETSIZE\<close> entries.\<close>

definition get_current_cpu :: "i32 \<Rightarrow> (nat \<Rightarrow> bool) \<Rightarrow> nat \<Rightarrow> int" where
  "get_current_cpu ret cpu_set CPU_SETSIZE =
     (if ret = 0 then case List.find cpu_set [0..<CPU_SETSIZE] of Some i \<Rightarrow> int i | None \<Rightarrow> -1 else -1)"

definition get_process_state :: "string option \<Rightarrow> string" where
  "get_process_state status =
     (case status of
        None \<Rightarrow> ''Unknown''
      | Some text \<Rightarrow>
          (case List.find (starts_with ''State:'') (lines_of text) of None \<Rightarrow> ''Unknown'' | Some l \<Rightarrow> l))"

definition count_open_fds :: "'e list option \<Rightarrow> nat" where
  "count_open_fds entries = (case entries of None \<Rightarrow> 0 | Some es \<Rightarrow> length es)"

definition get_thread_count :: "string option \<Rightarrow> usize" where
  "get_thread_count status =
     (case status of
        None \<Rightarrow> 0
      | Some text \<Rightarrow>
          (case List.find (starts_with ''Threads:'') (lines_of text) of
             None \<Rightarrow> 0
           | Some l \<Rightarrow>
               (case words l of
                  _ # w # _ \<Rightarrow> (case parse_usize w of None \<Rightarrow> 0 | Some n \<Rightarrow> n)
                | _ \<Rightarrow> 0)))"

lemma current_cpu_allowed:
  assumes "get_current_cpu ret cpu_set n = int i"
  shows "ret = 0 \<and> i < n \<and> cpu_set i \<and> (\<forall>j < i. \<not> cpu_set j)"
  using assms by (auto simp: get_current_cpu_def find_Some_iff split: if_splits option.splits)

lemma lines_of_append:
  assumes "\<forall>c \<in> set l. c \<noteq> CHR 0x0A" and "l = [] \<or> last l \<noteq> CHR 0x0D"
  shows "lines_of (l @ CHR 0x0A # rest) = l # lines_of rest"
proof -
  have "dropWhile (\<lambda>c. c \<noteq> CHR 0x0A) (l @ CHR 0x0A # rest) = CHR 0x0A # rest"
    "takeWhile (\<lambda>c. c \<noteq> CHR 0x0A) (l @ CHR 0x0A # rest) = l"
    using assms(1) by (simp_all add: dropWhile_append2 takeWhile_append2)
  then show ?thesis using assms(2) by (simp add: lines_of.simps [of "l @ CHR 0x0A # rest"] strip_cr_def) auto
qed

lemma words_skip: "white c \<Longrightarrow> words (c # s) = words s"
  by (simp add: words.simps [of "c # s"] words.simps [of s])

lemma words_word:
  assumes "w \<noteq> []" and "\<forall>c \<in> set w. \<not> white c" and "s = [] \<or> white (hd s)"
  shows "words (w @ s) = w # words s"
proof -
  have "takeWhile (\<lambda>c. \<not> white c) (w @ s) = w" "dropWhile (\<lambda>c. \<not> white c) (w @ s) = s"
    using assms(2,3) by (cases s; simp add: takeWhile_append2 dropWhile_append2)+
  moreover have "dropWhile white (w @ s) = w @ s" using assms(1,2) by (cases w) simp_all
  ultimately show ?thesis using assms(1) by (simp add: words.simps [of "w @ s"])
qed

lemma words_Nil: "words [] = []"
  by (simp add: words.simps)

lemma digits_dec_nat: "list_all digit (dec_nat n) \<and> dec_nat n \<noteq> []"
proof (induction n rule: dec_nat.induct)
  case (1 n)
  have "digit (char_of (k + 48))" if "k < 10" for k :: nat using that by (simp add: digit_def)
  with 1 show ?case by (simp add: dec_nat.simps [of n])
qed

lemma parse_dec_nat: "n < 2 ^ 64 \<Longrightarrow> parse_usize (dec_nat n) = Some (of_nat n)"
proof -
  assume "n < 2 ^ 64"
  moreover have "hd (dec_nat n) \<noteq> CHR ''+''"
    using digits_dec_nat [of n] by (cases "dec_nat n") (auto simp: digit_def)
  ultimately show ?thesis using digits_dec_nat [of n] undec_dec_nat [of n] by (simp add: parse_usize_def Let_def del: undec.simps)
qed

text \<open>The thread count is read back from a status file that has it in its usual line.\<close>

lemma get_thread_count_reads:
  assumes "\<forall>l \<in> set ls. (\<forall>c \<in> set l. c \<noteq> CHR 0x0A \<and> c \<noteq> CHR 0x0D) \<and> \<not> starts_with ''Threads:'' l" and n: "n < 2 ^ 64"
  shows "get_thread_count (Some (concat (map (\<lambda>l. l @ [CHR 0x0A]) ls) @ ''Threads:'' @ CHR 0x09 # dec_nat n @ CHR 0x0A # rest)) = of_nat n"
proof -
  let ?l = "''Threads:'' @ CHR 0x09 # dec_nat n"
  have d: "digit c" if "c \<in> set (dec_nat n)" for c using digits_dec_nat [of n] that by (simp add: list_all_iff)
  have nw: "\<not> white c" "c \<noteq> CHR 0x0A" "c \<noteq> CHR 0x0D" if "digit c" for c
    using that by (auto simp: digit_def white_def)
  have tail: "lines_of (?l @ CHR 0x0A # rest) = ?l # lines_of rest"
    using d nw by (intro lines_of_append) (auto simp: last_append)
  have "List.find (starts_with ''Threads:'') (lines_of (concat (map (\<lambda>l. l @ [CHR 0x0A]) ls) @ ?l @ CHR 0x0A # rest)) = Some ?l"
    using assms(1)
  proof (induction ls)
    case Nil
    show ?case using tail by (simp add: starts_with_def)
  next
    case (Cons l ls)
    have "l = [] \<or> last l \<noteq> CHR 0x0D" using Cons.prems by (metis last_in_set list.set_intros(1))
    with Cons.prems have "lines_of (l @ CHR 0x0A # r) = l # lines_of r" for r by (intro lines_of_append) auto
    with Cons show ?case by simp
  qed
  moreover have "words ?l = [''Threads:'', dec_nat n]"
  proof -
    have t: "white (CHR 0x09)" by (simp add: white_def)
    have "words (dec_nat n) = [dec_nat n]" using words_word [of "dec_nat n" "[]"] d nw digits_dec_nat [of n] by (simp add: words_Nil)
    moreover have "words (''Threads:'' @ CHR 0x09 # dec_nat n) = ''Threads:'' # words (CHR 0x09 # dec_nat n)"
      by (rule words_word) (simp_all add: white_def)
    ultimately show ?thesis by (simp add: words_skip [OF t])
  qed
  ultimately show ?thesis using parse_dec_nat [OF n] by (simp add: get_thread_count_def)
qed

end
