(* ===== verification/Spec2Isabelle.thy ===== *)
theory Spec2Isabelle
  imports A2_Echo_Server Lib_Demo Main_Module Lib_Module A2_Routed A2_Metrics Diagnostics
begin

text \<open>
  Verification of two cooperative schedulers on top of the UMCG system call
  (user-managed concurrency groups: a server thread decides which of its worker threads
  runs, the kernel tells it when a worker blocks, wakes up or waits).

  The program. \<open>src/src/umcg_base.rs\<close> wraps the system call \<open>umcg_ctl\<close>. The two schedulers
  are \<open>src/src/lib.rs\<close> (with \<open>src/src/task_stats.rs\<close>) and its successor
  \<open>src/src/attempt2.rs\<close>. In both an executor owns servers, a server owns workers, tasks are
  submitted to a bounded queue, a server hands a task to a waiting worker through the
  worker's channel and switches to it with \<open>umcg_ctl\<close>, and a worker runs what it receives
  and waits again. In \<open>attempt2.rs\<close> one more thread, the \<open>EventRoutingServer\<close>, waits for the
  kernel's events and routes each one to the channel of the server that owns its worker.
  \<open>src/src/main.rs\<close> is the program: it starts the demo of \<open>attempt2.rs\<close>, and has its own copy
  of the interface with the ported tests. \<open>src/resources/umcg_with_logs.c\<close> is the module of
  the unikernel that implements the system call.

  Conventions. Machine integers are words of their width; additions that the debug build
  checks give \<open>Panics\<close> on overflow, atomic counters wrap. \<open>outcome\<close> tells a return from a
  panic, and \<open>None\<close> is a call that never returns: loops are instances of one
  \<open>partial_function\<close>, \<open>rust_loop\<close> of theory \<open>Prelude\<close>, with rules for invariants,
  termination (a measure), divergence and the n-th iteration, so there is no fuel. Code
  that is not in the sources is a parameter: the kernel (a function from the six
  arguments, the event buffer and the world to a result, an errno, the events written and
  a new world), the bounded queue, the concurrent map, the bounded channel, the clock,
  ids, the start of threads, the order a \<open>HashMap\<close> is walked in, and what other threads
  do meanwhile. Everything other threads can change is kept in a world that each such
  call returns anew. What the code relies on is a locale (\<open>array_queue\<close>, \<open>dash_map\<close>,
  \<open>bounded_channel\<close> in \<open>Containers\<close>, the kernel's behaviour in the component that needs
  it), interpreted on concrete functions. \<open>std::sync::mpsc\<close> is defined directly.

  Theories, and what their lemmas show.
  \<^item> \<open>Prelude\<close>, \<open>Containers\<close>: loops, event words, buffers, decimal output, containers.
  \<^item> \<open>Umcg_Base\<close> (\<open>umcg_base.rs\<close>): commands, event types, \<open>sys_umcg_ctl\<close> and the wait
    functions; the retry loop is the first uninterrupted call, event words are decoded
    without loss. \<open>Server_Error\<close>: the error type of \<open>lib.rs\<close> and its text.
  \<^item> \<open>A2_Tasks\<close> (\<open>attempt2.rs\<close>, task queue, traits, counters, \<open>submit\<close>): the queue refines the
    contract of the trait \<open>ManageTask\<close>; completion is detected exactly.
  \<^item> \<open>A2_Server\<close>, \<open>A2_Schedule\<close>, \<open>A2_Schedule_Props\<close>: \<open>handle_event\<close> with its recursion through
    context switches (bounded by the number of blocked workers) and \<open>try_schedule_tasks\<close>;
    the invariant relating statuses and queues, termination and work conservation, the
    transfer of a task, and the livelock when the invariant does not hold.
  \<^item> \<open>A2_Router\<close>: \<open>ServerRouter\<close>, \<open>ServerQueue\<close> and the routing thread: delivery in order, and
    the events that are lost. \<open>A2_Event_Loop\<close>: \<open>run_event_loop\<close> keeps the invariant at every
    iteration and drains its channel. \<open>A2_Startup\<close>: \<open>Server::new\<close>, registration of the
    workers (it ends and establishes the invariant), \<open>start_server\<close>, \<open>shutdown\<close>.
    \<open>A2_Worker\<close>: the worker threads and their creation. \<open>A2_Demo\<close>: the demo that the program
    runs: setup, agreement of the two routing maps, the task graph. \<open>A2_Echo\<close>: the echo
    server's statistics under every interleaving. \<open>A2_Echo_Server\<close>: the echo server itself, what
    an accept task submits and counts, and that the program never returns.
  \<^item> \<open>Task_Stats\<close> (\<open>task_stats.rs\<close>): counters and map under every interleaving.
  \<^item> \<open>Lib_Tasks\<close>, \<open>Lib_Server\<close>, \<open>Lib_Events\<close>, \<open>Lib_Handler\<close> (\<open>lib.rs\<close>, tasks, pool, event
    handler, scheduling): the pool's mutex is part of the state, because one place locks
    it twice. What every handler step keeps, when the handler returns, and exactly when it
    locks itself out.
  \<^item> \<open>Lib_Run\<close>: the life of a server: registration, main loop, shutdown. \<open>Lib_Worker\<close>: the
    worker threads, which pass the server's number as flags. \<open>Lib_Executor\<close>: round-robin
    submission, start, shutdown, the wait of the demo. \<open>Lib_Demo\<close>: the two demos, which end
    if no server is locked out.
  \<^item> \<open>Kernel_Module\<close> (\<open>umcg_with_logs.c\<close>): the module's functions on its state, the workers by
    thread, the idle list, the cells of blocked switches and the blocked calls; then the
    steps of all threads, \<open>kstep\<close>, and the reachable states, \<open>kreach\<close>. Its flag says whether a
    signal may end a context switch. \<open>Kernel_Props\<close>: the invariants of \<open>kreach\<close>, kept by each
    operation. \<open>Kernel_Safety\<close>: pointers, buffers, what a context switch reports, and what a
    signal breaks. \<open>Kernel_Call\<close>: a system call on the module as seen by its caller, started,
    perhaps blocked while other threads act, ended; the number of the call is a parameter,
    because the module and \<open>main.rs\<close> use 450 and \<open>umcg_base.rs\<close> 449. \<open>Kernel_Owner\<close>: for programs
    that register under their own ids and leave switching to servers, a forward simulation
    of the module by a small machine of workers and cells, from which a cell belongs to one
    worker for as long as its server is blocked. \<open>Kernel_Idle\<close>: what a wait reports to such
    programs, \<open>WAKE\<close> and \<open>TIMEOUT\<close> events only.
  \<^item> \<open>Main_Program\<close> (\<open>main.rs\<close>): the interface copy, the demo, the tests with their threads,
    the performance tests, \<open>main\<close>. \<open>Main_Module\<close> and \<open>Lib_Module\<close> compose programs with the
    module in place of the kernel parameter: the error tests pass, the demo of \<open>main.rs\<close> never
    runs a worker, the flags and the deadlock of \<open>lib.rs\<close> on this module. \<open>A2_Module\<close> does so for
    \<open>attempt2.rs\<close>: the contract of context switches that \<open>A2_Schedule\<close> assumes is proved of the
    module, under every interleaving with such programs, and with it termination, invariant
    and work conservation of \<open>try_schedule_tasks\<close> on the module. \<open>A2_Preempt\<close> does so for the event
    loop: it runs on, but a worker that the module preempts is never continued. \<open>A2_Routed\<close> is the
    routing thread on the module: what it sends is what the event loop relies on.
  \<^item> \<open>A2_Metrics\<close> (\<open>ContextSwitchMetrics\<close> of \<open>attempt2.rs\<close>): the double arithmetic of \<open>update_timeout\<close>
    as rationals rounded to 53 bits, its agreement with integer arithmetic, bounds and limits.
    \<open>Diagnostics\<close>: the log line, and the functions that read the state of the process.
  \<^item> This theory: the property that spans executor, wrapped tasks and statistics.

  State and operations keep the names of the source where HOL allows it; a Rust \<open>struct\<close> is
  a record, an \<open>enum\<close> a datatype, a method a definition on the state, the body of a loop a
  definition \<open>..._body\<close>.

  Locks. A mutex that is taken and released inside one operation is left out, and the
  operation is one atomic step. The exception is the pool of \<open>lib.rs\<close>. The poisoning of a
  mutex by a panic is not modelled.

  The module. Its lock, its compare-and-swaps and the steps between them are not
  interleaved: a call, an action of a blocked call, a timer and a scheduling hook are one
  step each. An allocation may fail where the code tests for it. The services of
  the unikernel (lookup of a thread, blocking queues, user memory, clock) are parameters or
  the documented behaviour written out; saved thread callbacks, reference counts and debug
  output are left out. The wrap-around of the number of a cell does not matter: it only
  names an allocation.

  Not modelled. That the log macros print at every place of use, the backtrace of
  \<open>print_detailed_error_info\<close>, thread affinity beyond its result, structures that are never
  built (\<open>PendingContextSwitch\<close>, \<open>WaitStats\<close>, \<open>WorkerState\<close> and the second \<open>TaskState\<close>), and the files
  that are entirely commented out (\<open>close.rs\<close>, \<open>http2.rs\<close>, \<open>executor.rs\<close>, \<open>umcg_http_test.rs\<close>) or
  not part of the crate (\<open>test.rs\<close>, \<open>umcg_test.rs\<close>).
\<close>

section \<open>Submission, execution and completion\<close>

text \<open>
  Wrapped tasks run one after the other, by whichever worker; each call may do anything
  to the executor but register or complete tasks itself.
\<close>

primrec run_all ::
  "('d, task_id, bool) dash_ops \<Rightarrow> ('f \<Rightarrow> ('q, 'f, 'x, 'd) executor \<Rightarrow> ('q, 'f, 'x, 'd) executor outcome option) \<Rightarrow>
   'f wrapped list \<Rightarrow> ('q, 'f, 'x, 'd) executor \<Rightarrow> ('q, 'f, 'x, 'd) executor outcome option" where
  "run_all D call [] ex = Some (Returns ex)"
| "run_all D call (t # ts) ex =
     (case Lib_Executor.run_wrapped D call t ex of Some (Returns ex') \<Rightarrow> run_all D call ts ex' | r \<Rightarrow> r)"

lemma submit_stats:
  "Lib_Executor.submit D Q i u now f ex = Some (Returns ex') \<Longrightarrow>
     ex_stats ex' = Task_Stats.register_task D i (ex_stats ex)"
  by (auto simp: Lib_Executor.submit_def Let_def split: if_splits)

lemma submit_all_reach:
  assumes "submit_all D Q ts ex = Some (Returns ex')" and "stats_reach D (ex_stats ex) R {}"
    and "distinct (map sub_task ts)" and "sub_task ` set ts \<inter> R = {}"
  shows "stats_reach D (ex_stats ex') (R \<union> sub_task ` set ts) {}"
  using assms
proof (induction ts arbitrary: ex R)
  case (Cons t ts)
  from Cons.prems(1) obtain ex1 where
    s: "Lib_Executor.submit D Q (sub_task t) (sub_entry t) (sub_time t) (sub_fn t) ex = Some (Returns ex1)"
    and rest: "submit_all D Q ts ex1 = Some (Returns ex')"
    by (auto split: option.splits outcome.splits)
  from Cons.prems(2,4) have "stats_reach D (ex_stats ex1) (insert (sub_task t) R) {}"
    unfolding submit_stats [OF s] by (intro stats_reach.register) auto
  from Cons.IH [OF rest this] Cons.prems(3,4) show ?case by (auto simp: image_iff)
qed simp

lemma run_all_reach:
  assumes "\<And>f ex. \<exists>ex'. call f ex = Some (Returns ex') \<and> ex_stats ex' = ex_stats ex"
    and "stats_reach D (ex_stats ex) R F"
  shows "\<exists>ex'. run_all D call ws ex = Some (Returns ex') \<and> stats_reach D (ex_stats ex') R (F \<union> (fst ` set ws \<inter> R))"
  using assms(2)
proof (induction ws arbitrary: ex F)
  case (Cons w ws)
  obtain i f where w: "w = (i, f)" by fastforce
  from assms(1) [of f ex] obtain ex1 where c: "call f ex = Some (Returns ex1)" "ex_stats ex1 = ex_stats ex" by blast
  let ?ex = "ex1\<lparr>ex_stats := Task_Stats.mark_completed D i (ex_stats ex1)\<rparr>"
  have r: "Lib_Executor.run_wrapped D call w ex = Some (Returns ?ex)" by (simp add: Lib_Executor.run_wrapped_def w c)
  have "stats_reach D (ex_stats ?ex) R (F \<union> ({i} \<inter> R))" using stats_reach.complete [OF Cons.prems] by (simp add: c(2))
  from Cons.IH [OF this] obtain ex' where
    "run_all D call ws ?ex = Some (Returns ex')" "stats_reach D (ex_stats ex') R (F \<union> ({i} \<inter> R) \<union> (fst ` set ws \<inter> R))" by blast
  moreover have "F \<union> ({i} \<inter> R) \<union> (fst ` set ws \<inter> R) = F \<union> (fst ` set (w # ws) \<inter> R)" by (auto simp: w)
  ultimately show ?case using r by simp
qed auto

text \<open>
  C17: From submission to completion, across the executor of \<open>lib.rs\<close> and the statistics of
  \<open>task_stats.rs\<close>. After tasks with different ids were submitted to a new executor, and
  any wrapped tasks were run in any order, by any worker, some perhaps twice,
  \<open>all_tasks_completed\<close> holds exactly if there was a submission and every submitted task
  has been run; and \<open>get_completion_stats\<close> gives the number of submitted tasks that have
  run and the number of submissions.
\<close>
theorem executor_completion:
  assumes D: "dash_map D lookup" and new: "Executor_new D Q cfg x = Returns ex"
    and sub: "submit_all D Q ts ex = Some (Returns ex1)" and "distinct (map sub_task ts)" and len: "length ts < 2 ^ 64"
    and call: "\<And>f ex. \<exists>ex'. call f ex = Some (Returns ex') \<and> ex_stats ex' = ex_stats ex"
  shows "\<exists>ex2. run_all D call ws ex1 = Some (Returns ex2) \<and>
    (executor_all_tasks_completed ex2 \<longleftrightarrow> ts \<noteq> [] \<and> sub_task ` set ts \<subseteq> fst ` set ws) \<and>
    Lib_Executor.get_completion_stats ex2 =
      (of_nat (card (sub_task ` set ts \<inter> fst ` set ws)), of_nat (length ts))"
proof -
  let ?R = "sub_task ` set ts"
  have sc: "stats_client D lookup" using D by (rule stats_client.intro)
  have "ex_stats ex = Task_Stats.TaskStats_new D" using new by (auto simp: Executor_new_def split: if_splits)
  then have "stats_reach D (ex_stats ex) {} {}" by (simp add: stats_reach.start)
  from submit_all_reach [OF sub this assms(4)] have "stats_reach D (ex_stats ex1) ?R {}" by simp
  from run_all_reach [where call = call and ws = ws, OF call this] obtain ex2 where
    run: "run_all D call ws ex1 = Some (Returns ex2)" and r: "stats_reach D (ex_stats ex2) ?R (fst ` set ws \<inter> ?R)"
    by auto
  have card: "card ?R = length ts" using distinct_card [OF assms(4)] by simp
  have "executor_all_tasks_completed ex2 \<longleftrightarrow> ?R \<noteq> {} \<and> fst ` set ws \<inter> ?R = ?R"
    using stats_client.completed_iff [OF sc r] len card by (simp add: executor_all_tasks_completed_def)
  moreover have "total_tasks (ex_stats ex2) = of_nat (length ts)"
    "completed_count (ex_stats ex2) = of_nat (card (?R \<inter> fst ` set ws))"
    using stats_client.reach_inv [OF sc r] card unfolding stats_client.stats_inv_def [OF sc] by (simp_all add: Int_commute)
  ultimately show ?thesis using run by (auto simp: Lib_Executor.get_completion_stats_def)
qed

theorem executor_completion_witness:
  "\<exists>ex ex1 ex2. Executor_new fun_map list_queue (Lib_Executor.ExecutorConfig_default) () = Returns ex \<and>
     submit_all fun_map list_queue [\<lparr>sub_task = 1, sub_entry = 2, sub_time = 0, sub_fn = (7 :: nat)\<rparr>] ex = Some (Returns ex1) \<and>
     run_all fun_map (\<lambda>f ex. Some (Returns ex)) [(1, 7)] ex1 = Some (Returns ex2) \<and> executor_all_tasks_completed ex2"
proof -
  let ?ts = "[\<lparr>sub_task = 1, sub_entry = 2, sub_time = 0, sub_fn = (7 :: nat)\<rparr>]"
  obtain ex :: "(nat \<times> nat wrapped TaskEntry list, nat, unit, _) executor" where
    new: "Executor_new fun_map list_queue (Lib_Executor.ExecutorConfig_default) () = Returns ex"
    by (simp add: Executor_new_def Lib_Executor.ExecutorConfig_default_def)
  then obtain ex1 where sub: "submit_all fun_map list_queue ?ts ex = Some (Returns ex1)"
    by (auto simp: Executor_new_def Lib_Executor.ExecutorConfig_default_def Lib_Executor.submit_def Lib_Run.Server_new_def split: if_splits)
  from executor_completion [OF fun_map.dash_map_axioms new sub, of "\<lambda>f ex. Some (Returns ex)" "[(1, 7)]"] obtain ex2 where
    "run_all fun_map (\<lambda>f ex. Some (Returns ex)) [(1, 7)] ex1 = Some (Returns ex2)" "executor_all_tasks_completed ex2" by auto
  with new sub show ?thesis by (intro exI conjI)
qed

end
